(* ===== verification/Prelude.thy ===== *)
theory Prelude
  imports Complex_Main "HOL-Library.AList_Mapping" "HOL-Library.Char_ord"
    "HOL-Library.List_Lexorder"
begin

text \<open>
  Shared base of the development: the types that stand for Go's built-in types, 64-bit
  arithmetic with its wrap-around, the functions of the packages \<open>strings\<close>, \<open>strconv\<close>
  and \<open>fmt\<close> that the program calls, and lemmas on them and on finite mappings.

  \<^item> A Go \<open>string\<close> or \<open>[]byte\<close> is an Isabelle \<open>string\<close>, one \<open>char\<close> per byte.
  \<^item> A Go \<open>map[string]V\<close> is a \<open>(string, V) mapping\<close>; iteration in key order, where the
    code asks for it, is \<open>Mapping.ordered_keys\<close>.
  \<^item> \<open>int\<close>, \<open>int64\<close> and \<open>time.Duration\<close> are \<open>int\<close>; every addition or multiplication of
    the code that can leave the 64-bit range goes through \<open>wrap64\<close>.
  \<^item> A Go result \<open>(T, error)\<close> is a sum: \<open>Inl\<close> the error, \<open>Inr\<close> the value.
\<close>

named_theorems go_simps \<open>unfolding rules of the modelled library functions\<close>

section \<open>64-bit integers and durations\<close>

definition wrap64 :: "int \<Rightarrow> int" where
  "wrap64 x = (x + 2 ^ 63) mod 2 ^ 64 - 2 ^ 63"

abbreviation max_int64 :: int where "max_int64 \<equiv> 9223372036854775807"

abbreviation min_int64 :: int where "min_int64 \<equiv> - 9223372036854775808"

definition int64 :: "int \<Rightarrow> bool" where
  "int64 x \<longleftrightarrow> min_int64 \<le> x \<and> x \<le> max_int64"

lemma wrap64_id [simp]: "int64 x \<Longrightarrow> wrap64 x = x"
  by (simp add: int64_def wrap64_def mod_pos_pos_trivial)

lemma int64_wrap64 [simp, intro]: "int64 (wrap64 x)"
proof -
  have "0 \<le> (x + 2 ^ 63) mod 2 ^ 64" and "(x + 2 ^ 63) mod 2 ^ 64 < (2 ^ 64 :: int)"
    by (rule pos_mod_sign, simp) (rule pos_mod_bound, simp)
  then show ?thesis by (simp add: int64_def wrap64_def)
qed

text \<open>Doubling a non-negative \<open>int64\<close> either stays exact or turns negative.\<close>

lemma wrap64_double:
  assumes "0 \<le> x" and "int64 x"
  shows "wrap64 (x * 2) = (if x * 2 \<le> max_int64 then x * 2 else x * 2 - 2 ^ 64)"
proof (cases "x * 2 \<le> max_int64")
  case True
  with assms show ?thesis by (simp add: int64_def)
next
  case False
  have "(x * 2 + 2 ^ 63) mod 2 ^ 64 = (x * 2 + 2 ^ 63 - 2 ^ 64) mod (2 ^ 64 :: int)"
    by (rule minus_mod_self2 [symmetric])
  also have "\<dots> = x * 2 + 2 ^ 63 - 2 ^ 64"
    using False assms by (intro mod_pos_pos_trivial) (simp_all add: int64_def)
  finally show ?thesis using False by (simp add: wrap64_def)
qed

text \<open>\<open>time.Duration\<close> counts nanoseconds.\<close>

abbreviation second :: int where "second \<equiv> 1000000000"
abbreviation minute :: int where "minute \<equiv> 60000000000"
abbreviation hour :: int where "hour \<equiv> 3600000000000"

section \<open>Results\<close>

text \<open>\<open>bind_r\<close> is the pattern \<open>if err != nil { return err }\<close>.\<close>

definition bind_r :: "'e + 'a \<Rightarrow> ('a \<Rightarrow> 'e + 'b) \<Rightarrow> 'e + 'b" where
  "bind_r r f = (case r of Inl e \<Rightarrow> Inl e | Inr a \<Rightarrow> f a)"

lemma bind_r_simps [simp]: "bind_r (Inl e) f = Inl e" "bind_r (Inr a) f = f a"
  by (simp_all add: bind_r_def)

lemma bind_r_Inr_iff: "bind_r r f = Inr b \<longleftrightarrow> (\<exists>a. r = Inr a \<and> f a = Inr b)"
  by (cases r) simp_all

section \<open>Package strings\<close>

text \<open>
  The white space of \<open>unicode.IsSpace\<close> in the ASCII range, which is all that can occur in
  the header values and tokens the program trims.
\<close>

definition is_space :: "char \<Rightarrow> bool" where
  "is_space c \<longleftrightarrow> c \<in> {CHR 0x09, CHR 0x0A, CHR 0x0B, CHR 0x0C, CHR 0x0D, CHR '' ''}"

definition trim_left :: "string \<Rightarrow> string" where
  "trim_left s = dropWhile is_space s"

definition trim_space :: "string \<Rightarrow> string" where
  "trim_space s = rev (dropWhile is_space (rev (dropWhile is_space s)))"

text \<open>\<open>strings.TrimRight(s, "/")\<close> and \<open>strings.TrimPrefix(s, "/")\<close>.\<close>

definition trim_right_char :: "char \<Rightarrow> string \<Rightarrow> string" where
  "trim_right_char c s = rev (dropWhile (\<lambda>x. x = c) (rev s))"

definition trim_prefix_char :: "char \<Rightarrow> string \<Rightarrow> string" where
  "trim_prefix_char c s = (case s of [] \<Rightarrow> [] | x # xs \<Rightarrow> if x = c then xs else s)"

definition has_suffix_char :: "char \<Rightarrow> string \<Rightarrow> bool" where
  "has_suffix_char c s \<longleftrightarrow> s \<noteq> [] \<and> last s = c"

text \<open>\<open>strings.Cut\<close> and \<open>strings.Split\<close> at a one-byte separator.\<close>

definition cut :: "char \<Rightarrow> string \<Rightarrow> string \<times> string \<times> bool" where
  "cut c s = (if c \<in> set s
     then (takeWhile (\<lambda>x. x \<noteq> c) s, tl (dropWhile (\<lambda>x. x \<noteq> c) s), True)
     else (s, [], False))"

fun split_on :: "char \<Rightarrow> string \<Rightarrow> string list" where
  "split_on c [] = [[]]"
| "split_on c (x # xs) =
     (if x = c then [] # split_on c xs
      else (case split_on c xs of [] \<Rightarrow> [[x]] | y # ys \<Rightarrow> (x # y) # ys))"

definition ascii_lower :: "char \<Rightarrow> char" where
  "ascii_lower c = (if CHR ''A'' \<le> c \<and> c \<le> CHR ''Z'' then char_of (of_char c + (32 :: nat)) else c)"

definition to_lower :: "string \<Rightarrow> string" where
  "to_lower s = map ascii_lower s"

text \<open>
  Simple Unicode case folding onto ASCII: besides the letters, U+212A (Kelvin sign) folds to
  \<open>k\<close> and U+017F (long s) to \<open>s\<close>. Both \<open>strings.EqualFold\<close> and the member names of
  \<open>encoding/json\<close> are compared this way.
\<close>

fun fold_case :: "string \<Rightarrow> string" where
  "fold_case [] = []"
| "fold_case (c # s) =
     (if c = CHR 0xE2 \<and> take 2 s = [CHR 0x84, CHR 0xAA] then CHR ''k'' # fold_case (drop 2 s)
      else if c = CHR 0xC5 \<and> take 1 s = [CHR 0xBF] then CHR ''s'' # fold_case (drop 1 s)
      else ascii_lower c # fold_case s)"

definition equal_fold :: "string \<Rightarrow> string \<Rightarrow> bool" where
  "equal_fold s t \<longleftrightarrow> fold_case s = fold_case t"

section \<open>Package strconv\<close>

definition is_digit :: "char \<Rightarrow> bool" where
  "is_digit c \<longleftrightarrow> CHR ''0'' \<le> c \<and> c \<le> CHR ''9''"

definition digit_char :: "nat \<Rightarrow> char" where
  "digit_char d = char_of (48 + d)"

definition digit_val :: "char \<Rightarrow> nat" where
  "digit_val c = of_char c - 48"

fun show_nat :: "nat \<Rightarrow> string" where
  "show_nat n = (if n < 10 then [digit_char n] else show_nat (n div 10) @ [digit_char (n mod 10)])"

declare show_nat.simps [simp del]

definition itoa :: "int \<Rightarrow> string" where
  "itoa i = (if i < 0 then CHR ''-'' # show_nat (nat (- i)) else show_nat (nat i))"

definition read_digits :: "string \<Rightarrow> nat" where
  "read_digits s = foldl (\<lambda>n c. 10 * n + digit_val c) 0 s"

text \<open>
  \<open>strconv.ParseInt(s, 10, 64)\<close>, and \<open>strconv.Atoi\<close> on a 64-bit platform: an optional
  sign, at least one digit, nothing else, and a value in range; \<open>None\<close> is the error.
\<close>

definition in_range64 :: "int \<Rightarrow> int option" where
  "in_range64 i = (if int64 i then Some i else None)"

definition parse_int :: "string \<Rightarrow> int option" where
  "parse_int s =
     (case s of
        [] \<Rightarrow> None
      | c # ds \<Rightarrow>
          if c = CHR ''-'' \<or> c = CHR ''+'' then
            if ds \<noteq> [] \<and> list_all is_digit ds
            then in_range64 (if c = CHR ''-'' then - int (read_digits ds) else int (read_digits ds))
            else None
          else if list_all is_digit s then in_range64 (int (read_digits s)) else None)"

lemma digit_char_props:
  assumes "d < 10"
  shows "is_digit (digit_char d)" and "digit_val (digit_char d) = d"
    and "digit_char d \<noteq> CHR ''-''" and "digit_char d \<noteq> CHR ''+''"
    and "digit_char d = CHR ''0'' \<longleftrightarrow> d = 0"
proof -
  have "d \<in> set [0..<10]" using assms by simp
  moreover have "list_all (\<lambda>d. is_digit (digit_char d) \<and> digit_val (digit_char d) = d
      \<and> digit_char d \<noteq> CHR ''-'' \<and> digit_char d \<noteq> CHR ''+''
      \<and> (digit_char d = CHR ''0'') = (d = 0)) [0..<10]"
    by code_simp
  ultimately show "is_digit (digit_char d)" and "digit_val (digit_char d) = d"
    and "digit_char d \<noteq> CHR ''-''" and "digit_char d \<noteq> CHR ''+''"
    and "digit_char d = CHR ''0'' \<longleftrightarrow> d = 0"
    by (auto simp: list_all_iff)
qed

lemma show_nat_digits: "list_all is_digit (show_nat n)"
proof (induction n rule: show_nat.induct)
  case (1 n)
  then show ?case
    by (subst show_nat.simps) (simp add: digit_char_props)
qed

lemma show_nat_nonempty [simp]: "show_nat n \<noteq> []"
  by (subst show_nat.simps) simp

lemma read_digits_snoc: "read_digits (s @ [c]) = 10 * read_digits s + digit_val c"
  by (simp add: read_digits_def)

lemma read_show_nat [simp]: "read_digits (show_nat n) = n"
proof (induction n rule: show_nat.induct)
  case (1 n)
  show ?case
  proof (cases "n < 10")
    case True
    then show ?thesis
      by (subst show_nat.simps) (simp add: read_digits_def digit_char_props)
  next
    case False
    with "1.IH" show ?thesis
      by (subst show_nat.simps) (simp add: read_digits_snoc digit_char_props)
  qed
qed

lemma show_nat_hd:
  obtains c cs where "show_nat n = c # cs" and "is_digit c" and "c \<noteq> CHR ''-''" and "c \<noteq> CHR ''+''"
proof -
  obtain c cs where s: "show_nat n = c # cs" by (cases "show_nat n") simp_all
  with show_nat_digits [of n] have d: "is_digit c" by simp
  then have "c \<noteq> CHR ''-''" "c \<noteq> CHR ''+''" by (auto simp: is_digit_def)
  with s d show thesis by (rule that)
qed

text \<open>A leading zero only in the number zero itself.\<close>

lemma show_nat_no_leading_zero: "hd (show_nat n) = CHR ''0'' \<longleftrightarrow> n = 0"
proof (induction n rule: show_nat.induct)
  case (1 n)
  show ?case
  proof (cases "n < 10")
    case True
    then show ?thesis by (subst show_nat.simps) (simp add: digit_char_props)
  next
    case False
    have "hd (show_nat n) = hd (show_nat (n div 10))"
      using False by (subst show_nat.simps) simp
    with "1.IH" [OF False] False show ?thesis by simp
  qed
qed

theorem parse_int_itoa: "int64 i \<Longrightarrow> parse_int (itoa i) = Some i"
proof (cases "i < 0")
  case True
  assume "int64 i"
  with True show ?thesis
    by (simp add: itoa_def parse_int_def in_range64_def show_nat_digits)
next
  case False
  assume r: "int64 i"
  obtain c cs where s: "show_nat (nat i) = c # cs" and "c \<noteq> CHR ''-''" and "c \<noteq> CHR ''+''"
    by (rule show_nat_hd)
  moreover have "list_all is_digit (c # cs)" using show_nat_digits [of "nat i"] s by simp
  moreover have "read_digits (c # cs) = nat i" using s read_show_nat [of "nat i"] by simp
  ultimately show ?thesis using False r
    by (simp add: itoa_def parse_int_def in_range64_def)
qed

section \<open>Package fmt\<close>

text \<open>
  The verb \<open>%q\<close> (\<open>strconv.Quote\<close>): control bytes and the two delimiters are escaped;
  bytes from 0x80 on are taken to spell printable UTF-8 and pass through.
\<close>

definition hex_char :: "nat \<Rightarrow> char" where
  "hex_char d = (if d < 10 then char_of (48 + d) else char_of (87 + d))"

definition quote_char :: "char \<Rightarrow> string" where
  "quote_char c =
     (if c = CHR 0x22 then [CHR 0x5C, CHR 0x22]
      else if c = CHR 0x5C then [CHR 0x5C, CHR 0x5C]
      else if c = CHR 0x07 then [CHR 0x5C, CHR ''a'']
      else if c = CHR 0x08 then [CHR 0x5C, CHR ''b'']
      else if c = CHR 0x0C then [CHR 0x5C, CHR ''f'']
      else if c = CHR 0x0A then [CHR 0x5C, CHR ''n'']
      else if c = CHR 0x0D then [CHR 0x5C, CHR ''r'']
      else if c = CHR 0x09 then [CHR 0x5C, CHR ''t'']
      else if c = CHR 0x0B then [CHR 0x5C, CHR ''v'']
      else if of_char c < (32 :: nat) \<or> c = CHR 0x7F
      then [CHR 0x5C, CHR ''x'', hex_char (of_char c div 16), hex_char (of_char c mod 16)]
      else [c])"

definition quoted :: "string \<Rightarrow> string" where
  "quoted s = [CHR 0x22] @ concat (map quote_char s) @ [CHR 0x22]"

section \<open>Finite mappings\<close>

lemma finite_keys_update [simp]: "finite (Mapping.keys (Mapping.update k v m)) \<longleftrightarrow> finite (Mapping.keys m)"
  by simp

lemma finite_keys_delete [simp, intro]: "finite (Mapping.keys m) \<Longrightarrow> finite (Mapping.keys (Mapping.delete k m))"
  by simp

lemma lookup_iff_keys: "Mapping.lookup m k \<noteq> None \<longleftrightarrow> k \<in> Mapping.keys m"
  by (simp add: keys_dom_lookup domIff)

lemma lookup_None_keys: "Mapping.lookup m k = None \<longleftrightarrow> k \<notin> Mapping.keys m"
  by (simp add: keys_dom_lookup domIff)

lemma lookup_Some_keys: "Mapping.lookup m k = Some v \<Longrightarrow> k \<in> Mapping.keys m"
  by (simp add: keys_dom_lookup domI)

lemma mapping_ext: "(\<And>k. Mapping.lookup m k = Mapping.lookup n k) \<Longrightarrow> m = n"
  by (rule mapping_eqI) simp

lemma lookup_delete': "Mapping.lookup (Mapping.delete k m) k' = (if k = k' then None else Mapping.lookup m k')"
  by (cases "k = k'") (simp_all add: lookup_delete lookup_delete_neq)

lemmas mapping_simps = lookup_update' lookup_delete' lookup_empty

lemma update_idem: "Mapping.update k v (Mapping.update k w m) = Mapping.update k v m"
  by (rule mapping_ext) (simp add: lookup_update')

lemma delete_idem: "Mapping.delete k (Mapping.delete k m) = Mapping.delete k m"
  by (rule mapping_ext) (simp add: lookup_delete')

lemma delete_absent: "Mapping.lookup m k = None \<Longrightarrow> Mapping.delete k m = m"
  by (rule mapping_ext) (auto simp: lookup_delete')

end
