(* ===== verification/Go_Json.thy ===== *)
theory Go_Json
  imports Prelude
begin

text \<open>
  The part of \<open>encoding/json\<close> the program uses: the scanner and parser, compact printing,
  string quoting, and the rules by which struct and map values are filled from a document.

  A document is parsed into a \<open>json\<close> value that keeps what the wire keeps: the literal text of
  numbers and strings, the order of members, and, beside each element and member, the source
  text of its value, which is what a \<open>json.RawMessage\<close> field captures. Printing is compact,
  so it drops white space and nothing else.

  Bytes from 0x80 on pass through strings unchanged, which is what the package does with valid
  UTF-8. The limit of 10000 on nesting and the wording of the package's errors are not modelled:
  an error is a \<open>json_err\<close>.
\<close>

section \<open>Documents\<close>

datatype json =
    JNull
  | JBool bool
  | JNum string
  | JStr string
  | JArr "(string \<times> json) list"
  | JObj "(string \<times> string \<times> json) list"

datatype json_err = Syntax_Error | Type_Error

section \<open>Scanner\<close>

abbreviation dquote :: char where "dquote \<equiv> CHR 0x22"
abbreviation backslash :: char where "backslash \<equiv> CHR 0x5C"

definition is_ws :: "char \<Rightarrow> bool" where
  "is_ws c \<longleftrightarrow> c = CHR '' '' \<or> c = CHR 0x09 \<or> c = CHR 0x0A \<or> c = CHR 0x0D"

definition skip_ws :: "string \<Rightarrow> string" where
  "skip_ws s = dropWhile is_ws s"

definition is_hex :: "char \<Rightarrow> bool" where
  "is_hex c \<longleftrightarrow> is_digit c \<or> CHR ''a'' \<le> c \<and> c \<le> CHR ''f'' \<or> CHR ''A'' \<le> c \<and> c \<le> CHR ''F''"

definition is_escape :: "char \<Rightarrow> bool" where
  "is_escape c \<longleftrightarrow> c = dquote \<or> c = backslash \<or> c = CHR ''/'' \<or> c = CHR ''b'' \<or> c = CHR ''f''
     \<or> c = CHR ''n'' \<or> c = CHR ''r'' \<or> c = CHR ''t''"

definition plain_char :: "char \<Rightarrow> bool" where
  "plain_char c \<longleftrightarrow> c \<noteq> dquote \<and> c \<noteq> backslash \<and> (32 :: nat) \<le> of_char c"

text \<open>The body of a string literal up to its closing quote, kept as written.\<close>

fun scan_str :: "string \<Rightarrow> (string \<times> string) option" where
  "scan_str [] = None"
| "scan_str (c # s) =
     (if c = dquote then Some ([], s)
      else if c = backslash then
        (case s of
           [] \<Rightarrow> None
         | e # t \<Rightarrow>
             if is_escape e then map_option (\<lambda>(b, r). (c # e # b, r)) (scan_str t)
             else if e = CHR ''u'' \<and> length t \<ge> 4 \<and> list_all is_hex (take 4 t)
             then map_option (\<lambda>(b, r). (c # e # take 4 t @ b, r)) (scan_str (drop 4 t))
             else None)
      else if plain_char c then map_option (\<lambda>(b, r). (c # b, r)) (scan_str s)
      else None)"

definition num_char :: "char \<Rightarrow> bool" where
  "num_char c \<longleftrightarrow> is_digit c \<or> c = CHR ''-'' \<or> c = CHR ''+'' \<or> c = CHR ''.''
     \<or> c = CHR ''e'' \<or> c = CHR ''E''"

definition is_exp :: "string \<Rightarrow> bool" where
  "is_exp s \<longleftrightarrow> s = [] \<or>
     (hd s = CHR ''e'' \<or> hd s = CHR ''E'') \<and>
     (let d = (if tl s \<noteq> [] \<and> (hd (tl s) = CHR ''+'' \<or> hd (tl s) = CHR ''-'') then tl (tl s) else tl s)
      in d \<noteq> [] \<and> list_all is_digit d)"

definition is_frac :: "string \<Rightarrow> bool" where
  "is_frac s \<longleftrightarrow>
     (if s \<noteq> [] \<and> hd s = CHR ''.''
      then takeWhile is_digit (tl s) \<noteq> [] \<and> is_exp (dropWhile is_digit (tl s))
      else is_exp s)"

definition is_number :: "string \<Rightarrow> bool" where
  "is_number s \<longleftrightarrow>
     (let u = (if s \<noteq> [] \<and> hd s = CHR ''-'' then tl s else s);
          ip = takeWhile is_digit u
      in ip \<noteq> [] \<and> (hd ip = CHR ''0'' \<longrightarrow> length ip = 1) \<and> is_frac (dropWhile is_digit u))"

section \<open>Parser\<close>

text \<open>
  One value at the head of the input, and what is left. The number counts the steps still
  allowed; \<open>parse_prefix\<close> gives as many as the input has bytes, and one more, which is enough
  since every step consumes a byte.
\<close>

definition taken :: "string \<Rightarrow> string \<Rightarrow> string" where
  "taken s r = take (length s - length r) s"

fun parse_value :: "nat \<Rightarrow> string \<Rightarrow> (json \<times> string) option"
and parse_elems :: "nat \<Rightarrow> string \<Rightarrow> ((string \<times> json) list \<times> string) option"
and parse_members :: "nat \<Rightarrow> string \<Rightarrow> ((string \<times> string \<times> json) list \<times> string) option" where
  "parse_value 0 s = None"
| "parse_value (Suc n) s =
     (case s of
        [] \<Rightarrow> None
      | c # t \<Rightarrow>
          if c = dquote then map_option (\<lambda>(b, r). (JStr b, r)) (scan_str t)
          else if c = CHR ''['' then
            (case skip_ws t of
               [] \<Rightarrow> None
             | d # u \<Rightarrow> if d = CHR '']'' then Some (JArr [], u)
                 else map_option (\<lambda>(xs, r). (JArr xs, r)) (parse_elems n (d # u)))
          else if c = CHR ''{'' then
            (case skip_ws t of
               [] \<Rightarrow> None
             | d # u \<Rightarrow> if d = CHR ''}'' then Some (JObj [], u)
                 else map_option (\<lambda>(xs, r). (JObj xs, r)) (parse_members n (d # u)))
          else if c = CHR ''n'' then
            (if take 4 s = ''null'' then Some (JNull, drop 4 s) else None)
          else if c = CHR ''t'' then
            (if take 4 s = ''true'' then Some (JBool True, drop 4 s) else None)
          else if c = CHR ''f'' then
            (if take 5 s = ''false'' then Some (JBool False, drop 5 s) else None)
          else if is_number (takeWhile num_char s)
          then Some (JNum (takeWhile num_char s), dropWhile num_char s)
          else None)"
| "parse_elems 0 s = None"
| "parse_elems (Suc n) s =
     (case parse_value n s of
        None \<Rightarrow> None
      | Some (v, r) \<Rightarrow>
          (case skip_ws r of
             [] \<Rightarrow> None
           | c # u \<Rightarrow>
               if c = CHR '']'' then Some ([(taken s r, v)], u)
               else if c = CHR '','' then
                 map_option (\<lambda>(xs, r'). ((taken s r, v) # xs, r')) (parse_elems n (skip_ws u))
               else None))"
| "parse_members 0 s = None"
| "parse_members (Suc n) s =
     (case s of
        [] \<Rightarrow> None
      | q # t \<Rightarrow>
          if q \<noteq> dquote then None
          else (case scan_str t of
                  None \<Rightarrow> None
                | Some (k, r0) \<Rightarrow>
                    (case skip_ws r0 of
                       [] \<Rightarrow> None
                     | c0 # r1 \<Rightarrow>
                         if c0 \<noteq> CHR '':'' then None
                         else (case parse_value n (skip_ws r1) of
                                 None \<Rightarrow> None
                               | Some (v, r) \<Rightarrow>
                                   (case skip_ws r of
                                      [] \<Rightarrow> None
                                    | c # u \<Rightarrow>
                                        if c = CHR ''}'' then Some ([(k, taken (skip_ws r1) r, v)], u)
                                        else if c = CHR '','' then
                                          map_option (\<lambda>(xs, r'). ((k, taken (skip_ws r1) r, v) # xs, r'))
                                            (parse_members n (skip_ws u))
                                        else None)))))"

text \<open>
  \<open>json.NewDecoder(r).Decode\<close> reads one value and leaves the rest of the input alone;
  \<open>json.Unmarshal\<close> and \<open>json.Valid\<close> want the value to be all of the input.
\<close>

definition parse_prefix :: "string \<Rightarrow> (json \<times> string) option" where
  "parse_prefix s = parse_value (Suc (length s)) (skip_ws s)"

definition parse :: "string \<Rightarrow> json option" where
  "parse s = (case parse_prefix s of
                None \<Rightarrow> None
              | Some (v, r) \<Rightarrow> if skip_ws r = [] then Some v else None)"

section \<open>Printing\<close>

fun jprint :: "json \<Rightarrow> string"
and print_elems :: "(string \<times> json) list \<Rightarrow> string"
and print_members :: "(string \<times> string \<times> json) list \<Rightarrow> string" where
  "jprint JNull = ''null''"
| "jprint (JBool b) = (if b then ''true'' else ''false'')"
| "jprint (JNum s) = s"
| "jprint (JStr s) = dquote # s @ [dquote]"
| "jprint (JArr xs) = CHR ''['' # print_elems xs @ '']''"
| "jprint (JObj xs) = CHR ''{'' # print_members xs @ ''}''"
| "print_elems [] = []"
| "print_elems ((_, v) # xs) = jprint v @ (if xs = [] then [] else CHR '','' # print_elems xs)"
| "print_members [] = []"
| "print_members ((k, _, v) # xs) =
     dquote # k @ [dquote, CHR '':''] @ jprint v
       @ (if xs = [] then [] else CHR '','' # print_members xs)"

text \<open>Documents built by the program: the source text of a member is its compact print.\<close>

definition mk_obj :: "(string \<times> json) list \<Rightarrow> json" where
  "mk_obj ms = JObj (map (\<lambda>(k, v). (k, jprint v, v)) ms)"

definition mk_arr :: "json list \<Rightarrow> json" where
  "mk_arr vs = JArr (map (\<lambda>v. (jprint v, v)) vs)"

section \<open>Well-formed documents\<close>

text \<open>
  The literals are ones the scanner accepts and every source text is the compact print of its
  value: what the program's own encoders build.
\<close>

definition wf_str :: "string \<Rightarrow> bool" where
  "wf_str b \<longleftrightarrow> scan_str (b @ [dquote]) = Some (b, [])"

definition wf_num :: "string \<Rightarrow> bool" where
  "wf_num s \<longleftrightarrow> is_number s \<and> list_all num_char s"

fun wf_json :: "json \<Rightarrow> bool"
and wf_elems :: "(string \<times> json) list \<Rightarrow> bool"
and wf_members :: "(string \<times> string \<times> json) list \<Rightarrow> bool" where
  "wf_json JNull = True"
| "wf_json (JBool b) = True"
| "wf_json (JNum s) = wf_num s"
| "wf_json (JStr s) = wf_str s"
| "wf_json (JArr xs) = wf_elems xs"
| "wf_json (JObj xs) = wf_members xs"
| "wf_elems [] = True"
| "wf_elems ((src, v) # xs) = (src = jprint v \<and> wf_json v \<and> wf_elems xs)"
| "wf_members [] = True"
| "wf_members ((k, src, v) # xs) = (wf_str k \<and> src = jprint v \<and> wf_json v \<and> wf_members xs)"

lemma wf_members_append [simp]: "wf_members (xs @ ys) \<longleftrightarrow> wf_members xs \<and> wf_members ys"
  by (induction xs) auto

lemma wf_members_map_mk:
  "wf_members (map (\<lambda>(k, v). (k, jprint v, v)) ms) \<longleftrightarrow> (\<forall>(k, v) \<in> set ms. wf_str k \<and> wf_json v)"
  by (induction ms) auto

definition wf_pairs :: "(string \<times> json) list \<Rightarrow> bool" where
  "wf_pairs ms \<longleftrightarrow> (\<forall>(k, v) \<in> set ms. wf_str k \<and> wf_json v)"

lemma wf_pairs_simps [simp]:
  "wf_pairs []" "wf_pairs ((k, v) # ms) \<longleftrightarrow> wf_str k \<and> wf_json v \<and> wf_pairs ms"
  "wf_pairs (xs @ ys) \<longleftrightarrow> wf_pairs xs \<and> wf_pairs ys"
  by (auto simp: wf_pairs_def)

lemma wf_mk_obj [simp]: "wf_json (mk_obj ms) \<longleftrightarrow> wf_pairs ms"
  by (simp add: mk_obj_def wf_members_map_mk wf_pairs_def)

lemma wf_mk_arr [simp]: "wf_json (mk_arr vs) \<longleftrightarrow> (\<forall>v \<in> set vs. wf_json v)"
proof -
  have "wf_elems (map (\<lambda>v. (jprint v, v)) vs) \<longleftrightarrow> (\<forall>v \<in> set vs. wf_json v)"
    by (induction vs) auto
  then show ?thesis by (simp add: mk_arr_def)
qed

section \<open>Parsing what was printed\<close>

lemma scan_str_append: "scan_str s = Some (b, r) \<Longrightarrow> scan_str (s @ t) = Some (b, r @ t)"
proof (induction s arbitrary: b r rule: scan_str.induct)
  case 1
  then show ?case by simp
next
  case (2 c s)
  show ?case
  proof (cases s)
    case Nil
    with "2.prems" show ?thesis by (auto split: if_splits)
  next
    case (Cons e u)
    with "2.prems" "2.IH" show ?thesis
      by (auto split: if_splits)
  qed
qed

lemma scan_wf_str [simp]: "wf_str b \<Longrightarrow> scan_str (b @ dquote # r) = Some (b, r)"
  using scan_str_append [of "b @ [dquote]" b "[]" r] by (simp add: wf_str_def)

definition closes :: "string \<Rightarrow> bool" where
  "closes r \<longleftrightarrow> r = [] \<or> \<not> num_char (hd r)"

lemma closes_simps [simp]:
  "closes []" "closes (CHR '','' # r)" "closes (CHR '']'' # r)" "closes (CHR ''}'' # r)"
  by (simp_all add: closes_def num_char_def is_digit_def)

lemma skip_ws_nonws: "\<not> is_ws c \<Longrightarrow> skip_ws (c # s) = c # s"
  by (simp add: skip_ws_def)

lemma skip_ws_delims [simp]:
  "skip_ws [] = []"
  "skip_ws (CHR '','' # r) = CHR '','' # r" "skip_ws (CHR '']'' # r) = CHR '']'' # r"
  "skip_ws (CHR ''}'' # r) = CHR ''}'' # r" "skip_ws (CHR '':'' # r) = CHR '':'' # r"
  "skip_ws (dquote # r) = dquote # r"
  by (simp_all add: skip_ws_def is_ws_def)

lemma is_number_hd:
  assumes "is_number s"
  obtains c t where "s = c # t" and "is_digit c \<or> c = CHR ''-''"
proof -
  from assms have ne: "s \<noteq> []" by (auto simp: is_number_def)
  then obtain c t where s: "s = c # t" by (cases s) auto
  with assms have "is_digit c \<or> c = CHR ''-''"
    by (auto simp: is_number_def Let_def split: if_splits)
  with s show thesis by (rule that)
qed

lemma number_hd_distinct:
  assumes "is_digit c \<or> c = CHR ''-''"
  shows "c \<noteq> dquote" "c \<noteq> CHR ''[''" "c \<noteq> CHR ''{''" "c \<noteq> CHR ''n''" "c \<noteq> CHR ''t''"
    "c \<noteq> CHR ''f''" "c \<noteq> CHR '']''" "c \<noteq> CHR ''}''" "\<not> is_ws c"
  using assms by (auto simp: is_digit_def is_ws_def)

lemma jprint_hd:
  assumes "wf_json j"
  obtains c t where "jprint j = c # t" and "\<not> is_ws c" and "c \<noteq> CHR '']''" and "c \<noteq> CHR ''}''"
proof (cases j)
  case (JNum s)
  with assms have "is_number s" by (simp add: wf_num_def)
  then obtain c t where "s = c # t" "is_digit c \<or> c = CHR ''-''" by (rule is_number_hd)
  with JNum that show thesis by (simp add: number_hd_distinct)
next
  case (JBool b)
  with that show thesis by (cases b) (auto simp: is_ws_def)
qed (use that in \<open>simp_all add: is_ws_def split: if_splits\<close>)

lemma skip_ws_jprint [simp]: "wf_json j \<Longrightarrow> skip_ws (jprint j @ r) = jprint j @ r"
  by (erule jprint_hd) (simp add: skip_ws_nonws)

lemma taken_append [simp]: "taken (s @ r) r = s"
  by (simp add: taken_def)

lemma num_run:
  assumes "list_all num_char s" and "closes r"
  shows "takeWhile num_char (s @ r) = s" and "dropWhile num_char (s @ r) = r"
  using assms by (induction s) (auto simp: closes_def takeWhile_eq_Nil_iff dropWhile_eq_self_iff)

lemma print_elems_hd:
  assumes "wf_elems xs" and "xs \<noteq> []"
  obtains c t where "print_elems xs = c # t" and "\<not> is_ws c" and "c \<noteq> CHR '']''"
proof (cases xs)
  case (Cons x ys)
  obtain src v where "x = (src, v)" by (cases x)
  with Cons assms that show thesis by (auto elim!: jprint_hd)
qed (use assms in simp)

lemma skip_ws_print_elems [simp]: "wf_elems xs \<Longrightarrow> xs \<noteq> [] \<Longrightarrow> skip_ws (print_elems xs @ r) = print_elems xs @ r"
  by (erule print_elems_hd) (simp_all add: skip_ws_nonws)

lemma print_members_hd:
  assumes "xs \<noteq> []"
  obtains t where "print_members xs = dquote # t"
  using assms by (cases xs) auto

lemma skip_ws_print_members [simp]: "xs \<noteq> [] \<Longrightarrow> skip_ws (print_members xs @ r) = print_members xs @ r"
  by (erule print_members_hd) simp

lemma parse_value_num:
  assumes "wf_num s" and "closes r"
  shows "parse_value (Suc n) (s @ r) = Some (JNum s, r)"
proof -
  from assms(1) have "is_number s" and all: "list_all num_char s" by (simp_all add: wf_num_def)
  then obtain c t where s: "s = c # t" and "is_digit c \<or> c = CHR ''-''" by (blast elim: is_number_hd)
  note run = num_run [OF all assms(2)]
  show ?thesis
    using number_hd_distinct [OF \<open>is_digit c \<or> _\<close>] run \<open>is_number s\<close> unfolding s
    by simp
qed

lemma jprint_nonempty: "wf_json j \<Longrightarrow> 0 < length (jprint j)"
  by (erule jprint_hd) simp

text \<open>
  The induction over a document and its lists at once: enough steps are the length of what is
  printed, and one more for a list.
\<close>

text \<open>The cases of the induction: a composite value, given that its parts are read back.\<close>

lemma parse_print_arr:
  assumes "wf_elems xs" and "xs \<noteq> [] \<Longrightarrow> parse_elems m (print_elems xs @ CHR '']'' # r) = Some (xs, r)"
  shows "parse_value (Suc m) (jprint (JArr xs) @ r) = Some (JArr xs, r)"
proof (cases "xs = []")
  case False
  with assms(1) obtain c t where "print_elems xs = c # t" "c \<noteq> CHR '']''" by (rule print_elems_hd)
  moreover have "skip_ws (print_elems xs @ CHR '']'' # r) = print_elems xs @ CHR '']'' # r"
    using assms(1) False by simp
  ultimately show ?thesis using assms(2) False by simp
qed simp

lemma parse_print_obj:
  assumes "wf_members ms" and "ms \<noteq> [] \<Longrightarrow> parse_members m (print_members ms @ CHR ''}'' # r) = Some (ms, r)"
  shows "parse_value (Suc m) (jprint (JObj ms) @ r) = Some (JObj ms, r)"
proof (cases "ms = []")
  case False
  then obtain t where "print_members ms = dquote # t" by (rule print_members_hd)
  moreover have "skip_ws (print_members ms @ CHR ''}'' # r) = print_members ms @ CHR ''}'' # r"
    using False by simp
  ultimately show ?thesis using assms(2) False by simp
qed simp

lemma parse_print_mutual:
  shows "wf_json j \<Longrightarrow> closes r \<Longrightarrow> length (jprint j) \<le> n \<Longrightarrow>
           parse_value n (jprint j @ r) = Some (j, r)"
    and "wf_elems xs \<Longrightarrow> xs \<noteq> [] \<Longrightarrow> length (print_elems xs) < n \<Longrightarrow>
           parse_elems n (print_elems xs @ CHR '']'' # r) = Some (xs, r)"
    and "wf_members ms \<Longrightarrow> ms \<noteq> [] \<Longrightarrow> length (print_members ms) < n \<Longrightarrow>
           parse_members n (print_members ms @ CHR ''}'' # r) = Some (ms, r)"
proof (induction j and xs and ms arbitrary: n r and n r and n r
    rule: jprint_print_elems_print_members.induct)
  case 1
  then show ?case by (cases n) simp_all
next
  case (2 b)
  then show ?case by (cases n; cases b) simp_all
next
  case (3 s)
  then have "s \<noteq> []" by (auto simp: wf_num_def is_number_def)
  with 3 obtain m where "n = Suc m" by (cases n) auto
  with 3 show ?case by (simp add: parse_value_num del: parse_value.simps)
next
  case (4 s)
  then obtain m where "n = Suc m" by (cases n) auto
  with 4 show ?case by simp
next
  case (5 xs)
  then obtain m where n: "n = Suc m" by (cases n) auto
  have "parse_elems m (print_elems xs @ CHR '']'' # r) = Some (xs, r)" if "xs \<noteq> []"
    using "5.IH" that "5.prems" n by simp
  then show ?case unfolding n using "5.prems"(1) by (intro parse_print_arr) simp_all
next
  case (6 ms)
  then obtain m where n: "n = Suc m" by (cases n) auto
  have "parse_members m (print_members ms @ CHR ''}'' # r) = Some (ms, r)" if "ms \<noteq> []"
    using "6.IH" that "6.prems" n by simp
  then show ?case unfolding n using "6.prems"(1) by (intro parse_print_obj) simp_all
next
  case 7
  then show ?case by simp
next
  case (8 src v xs)
  then obtain m where n: "n = Suc m" by (cases n) auto
  show ?case
  proof (cases "xs = []")
    case True
    with 8 n show ?thesis by (simp add: "8.IH")
  next
    case False
    with 8 n have "parse_elems m (print_elems xs @ CHR '']'' # r) = Some (xs, r)" by simp
    with 8 n False show ?thesis by simp
  qed
next
  case 9
  then show ?case by simp
next
  case (10 k src v ms)
  then obtain m where n: "n = Suc m" by (cases n) auto
  show ?case
  proof (cases "ms = []")
    case True
    with 10 n show ?thesis by simp
  next
    case False
    with 10 n have "parse_members m (print_members ms @ CHR ''}'' # r) = Some (ms, r)" by simp
    with 10 n False show ?thesis by simp
  qed
qed

text \<open>
  A well-formed document printed and parsed is the document: in front of anything for a
  decoder, and as the whole input for \<open>json.Unmarshal\<close>.
\<close>

lemma parse_prefix_jprint: "wf_json j \<Longrightarrow> closes r \<Longrightarrow> parse_prefix (jprint j @ r) = Some (j, r)"
  using parse_print_mutual(1) [of j r "Suc (length (jprint j @ r))"]
  by (simp add: parse_prefix_def)

lemma parse_jprint [simp]: "wf_json j \<Longrightarrow> parse (jprint j) = Some j"
  using parse_prefix_jprint [of j "[]"] by (simp add: parse_def)

end
