(* ===== verification/Go_Codec.thy ===== *)
theory Go_Codec
  imports Go_Json
begin

text \<open>
  Values in and out of documents, by the rules of \<open>encoding/json\<close>: string quoting with the
  HTML-safe escapes of \<open>json.Marshal\<close>, \<open>json.RawMessage\<close>, and the decoding of struct members
  by case-insensitive name, in document order, the last duplicate winning and \<open>null\<close> leaving a
  plain field as it was.
\<close>

section \<open>Strings\<close>

definition esc_byte :: "char \<Rightarrow> string" where
  "esc_byte c = [backslash, CHR ''u'', CHR ''0'', CHR ''0'',
     hex_char (of_char c div 16), hex_char (of_char c mod 16)]"

definition html_char :: "char \<Rightarrow> bool" where
  "html_char c \<longleftrightarrow> c = CHR ''<'' \<or> c = CHR ''>'' \<or> c = CHR ''&''"

definition esc_char :: "char \<Rightarrow> string" where
  "esc_char c =
     (if c = dquote \<or> c = backslash then [backslash, c]
      else if c = CHR 0x08 then [backslash, CHR ''b'']
      else if c = CHR 0x0C then [backslash, CHR ''f'']
      else if c = CHR 0x0A then [backslash, CHR ''n'']
      else if c = CHR 0x0D then [backslash, CHR ''r'']
      else if c = CHR 0x09 then [backslash, CHR ''t'']
      else if of_char c < (32 :: nat) \<or> html_char c then esc_byte c
      else [c])"

text \<open>U+2028 and U+2029 are also escaped.\<close>

definition line_sep :: "string \<Rightarrow> bool" where
  "line_sep s \<longleftrightarrow> take 3 s = [CHR 0xE2, CHR 0x80, CHR 0xA8]"

definition par_sep :: "string \<Rightarrow> bool" where
  "par_sep s \<longleftrightarrow> take 3 s = [CHR 0xE2, CHR 0x80, CHR 0xA9]"

fun quote :: "string \<Rightarrow> string" where
  "quote [] = []"
| "quote (c # s) =
     (if line_sep (c # s) then backslash # ''u2028'' @ quote (drop 2 s)
      else if par_sep (c # s) then backslash # ''u2029'' @ quote (drop 2 s)
      else esc_char c @ quote s)"

definition hex_val :: "char \<Rightarrow> nat" where
  "hex_val c = (if is_digit c then of_char c - 48
     else if CHR ''a'' \<le> c then of_char c - 87 else of_char c - 55)"

definition hex4 :: "string \<Rightarrow> nat" where
  "hex4 s = foldl (\<lambda>n c. 16 * n + hex_val c) 0 (take 4 s)"

definition utf8 :: "nat \<Rightarrow> string" where
  "utf8 n =
     (if n < 128 then [char_of n]
      else if n < 2048 then [char_of (192 + n div 64), char_of (128 + n mod 64)]
      else if n < 65536 then
        [char_of (224 + n div 4096), char_of (128 + n div 64 mod 64), char_of (128 + n mod 64)]
      else [char_of (240 + n div 262144), char_of (128 + n div 4096 mod 64),
        char_of (128 + n div 64 mod 64), char_of (128 + n mod 64)])"

definition high_surrogate :: "nat \<Rightarrow> bool" where
  "high_surrogate n \<longleftrightarrow> 0xD800 \<le> n \<and> n < 0xDC00"

definition low_surrogate :: "nat \<Rightarrow> bool" where
  "low_surrogate n \<longleftrightarrow> 0xDC00 \<le> n \<and> n < 0xE000"

definition unesc :: "char \<Rightarrow> char" where
  "unesc e = (if e = CHR ''b'' then CHR 0x08 else if e = CHR ''f'' then CHR 0x0C
     else if e = CHR ''n'' then CHR 0x0A else if e = CHR ''r'' then CHR 0x0D
     else if e = CHR ''t'' then CHR 0x09 else e)"

fun unquote :: "string \<Rightarrow> string" where
  "unquote [] = []"
| "unquote (c # s) =
     (if c \<noteq> backslash then c # unquote s
      else (case s of
              [] \<Rightarrow> []
            | e # t \<Rightarrow>
                if e \<noteq> CHR ''u'' then unesc e # unquote t
                else (let n = hex4 t; u = drop 4 t in
                  if high_surrogate n \<and> take 2 u = [backslash, CHR ''u''] \<and> low_surrogate (hex4 (drop 2 u))
                  then utf8 (0x10000 + (n - 0xD800) * 0x400 + (hex4 (drop 2 u) - 0xDC00))
                         @ unquote (drop 6 u)
                  else if high_surrogate n \<or> low_surrogate n then utf8 0xFFFD @ unquote u
                  else utf8 n @ unquote u)))"

lemma is_digit_iff: "is_digit c \<longleftrightarrow> 48 \<le> (of_char c :: nat) \<and> (of_char c :: nat) \<le> 57"
  by (simp add: is_digit_def less_eq_char_def)

lemma hex_val_hex_char: "d < 16 \<Longrightarrow> hex_val (hex_char d) = d \<and> is_hex (hex_char d)"
  by (auto simp: hex_val_def hex_char_def is_digit_iff less_eq_char_def is_hex_def)

lemma hex_val_digits [simp]:
  "hex_val (CHR ''0'') = 0" "hex_val (CHR ''2'') = 2" "hex_val (CHR ''8'') = 8" "hex_val (CHR ''9'') = 9"
  by (simp_all add: hex_val_def is_digit_iff)

lemma hex4_esc_byte:
  assumes "of_char c < (128 :: nat)"
  shows "hex4 (drop 2 (esc_byte c)) = of_char c" and "list_all is_hex (drop 2 (esc_byte c))"
proof -
  let ?n = "of_char c :: nat"
  have "?n div 16 < 16" and "?n mod 16 < 16" using assms by simp_all
  then have "hex_val (hex_char (?n div 16)) = ?n div 16" "hex_val (hex_char (?n mod 16)) = ?n mod 16"
    "is_hex (hex_char (?n div 16))" "is_hex (hex_char (?n mod 16))"
    using hex_val_hex_char by blast+
  moreover have "is_hex (CHR ''0'')" by (simp add: is_hex_def is_digit_iff)
  ultimately show "hex4 (drop 2 (esc_byte c)) = of_char c" and "list_all is_hex (drop 2 (esc_byte c))"
    by (simp_all add: esc_byte_def hex4_def)
qed

lemma low_byte:
  assumes "of_char c < (32 :: nat) \<or> html_char c"
  shows "of_char c < (128 :: nat)"
  using assms by (auto simp: html_char_def)

lemma hex4_append: "length h = 4 \<Longrightarrow> hex4 (h @ s) = hex4 h"
  by (simp add: hex4_def)

lemma unquote_esc_byte:
  assumes "of_char c < (128 :: nat)"
  shows "unquote (esc_byte c @ s) = c # unquote s"
proof -
  let ?h = "drop 2 (esc_byte c)"
  have split: "esc_byte c @ s = backslash # CHR ''u'' # (?h @ s)" and len: "length ?h = 4"
    by (simp_all add: esc_byte_def)
  have "hex4 (?h @ s) = of_char c" and d: "drop 4 (?h @ s) = s"
    using hex4_esc_byte [OF assms] hex4_append [OF len] len by simp_all
  then show ?thesis
    unfolding split using assms
    by (simp add: Let_def high_surrogate_def low_surrogate_def utf8_def del: append_Cons drop_append)
qed

lemma unquote_esc_char: "unquote (esc_char c @ s) = c # unquote s"
  by (auto simp: esc_char_def unquote_esc_byte unesc_def low_byte)

lemma sep_split:
  "line_sep (c # s) \<Longrightarrow> c # s = [CHR 0xE2, CHR 0x80, CHR 0xA8] @ drop 2 s"
  "par_sep (c # s) \<Longrightarrow> c # s = [CHR 0xE2, CHR 0x80, CHR 0xA9] @ drop 2 s"
  using append_take_drop_id [of 3 "c # s"] by (simp_all add: line_sep_def par_sep_def)

lemma hex4_sep: "hex4 ''2028'' = 8232" "hex4 ''2029'' = 8233"
  by (simp_all add: hex4_def)

lemma utf8_sep:
  "utf8 8232 = [CHR 0xE2, CHR 0x80, CHR 0xA8]" "utf8 8233 = [CHR 0xE2, CHR 0x80, CHR 0xA9]"
  by (simp_all add: utf8_def char_of_eq_iff)

lemma unquote_sep:
  "unquote (backslash # ''u2028'' @ s) = [CHR 0xE2, CHR 0x80, CHR 0xA8] @ unquote s"
  "unquote (backslash # ''u2029'' @ s) = [CHR 0xE2, CHR 0x80, CHR 0xA9] @ unquote s"
  using hex4_append [of "''2028''" s] hex4_append [of "''2029''" s]
  by (simp_all add: Let_def hex4_sep utf8_sep high_surrogate_def low_surrogate_def)

text \<open>What \<open>json.Marshal\<close> quotes, \<open>json.Unmarshal\<close> reads back, byte for byte.\<close>

lemma unquote_quote [simp]: "unquote (quote s) = s"
proof (induction s rule: quote.induct)
  case 1
  then show ?case by simp
next
  case (2 c s)
  consider "line_sep (c # s)" | "\<not> line_sep (c # s)" "par_sep (c # s)"
    | "\<not> line_sep (c # s)" "\<not> par_sep (c # s)" by blast
  then show ?case
  proof cases
    case 1
    then have "unquote (quote (c # s)) = [CHR 0xE2, CHR 0x80, CHR 0xA8] @ unquote (quote (drop 2 s))"
      by (simp only: quote.simps if_True unquote_sep)
    with "2.IH"(1) [OF 1] sep_split(1) [OF 1] show ?thesis by simp
  next
    case 2
    then have "unquote (quote (c # s)) = [CHR 0xE2, CHR 0x80, CHR 0xA9] @ unquote (quote (drop 2 s))"
      by (simp only: quote.simps if_True if_False unquote_sep)
    with "2.IH"(2) [OF 2] sep_split(2) [OF 2(2)] show ?thesis by simp
  next
    case 3
    with "2.IH"(3) show ?thesis by (simp add: unquote_esc_char)
  qed
qed

lemma quote_inject [simp]: "quote s = quote t \<longleftrightarrow> s = t"
  by (metis unquote_quote)

lemma scan_esc_byte:
  assumes "of_char c < (128 :: nat)" and "scan_str t = Some (b, r)"
  shows "scan_str (esc_byte c @ t) = Some (esc_byte c @ b, r)"
proof -
  let ?h = "drop 2 (esc_byte c)"
  have split: "esc_byte c @ u = backslash # CHR ''u'' # (?h @ u)" for u by (simp add: esc_byte_def)
  have len: "length ?h = 4" by (simp add: esc_byte_def)
  then have "take 4 (?h @ u) = ?h" and "drop 4 (?h @ u) = u" for u by simp_all
  then show ?thesis
    unfolding split using hex4_esc_byte(2) [OF assms(1)] assms(2) len
    by (simp add: is_escape_def del: append_Cons drop_append take_append)
qed

lemma scan_esc_char:
  assumes "scan_str t = Some (b, r)"
  shows "scan_str (esc_char c @ t) = Some (esc_char c @ b, r)"
  using assms scan_esc_byte [OF _ assms, of c]
  by (auto simp: esc_char_def is_escape_def plain_char_def low_byte)

lemma scan_sep:
  assumes "scan_str t = Some (b, r)" and "d = CHR ''8'' \<or> d = CHR ''9''"
  shows "scan_str (backslash # ''u202'' @ d # t) = Some (backslash # ''u202'' @ d # b, r)"
  using assms by (auto simp: is_escape_def is_hex_def is_digit_iff)

lemma wf_str_quote [simp]: "wf_str (quote s)"
  unfolding wf_str_def
proof (induction s rule: quote.induct)
  case 1
  then show ?case by simp
next
  case (2 c s)
  then show ?case
    using scan_sep [of "quote (drop 2 s) @ [dquote]" "quote (drop 2 s)" "[]"]
    by (auto simp: scan_esc_char)
qed

declare quote.simps [simp del] unquote.simps [simp del] fold_case.simps [simp del]
  scan_str.simps [simp del]

section \<open>Raw messages\<close>

text \<open>
  Marshalling a \<open>json.RawMessage\<close> (or what a \<open>MarshalJSON\<close> method returned) checks that the
  bytes are one document, drops white space and escapes \<open><\<close>, \<open>>\<close>, \<open>&\<close> and the two
  separators inside strings; bytes that are no document are a marshal error.
\<close>

fun esc_html :: "string \<Rightarrow> string" where
  "esc_html [] = []"
| "esc_html (c # s) =
     (if line_sep (c # s) then backslash # ''u2028'' @ esc_html (drop 2 s)
      else if par_sep (c # s) then backslash # ''u2029'' @ esc_html (drop 2 s)
      else if html_char c then esc_byte c @ esc_html s
      else c # esc_html s)"

fun jescape :: "json \<Rightarrow> json"
and escape_elems :: "(string \<times> json) list \<Rightarrow> (string \<times> json) list"
and escape_members :: "(string \<times> string \<times> json) list \<Rightarrow> (string \<times> string \<times> json) list" where
  "jescape JNull = JNull"
| "jescape (JBool b) = JBool b"
| "jescape (JNum s) = JNum s"
| "jescape (JStr s) = JStr (esc_html s)"
| "jescape (JArr xs) = JArr (escape_elems xs)"
| "jescape (JObj xs) = JObj (escape_members xs)"
| "escape_elems [] = []"
| "escape_elems ((_, v) # xs) = (jprint (jescape v), jescape v) # escape_elems xs"
| "escape_members [] = []"
| "escape_members ((k, _, v) # xs) = (esc_html k, jprint (jescape v), jescape v) # escape_members xs"

definition raw_json :: "string \<Rightarrow> json option" where
  "raw_json raw = map_option jescape (parse raw)"

text \<open>Raw bytes that marshalling leaves as they are: absent, or compact and already escaped.\<close>

definition raw_ok :: "string \<Rightarrow> bool" where
  "raw_ok raw \<longleftrightarrow> raw = [] \<or>
     (case parse raw of None \<Rightarrow> False
      | Some j \<Rightarrow> wf_json j \<and> jescape j = j \<and> jprint j = raw)"

lemma raw_ok_json: "raw_ok raw \<Longrightarrow> raw \<noteq> [] \<Longrightarrow> \<exists>j. raw_json raw = Some j \<and> wf_json j \<and> jprint j = raw"
  by (auto simp: raw_ok_def raw_json_def split: option.splits)

section \<open>Decoding\<close>

definition dec_str :: "json \<Rightarrow> string \<Rightarrow> json_err + string" where
  "dec_str v old = (case v of JStr b \<Rightarrow> Inr (unquote b) | JNull \<Rightarrow> Inr old | _ \<Rightarrow> Inl Type_Error)"

definition dec_int :: "json \<Rightarrow> int \<Rightarrow> json_err + int" where
  "dec_int v old =
     (case v of
        JNum s \<Rightarrow> (case parse_int s of Some i \<Rightarrow> Inr i | None \<Rightarrow> Inl Type_Error)
      | JNull \<Rightarrow> Inr old
      | _ \<Rightarrow> Inl Type_Error)"

text \<open>Pointers: \<open>null\<close> is the nil pointer.\<close>

definition dec_int_ptr :: "json \<Rightarrow> json_err + int option" where
  "dec_int_ptr v = (case v of JNull \<Rightarrow> Inr None | _ \<Rightarrow> map_sum id Some (dec_int v 0))"

definition dec_bool_ptr :: "json \<Rightarrow> json_err + bool option" where
  "dec_bool_ptr v = (case v of JNull \<Rightarrow> Inr None | JBool b \<Rightarrow> Inr (Some b) | _ \<Rightarrow> Inl Type_Error)"

text \<open>A slice: \<open>null\<close> is nil, a \<open>null\<close> element the empty string.\<close>

fun dec_str_list :: "(string \<times> json) list \<Rightarrow> json_err + string list" where
  "dec_str_list [] = Inr []"
| "dec_str_list ((_, v) # xs) =
     bind_r (dec_str v []) (\<lambda>s. bind_r (dec_str_list xs) (\<lambda>ss. Inr (s # ss)))"

definition dec_strs :: "json \<Rightarrow> json_err + string list option" where
  "dec_strs v =
     (case v of
        JNull \<Rightarrow> Inr None
      | JArr xs \<Rightarrow> map_sum id Some (dec_str_list xs)
      | _ \<Rightarrow> Inl Type_Error)"

text \<open>
  The members of an object into a struct: \<open>h\<close> is the field assignment, given the folded member
  name, the source text and the value; a name no field has is skipped by \<open>h\<close>.
\<close>

fun dec_members ::
  "(string \<Rightarrow> string \<Rightarrow> json \<Rightarrow> 'a \<Rightarrow> json_err + 'a) \<Rightarrow> (string \<times> string \<times> json) list \<Rightarrow> 'a \<Rightarrow> json_err + 'a"
where
  "dec_members h [] a = Inr a"
| "dec_members h ((k, src, v) # ms) a = bind_r (h (fold_case (unquote k)) src v a) (dec_members h ms)"

definition dec_struct ::
  "(string \<Rightarrow> string \<Rightarrow> json \<Rightarrow> 'a \<Rightarrow> json_err + 'a) \<Rightarrow> json \<Rightarrow> 'a \<Rightarrow> json_err + 'a" where
  "dec_struct h v a =
     (case v of JObj ms \<Rightarrow> dec_members h ms a | JNull \<Rightarrow> Inr a | _ \<Rightarrow> Inl Type_Error)"

text \<open>The members of an object into a map with string keys: the last duplicate wins.\<close>

fun dec_map_members ::
  "(json \<Rightarrow> json_err + 'a) \<Rightarrow> (string \<times> string \<times> json) list \<Rightarrow> (string, 'a) mapping
     \<Rightarrow> json_err + (string, 'a) mapping" where
  "dec_map_members d [] m = Inr m"
| "dec_map_members d ((k, _, v) # ms) m =
     bind_r (d v) (\<lambda>a. dec_map_members d ms (Mapping.update (unquote k) a m))"

definition dec_map ::
  "(json \<Rightarrow> json_err + 'a) \<Rightarrow> json \<Rightarrow> (string, 'a) mapping option \<Rightarrow> json_err + (string, 'a) mapping option" where
  "dec_map d v old =
     (case v of
        JObj ms \<Rightarrow> map_sum id Some
          (dec_map_members d ms (case old of None \<Rightarrow> Mapping.empty | Some m \<Rightarrow> m))
      | JNull \<Rightarrow> Inr None
      | _ \<Rightarrow> Inl Type_Error)"

text \<open>\<open>json.Unmarshal(data, &v)\<close> and \<open>json.NewDecoder(r).Decode(&v)\<close>.\<close>

definition unmarshal :: "(json \<Rightarrow> json_err + 'a) \<Rightarrow> string \<Rightarrow> json_err + 'a" where
  "unmarshal d s = (case parse s of None \<Rightarrow> Inl Syntax_Error | Some v \<Rightarrow> d v)"

definition decode_stream :: "(json \<Rightarrow> json_err + 'a) \<Rightarrow> string \<Rightarrow> json_err + 'a" where
  "decode_stream d s = (case parse_prefix s of None \<Rightarrow> Inl Syntax_Error | Some (v, _) \<Rightarrow> d v)"

section \<open>Encoding\<close>

abbreviation jstring :: "string \<Rightarrow> json" where "jstring s \<equiv> JStr (quote s)"

abbreviation jint :: "int \<Rightarrow> json" where "jint i \<equiv> JNum (itoa i)"

definition jstrings :: "string list \<Rightarrow> json" where
  "jstrings xs = mk_arr (map jstring xs)"

text \<open>A map, its keys in byte order.\<close>

definition jmap :: "('a \<Rightarrow> json) \<Rightarrow> (string, 'a) mapping \<Rightarrow> json" where
  "jmap f m = mk_obj (map (\<lambda>k. (quote k, f (the (Mapping.lookup m k)))) (Mapping.ordered_keys m))"

text \<open>Members with \<open>omitempty\<close>.\<close>

definition om_str :: "string \<Rightarrow> string \<Rightarrow> (string \<times> json) list" where
  "om_str k s = (if s = [] then [] else [(quote k, jstring s)])"

definition om_int :: "string \<Rightarrow> int \<Rightarrow> (string \<times> json) list" where
  "om_int k i = (if i = 0 then [] else [(quote k, jint i)])"

definition om_strs :: "string \<Rightarrow> string list option \<Rightarrow> (string \<times> json) list" where
  "om_strs k xs = (case xs of None \<Rightarrow> [] | Some ys \<Rightarrow> if ys = [] then [] else [(quote k, jstrings ys)])"

definition om_raw :: "string \<Rightarrow> string \<Rightarrow> (string \<times> json) list option" where
  "om_raw k raw = (if raw = [] then Some [] else map_option (\<lambda>j. [(quote k, j)]) (raw_json raw))"

definition om_bool_ptr :: "string \<Rightarrow> bool option \<Rightarrow> (string \<times> json) list" where
  "om_bool_ptr k b = (case b of None \<Rightarrow> [] | Some x \<Rightarrow> [(quote k, JBool x)])"

definition om_int_ptr :: "string \<Rightarrow> int option \<Rightarrow> (string \<times> json) list" where
  "om_int_ptr k i = (case i of None \<Rightarrow> [] | Some x \<Rightarrow> [(quote k, jint x)])"

lemmas om_defs = om_str_def om_int_def om_strs_def om_raw_def om_bool_ptr_def om_int_ptr_def

section \<open>Encoded documents are well-formed\<close>

lemma show_nat_num: "is_number (show_nat n)" "list_all num_char (show_nat n)"
proof -
  have d: "list_all is_digit (show_nat n)" by (rule show_nat_digits)
  then have run: "takeWhile is_digit (show_nat n) = show_nat n" "dropWhile is_digit (show_nat n) = []"
    by (simp_all add: list_all_iff takeWhile_eq_all_conv)
  obtain c cs where s: "show_nat n = c # cs" "is_digit c" "c \<noteq> CHR ''-''" by (rule show_nat_hd)
  have "hd (show_nat n) = CHR ''0'' \<Longrightarrow> length (show_nat n) = 1"
    by (simp add: show_nat_no_leading_zero) (simp add: show_nat.simps)
  then show "is_number (show_nat n)"
    using run s by (auto simp: is_number_def is_frac_def is_exp_def Let_def)
  show "list_all num_char (show_nat n)"
    using d by (auto simp: list_all_iff num_char_def)
qed

lemma is_number_minus:
  assumes "is_number s" and "hd s \<noteq> CHR ''-''"
  shows "is_number (CHR ''-'' # s)"
  using assms by (auto simp: is_number_def Let_def)

lemma wf_num_itoa [simp]: "wf_num (itoa i)"
proof -
  obtain c cs where "show_nat (nat (- i)) = c # cs" "c \<noteq> CHR ''-''" by (rule show_nat_hd)
  then have "hd (show_nat (nat (- i))) \<noteq> CHR ''-''" by simp
  then show ?thesis
    by (simp add: wf_num_def itoa_def show_nat_num is_number_minus) (simp add: num_char_def)
qed

lemma wf_jstrings [simp]: "wf_json (jstrings xs)"
  by (simp add: jstrings_def)

lemma wf_jmap: "(\<And>k. k \<in> set (Mapping.ordered_keys m) \<Longrightarrow> wf_json (f (the (Mapping.lookup m k))))
    \<Longrightarrow> wf_json (jmap f m)"
  by (auto simp: jmap_def wf_pairs_def)

lemma wf_om [simp]:
  "wf_pairs (om_str k s)" "wf_pairs (om_int k i)" "wf_pairs (om_strs k xs)"
  "wf_pairs (om_bool_ptr k b)" "wf_pairs (om_int_ptr k p)"
  by (simp_all add: om_defs split: option.splits)

section \<open>Decoding what was encoded\<close>

text \<open>\<open>dec_pairs\<close> is \<open>dec_members\<close> on the members of a document the program built.\<close>

fun dec_pairs ::
  "(string \<Rightarrow> string \<Rightarrow> json \<Rightarrow> 'a \<Rightarrow> json_err + 'a) \<Rightarrow> (string \<times> json) list \<Rightarrow> 'a \<Rightarrow> json_err + 'a"
where
  "dec_pairs h [] a = Inr a"
| "dec_pairs h ((k, v) # ms) a = bind_r (h (fold_case (unquote k)) (jprint v) v a) (dec_pairs h ms)"

lemma dec_struct_mk_obj: "dec_struct h (mk_obj ms) a = dec_pairs h ms a"
proof -
  have "dec_members h (map (\<lambda>(k, v). (k, jprint v, v)) ms) a = dec_pairs h ms a"
  proof (induction ms arbitrary: a)
    case (Cons m ms)
    then show ?case by (cases m) (auto simp: bind_r_def split: sum.splits)
  qed simp
  then show ?thesis by (simp add: dec_struct_def mk_obj_def)
qed

lemma dec_pairs_append: "dec_pairs h (xs @ ys) a = bind_r (dec_pairs h xs a) (dec_pairs h ys)"
proof (induction xs arbitrary: a)
  case (Cons x xs)
  then show ?case by (cases x) (auto simp: bind_r_def split: sum.splits)
qed simp

lemma dec_pairs_Cons: "dec_pairs h ((quote k, v) # ms) a = bind_r (h (fold_case k) (jprint v) v a) (dec_pairs h ms)"
  by simp

lemma dec_str_jstring [simp]: "dec_str (jstring s) old = Inr s"
  by (simp add: dec_str_def)

lemma dec_int_jint [simp]: "int64 i \<Longrightarrow> dec_int (jint i) old = Inr i"
  by (simp add: dec_int_def parse_int_itoa)

lemma dec_strs_jstrings [simp]: "dec_strs (jstrings xs) = Inr (Some xs)"
proof -
  have "dec_str_list (map (\<lambda>v. (jprint v, v)) (map jstring xs)) = Inr xs"
    by (induction xs) simp_all
  then show ?thesis by (simp add: dec_strs_def jstrings_def mk_arr_def)
qed

lemma dec_ptr_simps [simp]:
  "dec_bool_ptr (JBool b) = Inr (Some b)" "int64 i \<Longrightarrow> dec_int_ptr (jint i) = Inr (Some i)"
  by (simp_all add: dec_bool_ptr_def dec_int_ptr_def)

text \<open>
  One rule per kind of \<open>omitempty\<close> member: an absent member leaves the field at its zero value,
  which is the value that was omitted.
\<close>

lemma dec_om_str:
  assumes "h (fold_case k) (jprint (jstring s)) (jstring s) a = Inr (f s)" and "f [] = a"
  shows "dec_pairs h (om_str k s) a = Inr (f s)"
  using assms by (simp add: om_str_def)

lemma dec_om_int:
  assumes "h (fold_case k) (jprint (jint i)) (jint i) a = Inr (f i)" and "f 0 = a"
  shows "dec_pairs h (om_int k i) a = Inr (f i)"
  using assms by (simp add: om_int_def)

definition norm_strs :: "string list option \<Rightarrow> string list option" where
  "norm_strs xs = (if xs = Some [] then None else xs)"

lemma dec_om_strs:
  assumes "\<And>ys. h (fold_case k) (jprint (jstrings ys)) (jstrings ys) a = Inr (f (Some ys))" and "f None = a"
  shows "dec_pairs h (om_strs k xs) a = Inr (f (norm_strs xs))"
  using assms by (simp add: om_strs_def norm_strs_def split: option.splits)

lemma dec_om_raw:
  assumes "raw_ok raw"
    and "\<And>j. jprint j = raw \<Longrightarrow> h (fold_case k) raw j a = Inr (f raw)" and "f [] = a"
  obtains ms where "om_raw k raw = Some ms" and "wf_pairs ms"
    and "dec_pairs h ms a = Inr (f raw)"
proof (cases "raw = []")
  case True
  with assms that [of "[]"] show thesis by (simp add: om_raw_def)
next
  case False
  with assms(1) obtain j where "raw_json raw = Some j" "wf_json j" "jprint j = raw"
    using raw_ok_json by blast
  with False assms(2) that [of "[(quote k, j)]"] show thesis by (simp add: om_raw_def)
qed

end
