(* ===== verification/Go_Float.thy ===== *)
theory Go_Float
  imports Go_Codec "HOL-Library.Log_Nat"
begin

text \<open>
  Numbers decoded into an \<open>interface{}\<close> become \<open>float64\<close> and are written back in the shortest
  form that reads as the same \<open>float64\<close>: \<open>strconv.ParseFloat\<close> and the number encoder of
  \<open>encoding/json\<close>. A \<open>float64\<close> is its sign and the rational it stands for.
\<close>

section \<open>Reading\<close>

definition pow10 :: "int \<Rightarrow> rat" where
  "pow10 e = (if 0 \<le> e then 10 ^ nat e else 1 / 10 ^ nat (- e))"

definition pow2 :: "int \<Rightarrow> rat" where
  "pow2 e = (if 0 \<le> e then 2 ^ nat e else 1 / 2 ^ nat (- e))"

definition exp_value :: "string \<Rightarrow> int" where
  "exp_value s =
     (if s \<noteq> [] \<and> hd s = CHR ''-'' then - int (read_digits (tl s))
      else if s \<noteq> [] \<and> hd s = CHR ''+'' then int (read_digits (tl s))
      else int (read_digits s))"

definition dec_value :: "string \<Rightarrow> string \<Rightarrow> int \<Rightarrow> rat" where
  "dec_value ip fp e = of_nat (read_digits (ip @ fp)) * pow10 (e - int (length fp))"

definition lit_tail :: "string \<Rightarrow> string \<Rightarrow> string \<Rightarrow> rat" where
  "lit_tail ip fp r = dec_value ip fp (if r = [] then 0 else exp_value (tl r))"

definition lit_unsigned :: "string \<Rightarrow> rat" where
  "lit_unsigned u =
     (let ip = takeWhile is_digit u; r = dropWhile is_digit u in
      if r \<noteq> [] \<and> hd r = CHR ''.''
      then lit_tail ip (takeWhile is_digit (tl r)) (dropWhile is_digit (tl r))
      else lit_tail ip [] r)"

definition round_half_even :: "rat \<Rightarrow> int" where
  "round_half_even x =
     (let f = \<lfloor>x\<rfloor>; d = x - of_int f in
      if d < 1 / 2 \<or> d = 1 / 2 \<and> even f then f else f + 1)"

text \<open>The binary exponent of a positive rational.\<close>

definition ilog2 :: "rat \<Rightarrow> int" where
  "ilog2 x = (let (p, q) = quotient_of x; e = bitlen p - bitlen q in if pow2 e \<le> x then e else e - 1)"

text \<open>The nearest \<open>float64\<close>, ties to even; \<open>None\<close> beyond the largest.\<close>

definition nearest :: "rat \<Rightarrow> rat option" where
  "nearest x =
     (if x = 0 then Some 0
      else let e = max (ilog2 x - 52) (- 1074);
               v = of_int (round_half_even (x / pow2 e)) * pow2 e
           in if v < pow2 1024 then Some v else None)"

definition parse_float :: "string \<Rightarrow> (bool \<times> rat) option" where
  "parse_float s =
     (if s \<noteq> [] \<and> hd s = CHR ''-''
      then map_option (Pair True) (nearest (lit_unsigned (tl s)))
      else map_option (Pair False) (nearest (lit_unsigned s)))"

section \<open>Writing\<close>

definition ilog10 :: "rat \<Rightarrow> int" where
  "ilog10 x =
     (let (p, q) = quotient_of x; k = int (length (itoa p)) - int (length (itoa q))
      in if pow10 k \<le> x then k else k - 1)"

text \<open>
  The closest decimal of \<open>n\<close> digits that reads back as \<open>v\<close>, as digits and exponent. Seventeen
  digits always suffice; the exact expansion stands after them so that the result is total.
\<close>

definition reads_back :: "rat \<Rightarrow> nat \<Rightarrow> int \<Rightarrow> bool" where
  "reads_back v d k \<longleftrightarrow> nearest (of_nat d * pow10 k) = Some v"

definition digits_at :: "rat \<Rightarrow> nat \<Rightarrow> (nat \<times> int) option" where
  "digits_at v n =
     (let k = ilog10 v - int n + 1; x = v / pow10 k; lo = nat \<lfloor>x\<rfloor>; near = nat (round_half_even x) in
      if reads_back v near k then Some (near, k)
      else if reads_back v lo k then Some (lo, k)
      else if reads_back v (lo + 1) k then Some (lo + 1, k)
      else None)"

definition exact_digits :: "rat \<Rightarrow> nat \<times> int" where
  "exact_digits v = (nat \<lfloor>v * pow10 1074\<rfloor>, - 1074)"

fun first_digits :: "rat \<Rightarrow> nat list \<Rightarrow> nat \<times> int" where
  "first_digits v [] = exact_digits v"
| "first_digits v (n # ns) = (case digits_at v n of Some r \<Rightarrow> r | None \<Rightarrow> first_digits v ns)"

definition shortest :: "rat \<Rightarrow> nat \<times> int" where
  "shortest v = first_digits v [1..<18]"

definition zeros :: "nat \<Rightarrow> string" where
  "zeros n = replicate n (CHR ''0'')"

text \<open>The verbs \<open>'f'\<close> and \<open>'e'\<close> with precision -1; \<open>e-09\<close> is written \<open>e-9\<close>.\<close>

definition format_f :: "nat \<Rightarrow> int \<Rightarrow> string" where
  "format_f d k =
     (let ds = show_nat d; dp = int (length ds) + k in
      if 0 \<le> k then ds @ zeros (nat k)
      else if 0 < dp then take (nat dp) ds @ ''.'' @ drop (nat dp) ds
      else ''0.'' @ zeros (nat (- dp)) @ ds)"

definition format_e :: "nat \<Rightarrow> int \<Rightarrow> string" where
  "format_e d k =
     (let ds = show_nat d; x = int (length ds) + k - 1 in
      take 1 ds @ (if length ds = 1 then [] else CHR ''.'' # drop 1 ds)
        @ (if x < 0 then ''e-'' @ show_nat (nat (- x)) else ''e+'' @ show_nat (nat x)))"

definition format_abs :: "rat \<Rightarrow> string" where
  "format_abs v =
     (if v = 0 then ''0''
      else let (d, k) = shortest v in
        if v < 1 / 1000000 \<or> 1000000000000000000000 \<le> v then format_e d k else format_f d k)"

definition format_float :: "bool \<times> rat \<Rightarrow> string" where
  "format_float x = (if fst x then CHR ''-'' # format_abs (snd x) else format_abs (snd x))"

section \<open>Written numbers\<close>

lemma read_digits_append: "read_digits (s @ t) = read_digits s * 10 ^ length t + read_digits t"
proof (induction t rule: rev_induct)
  case (snoc c t)
  then show ?case by (simp add: read_digits_snoc flip: append_assoc)
qed (simp add: read_digits_def)

lemma read_zeros [simp]: "read_digits (zeros n) = 0"
proof (induction n)
  case (Suc n)
  have "zeros (Suc n) = zeros n @ [CHR ''0'']"
    by (simp add: zeros_def replicate_append_same)
  with Suc show ?case by (simp add: read_digits_snoc digit_val_def)
qed (simp add: zeros_def read_digits_def)

lemma read_0 [simp]: "read_digits ''0'' = 0"
  by (simp add: read_digits_def digit_val_def)

lemma length_zeros [simp]: "length (zeros n) = n"
  by (simp add: zeros_def)

lemma is_digit_0 [simp]: "is_digit (CHR ''0'')" and not_digits [simp]:
  "\<not> is_digit (CHR ''.'')" "\<not> is_digit (CHR ''e'')" "\<not> is_digit (CHR ''-'')" "\<not> is_digit (CHR ''+'')"
  by (simp_all add: is_digit_iff)

lemma digits_zeros [simp]: "list_all is_digit (zeros n)"
  by (simp add: zeros_def list_all_iff)

lemma span_digits:
  assumes "list_all is_digit ds" and "r = [] \<or> \<not> is_digit (hd r)"
  shows "takeWhile is_digit (ds @ r) = ds" and "dropWhile is_digit (ds @ r) = r"
proof -
  have "\<forall>c \<in> set ds. is_digit c" using assms(1) by (simp add: list_all_iff)
  moreover have "takeWhile is_digit r = []" "dropWhile is_digit r = r"
    using assms(2) by (cases r; simp)+
  ultimately show "takeWhile is_digit (ds @ r) = ds" "dropWhile is_digit (ds @ r) = r"
    by (simp_all add: takeWhile_append2 dropWhile_append2)
qed

text \<open>A literal put together from its parts has the value and the shape they give it.\<close>

lemma lit_unsigned_parts:
  assumes "list_all is_digit ip" and "list_all is_digit fp"
    and "r = [] \<or> hd r = CHR ''e''"
  shows "lit_unsigned (ip @ r) = lit_tail ip [] r"
    and "lit_unsigned (ip @ CHR ''.'' # fp @ r) = lit_tail ip fp r"
  using assms span_digits [OF assms(1), of r] span_digits [OF assms(1), of "CHR ''.'' # fp @ r"]
    span_digits [OF assms(2), of r] span_digits [OF assms(1), of "[]"] span_digits [OF assms(2), of "[]"]
  by (auto simp: lit_unsigned_def Let_def)

lemma is_number_parts:
  assumes "list_all is_digit ip" and "ip \<noteq> []" and "hd ip = CHR ''0'' \<longrightarrow> length ip = 1"
    and "list_all is_digit fp" and "is_exp r" and "r = [] \<or> hd r = CHR ''e''"
  shows "is_number (ip @ r)" and "fp \<noteq> [] \<Longrightarrow> is_number (ip @ CHR ''.'' # fp @ r)"
proof -
  have m: "hd (ip @ t) \<noteq> CHR ''-''" for t using assms(1,2) by (cases ip) auto
  then show "is_number (ip @ r)"
    using assms span_digits [OF assms(1), of r] span_digits [OF assms(1), of "[]"]
    by (auto simp: is_number_def is_frac_def Let_def)
  assume "fp \<noteq> []"
  with m show "is_number (ip @ CHR ''.'' # fp @ r)"
    using assms span_digits [OF assms(1), of "CHR ''.'' # fp @ r"] span_digits [OF assms(4), of r]
      span_digits [OF assms(4), of "[]"]
    by (auto simp: is_number_def is_frac_def Let_def)
qed

definition exp_part :: "int \<Rightarrow> string" where
  "exp_part x = (if x < 0 then ''e-'' @ show_nat (nat (- x)) else ''e+'' @ show_nat (nat x))"

lemma exp_part_props:
  "exp_value (tl (exp_part x)) = x" "is_exp (exp_part x)" "exp_part x \<noteq> []" "hd (exp_part x) = CHR ''e''"
  by (auto simp: exp_part_def exp_value_def is_exp_def show_nat_digits)

lemma format_e_exp:
  "format_e d k =
     take 1 (show_nat d) @ (if length (show_nat d) = 1 then [] else CHR ''.'' # drop 1 (show_nat d))
       @ exp_part (int (length (show_nat d)) + k - 1)"
  by (simp add: format_e_def exp_part_def Let_def)

lemma pow10_nat: "pow10 (int n) = 10 ^ n"
  by (simp add: pow10_def)

lemma show_nat_parts: "list_all is_digit (take n (show_nat d))" "list_all is_digit (drop n (show_nat d))"
  using show_nat_digits [of d] by (auto simp: list_all_iff dest: in_set_takeD in_set_dropD)

lemma hd_take_show_nat: "0 < n \<Longrightarrow> hd (take n (show_nat d)) = CHR ''0'' \<longleftrightarrow> d = 0"
  using show_nat_no_leading_zero [of d] by (cases "show_nat d") (auto simp: take_Cons')

lemma format_f_value: "lit_unsigned (format_f d k) = of_nat d * pow10 k"
proof -
  let ?ds = "show_nat d" and ?dp = "int (length (show_nat d)) + k"
  note digs = show_nat_digits [of d]
  consider "0 \<le> k" | "k < 0" "0 < ?dp" | "k < 0" "?dp \<le> 0" by linarith
  then show ?thesis
  proof cases
    case 1
    then have "format_f d k = (?ds @ zeros (nat k)) @ []" by (simp add: format_f_def Let_def)
    also have "lit_unsigned \<dots> = lit_tail (?ds @ zeros (nat k)) [] []"
      using digs by (intro lit_unsigned_parts(1) [of _ "[]"]) simp_all
    finally show ?thesis using 1
      by (simp add: lit_tail_def dec_value_def read_digits_append pow10_def)
  next
    case 2
    then have "format_f d k = take (nat ?dp) ?ds @ CHR ''.'' # drop (nat ?dp) ?ds @ []"
      by (simp add: format_f_def Let_def)
    also have "lit_unsigned \<dots> = lit_tail (take (nat ?dp) ?ds) (drop (nat ?dp) ?ds) []"
      by (intro lit_unsigned_parts(2)) (simp_all add: show_nat_parts)
    finally show ?thesis using 2 by (simp add: lit_tail_def dec_value_def)
  next
    case 3
    then have "format_f d k = ''0'' @ CHR ''.'' # (zeros (nat (- ?dp)) @ ?ds) @ []"
      by (simp add: format_f_def Let_def)
    also have "lit_unsigned \<dots> = lit_tail ''0'' (zeros (nat (- ?dp)) @ ?ds) []"
      using digs by (intro lit_unsigned_parts(2)) simp_all
    finally show ?thesis using 3
      by (simp add: lit_tail_def dec_value_def read_digits_append del: append_Cons)
  qed
qed

lemma format_e_value: "lit_unsigned (format_e d k) = of_nat d * pow10 k"
proof -
  let ?ds = "show_nat d" and ?x = "int (length (show_nat d)) + k - 1"
  note e = exp_part_props [of ?x]
  show ?thesis
  proof (cases "length ?ds = 1")
    case True
    then have "format_e d k = ?ds @ exp_part ?x" by (simp add: format_e_exp)
    also have "lit_unsigned \<dots> = lit_tail ?ds [] (exp_part ?x)"
      using e show_nat_digits [of d] by (intro lit_unsigned_parts(1) [of _ "[]"]) simp_all
    finally show ?thesis using e True by (simp add: lit_tail_def dec_value_def)
  next
    case False
    then have "format_e d k = take 1 ?ds @ CHR ''.'' # drop 1 ?ds @ exp_part ?x"
      by (simp add: format_e_exp)
    also have "lit_unsigned \<dots> = lit_tail (take 1 ?ds) (drop 1 ?ds) (exp_part ?x)"
      using e by (intro lit_unsigned_parts(2)) (simp_all add: show_nat_parts)
    moreover have "int (length ?ds - 1) = int (length ?ds) - 1"
      using show_nat_nonempty [of d] by (cases "show_nat d") simp_all
    ultimately show ?thesis using e
      by (simp only: lit_tail_def dec_value_def append_take_drop_id read_show_nat length_drop)
        simp
  qed
qed

lemma num_char_props [simp]: "num_char (CHR ''.'')" "num_char (CHR ''e'')" "num_char (CHR ''-'')" "num_char (CHR ''+'')"
  by (simp_all add: num_char_def)

lemma num_char_digits: "list_all is_digit s \<Longrightarrow> list_all num_char s"
  by (auto simp: list_all_iff num_char_def)

lemma wf_format_f: "d \<noteq> 0 \<Longrightarrow> is_number (format_f d k) \<and> list_all num_char (format_f d k)"
proof -
  assume d: "d \<noteq> 0"
  let ?ds = "show_nat d" and ?dp = "int (length (show_nat d)) + k"
  note digs = show_nat_digits [of d] and nd = show_nat_no_leading_zero [of d]
  consider "0 \<le> k" | "k < 0" "0 < ?dp" | "k < 0" "?dp \<le> 0" by linarith
  then show ?thesis
  proof cases
    case 1
    then have f: "format_f d k = (?ds @ zeros (nat k)) @ []" by (simp add: format_f_def Let_def)
    show ?thesis unfolding f using digs nd d
      by (intro conjI is_number_parts(1) [of _ "[]"]) (simp_all add: num_char_digits is_exp_def)
  next
    case 2
    then have f: "format_f d k = take (nat ?dp) ?ds @ CHR ''.'' # drop (nat ?dp) ?ds @ []"
      by (simp add: format_f_def Let_def)
    from 2 have n: "0 < nat ?dp" "nat ?dp < length ?ds" by linarith+
    show ?thesis unfolding f
    proof (intro conjI is_number_parts(2))
      show "hd (take (nat ?dp) ?ds) = CHR ''0'' \<longrightarrow> length (take (nat ?dp) ?ds) = 1"
        using n(1) d by (simp add: hd_take_show_nat del: hd_take)
    qed (use n in \<open>simp_all add: show_nat_parts num_char_digits is_exp_def\<close>)
  next
    case 3
    then have f: "format_f d k = ''0'' @ CHR ''.'' # (zeros (nat (- ?dp)) @ ?ds) @ []"
      by (simp add: format_f_def Let_def)
    show ?thesis unfolding f using digs
      by (intro conjI is_number_parts(2)) (simp_all add: num_char_digits is_exp_def num_char_def)
  qed
qed

lemma hd_format: "is_digit (hd (format_f d k))" "is_digit (hd (format_e d k))"
proof -
  obtain c cs where "show_nat d = c # cs" "is_digit c" by (rule show_nat_hd)
  then show "is_digit (hd (format_f d k))" "is_digit (hd (format_e d k))"
    by (auto simp: format_f_def format_e_def Let_def take_Cons')
qed

lemma wf_format_e: "d \<noteq> 0 \<Longrightarrow> is_number (format_e d k) \<and> list_all num_char (format_e d k)"
proof -
  assume d: "d \<noteq> 0"
  let ?ds = "show_nat d" and ?x = "int (length (show_nat d)) + k - 1"
  note e = exp_part_props [of ?x]
  have ec: "list_all num_char (exp_part ?x)"
    by (simp add: exp_part_def num_char_digits show_nat_digits)
  show ?thesis
  proof (cases "length ?ds = 1")
    case True
    then have f: "format_e d k = ?ds @ exp_part ?x" by (simp add: format_e_exp)
    show ?thesis unfolding f using e ec True
      by (intro conjI is_number_parts(1) [of _ "[]"]) (simp_all add: num_char_digits show_nat_digits)
  next
    case False
    then have f: "format_e d k = take 1 ?ds @ CHR ''.'' # drop 1 ?ds @ exp_part ?x"
      by (simp add: format_e_exp)
    have "drop 1 ?ds \<noteq> []" using False show_nat_nonempty [of d] by (cases ?ds) simp_all
    then show ?thesis unfolding f
      using e ec show_nat_parts [of 1 d]
      by (intro conjI is_number_parts(2)) (simp_all add: num_char_digits)
  qed
qed

section \<open>A number is read back as it was written\<close>

text \<open>The values a \<open>float64\<close> can have.\<close>

definition is_double :: "rat \<Rightarrow> bool" where
  "is_double v \<longleftrightarrow> 0 \<le> v \<and> nearest v = Some v"

lemma pow2_pos [simp]: "0 < pow2 e" and pow10_pos [simp]: "0 < pow10 e"
  by (simp_all add: pow2_def pow10_def)

lemma pow2_nonzero [simp]: "pow2 e \<noteq> 0"
  by (simp add: pow2_def)

lemma pow2_add: "pow2 (a + b) = pow2 a * pow2 b"
proof -
  have "pow2 e = power_int 2 e" for e by (simp add: pow2_def power_int_def field_simps)
  then show ?thesis by (simp add: power_int_add)
qed

lemma double_grid:
  assumes "nearest v = Some v" obtains n e where "v = of_int n * pow2 e" and "- 1074 \<le> e"
proof (cases "v = 0")
  case True
  then show thesis using that [of 0 0] by simp
next
  case False
  with assms show thesis
    by (intro that [of "round_half_even (v / pow2 (max (ilog2 v - 52) (- 1074)))"
          "max (ilog2 v - 52) (- 1074)"]) (simp_all add: nearest_def Let_def split: if_splits)
qed

lemma grid_decimal:
  assumes "- int m \<le> e" shows "pow2 e * 10 ^ m \<in> \<int>"
proof -
  have "(10 :: rat) ^ m = 5 ^ m * 2 ^ m" by (simp flip: power_mult_distrib)
  moreover have "pow2 e * 2 ^ m = pow2 (e + int m)" by (simp add: pow2_add) (simp add: pow2_def)
  moreover have "pow2 (e + int m) \<in> \<int>" using assms by (simp add: pow2_def)
  ultimately have "pow2 e * 10 ^ m = 5 ^ m * pow2 (e + int m)" by (metis mult.left_commute)
  with \<open>pow2 (e + int m) \<in> \<int>\<close> show ?thesis by simp
qed

lemma pow10_minus: "pow10 (- int m) = 1 / 10 ^ m"
  by (cases m) (simp_all add: pow10_def nat_add_distrib)

lemma exact_digits_back:
  assumes "is_double v" and "exact_digits v = (d, k)"
  shows "reads_back v d k"
proof -
  obtain m where m: "int m = 1074" by (metis nat_0_le zero_le_numeral)
  from assms(1) obtain n e where v: "v = of_int n * pow2 e" and e: "- int m \<le> e"
    unfolding m by (auto simp: is_double_def elim: double_grid)
  have "v * 10 ^ m = of_int n * (pow2 e * 10 ^ m)" by (simp add: v)
  then have ints: "v * 10 ^ m \<in> \<int>" by (simp only: Ints_mult [OF Ints_of_int grid_decimal [OF e]])
  have "0 \<le> v * 10 ^ m" using assms(1) by (simp add: is_double_def)
  have dk: "d = nat \<lfloor>v * 10 ^ m\<rfloor>" "k = - int m"
    using assms(2) pow10_nat [of m] by (simp_all add: exact_digits_def m)
  have "of_nat d = v * 10 ^ m"
    using ints \<open>0 \<le> v * 10 ^ m\<close> by (auto simp: dk elim!: Ints_cases)
  then have "of_nat d * pow10 k = v" by (simp add: dk(2) pow10_minus)
  with assms(1) show ?thesis by (simp add: reads_back_def is_double_def)
qed

lemma digits_at_back: "digits_at v n = Some (d, k) \<Longrightarrow> reads_back v d k"
  by (auto simp: digits_at_def Let_def split: if_splits)

lemma shortest_back:
  assumes "is_double v" and "shortest v = (d, k)"
  shows "reads_back v d k"
proof -
  have "first_digits v ns = (d, k) \<Longrightarrow> reads_back v d k" for ns
    by (induction ns) (auto simp: exact_digits_back [OF assms(1)] digits_at_back split: option.splits)
  with assms(2) show ?thesis by (simp add: shortest_def)
qed

lemma format_abs_props:
  assumes "is_double v"
  shows "nearest (lit_unsigned (format_abs v)) = Some v" and "is_number (format_abs v)"
    and "list_all num_char (format_abs v)" and "is_digit (hd (format_abs v))"
proof -
  have "nearest (lit_unsigned (format_abs v)) = Some v \<and> is_number (format_abs v)
      \<and> list_all num_char (format_abs v) \<and> is_digit (hd (format_abs v))"
  proof (cases "v = 0")
    case True
    have "lit_unsigned ''0'' = 0"
      by (simp add: lit_unsigned_def lit_tail_def dec_value_def)
    then show ?thesis using True
      by (simp add: format_abs_def nearest_def is_number_def is_frac_def is_exp_def num_char_def)
  next
    case False
    obtain d k where dk: "shortest v = (d, k)" by (cases "shortest v")
    then have rb: "reads_back v d k" by (rule shortest_back [OF assms])
    with False have "d \<noteq> 0" by (cases "d = 0") (simp_all add: reads_back_def nearest_def)
    with False rb show ?thesis
      by (simp add: format_abs_def dk reads_back_def format_e_value format_f_value wf_format_e
          wf_format_f hd_format)
  qed
  then show "nearest (lit_unsigned (format_abs v)) = Some v" "is_number (format_abs v)"
    "list_all num_char (format_abs v)" "is_digit (hd (format_abs v))" by simp_all
qed

text \<open>
  Reading back what was written gives the same \<open>float64\<close>, the sign of zero included, and what
  is written is a JSON number.
\<close>

lemma parse_format_float:
  assumes "is_double (snd x)"
  shows "parse_float (format_float x) = Some x" and "wf_num (format_float x)"
proof -
  note f = format_abs_props [OF assms]
  have "format_abs (snd x) \<noteq> []" using f(2) by (auto simp: is_number_def)
  then obtain c cs where s: "format_abs (snd x) = c # cs" by (cases "format_abs (snd x)") simp
  moreover have "c \<noteq> CHR ''-''" using f(4) s by auto
  ultimately  show "parse_float (format_float x) = Some x" "wf_num (format_float x)"
    using f by (cases x; simp add: parse_float_def format_float_def wf_num_def is_number_minus)+
qed

text \<open>What is read is a \<open>float64\<close>: rounding a rounded value changes nothing.\<close>

lemma bitlen_bounds_rat:
  assumes "0 < p" shows "pow2 (bitlen p - 1) \<le> of_int p" and "of_int p < pow2 (bitlen p)"
proof -
  have b: "0 < bitlen p" using assms by (simp add: bitlen_alt_def)
  from bitlen_bounds [OF assms] have l: "2 ^ nat (bitlen p - 1) \<le> p" and u: "p < 2 ^ nat (bitlen p)" by simp_all
  from l have "of_int (2 ^ nat (bitlen p - 1)) \<le> (of_int p :: rat)" by (simp only: of_int_le_iff)
  moreover from u have "(of_int p :: rat) < of_int (2 ^ nat (bitlen p))" by (simp only: of_int_less_iff)
  ultimately show "pow2 (bitlen p - 1) \<le> of_int p" "of_int p < pow2 (bitlen p)"
    using b by (simp_all add: pow2_def)
qed

lemma pow2_less_iff [simp]: "pow2 a < pow2 b \<longleftrightarrow> a < b"
proof -
  have mono: "pow2 a < pow2 b" if "a < b" for a b
  proof -
    have "1 < pow2 (b - a)" using that by (simp add: pow2_def)
    then have "pow2 a * 1 < pow2 a * pow2 (b - a)" by (intro mult_strict_left_mono) simp_all
    then show ?thesis by (simp flip: pow2_add)
  qed
  show ?thesis using mono [of a b] mono [of b a] by (cases a b rule: linorder_cases) auto
qed

lemma pow2_le_iff [simp]: "pow2 a \<le> pow2 b \<longleftrightarrow> a \<le> b"
  using pow2_less_iff [of b a] by (simp flip: linorder_not_less)

lemma pow2_diff: "pow2 (a - b) = pow2 a / pow2 b"
  using pow2_add [of "a - b" b] pow2_pos [of b] by (simp add: nonzero_eq_divide_eq less_imp_neq [symmetric])

lemma ilog2_bounds:
  assumes "0 < x" shows "pow2 (ilog2 x) \<le> x" and "x < pow2 (ilog2 x + 1)"
proof -
  obtain p q where pq: "quotient_of x = (p, q)" by (cases "quotient_of x")
  then have x: "x = of_int p / of_int q" and q: "0 < q"
    using quotient_of_div quotient_of_denom_pos by blast+
  then have p: "0 < p" using assms by (simp add: zero_less_divide_iff)
  let ?e = "bitlen p - bitlen q"
  note bp = bitlen_bounds_rat [OF p] and bq = bitlen_bounds_rat [OF q]
  have qr: "0 < (of_int q :: rat)" using q by simp
  have "pow2 (?e - 1) < x"
  proof -
    have "pow2 (?e - 1) * of_int q < pow2 (?e - 1) * pow2 (bitlen q)" using bq(2) by simp
    also have "\<dots> = pow2 (bitlen p - 1)" by (simp flip: pow2_add)
    finally show ?thesis using bp(1) qr by (simp add: x field_simps)
  qed
  moreover have "x < pow2 (?e + 1)"
  proof -
    have "of_int p < pow2 (?e + 1) * pow2 (bitlen q - 1)" using bp(2) by (simp flip: pow2_add)
    also have "\<dots> \<le> pow2 (?e + 1) * of_int q" using bq(1) by simp
    finally show ?thesis using qr by (simp add: x field_simps)
  qed
  ultimately show "pow2 (ilog2 x) \<le> x" "x < pow2 (ilog2 x + 1)"
    by (auto simp: ilog2_def pq Let_def)
qed

lemma round_int [simp]: "round_half_even (of_int n) = n"
  by (simp add: round_half_even_def)

lemma round_bounds:
  assumes "0 \<le> x" and "x < of_int m" shows "0 \<le> round_half_even x" and "round_half_even x \<le> m"
proof -
  have "0 \<le> \<lfloor>x\<rfloor>" and "\<lfloor>x\<rfloor> < m" using assms by (simp_all add: floor_less_iff)
  then show "0 \<le> round_half_even x" "round_half_even x \<le> m"
    by (auto simp: round_half_even_def Let_def)
qed

lemma round_grid:
  assumes "e' \<le> e" shows "of_int (round_half_even (of_int n * pow2 e / pow2 e')) * pow2 e' = of_int n * pow2 e"
proof -
  have "pow2 (e - e') = of_int (2 ^ nat (e - e'))" using assms by (simp add: pow2_def)
  then have r: "pow2 e = of_int (2 ^ nat (e - e')) * pow2 e'" using pow2_add [of "e - e'" e'] by simp
  define k where "k = n * 2 ^ nat (e - e')"
  have v: "of_int n * pow2 e = of_int k * pow2 e'" by (simp add: r k_def)
  show ?thesis by (simp add: v)
qed

lemma nearest_grid:
  assumes "0 < v" and "v = of_int n * pow2 e" and "max (ilog2 v - 52) (- 1074) \<le> e" and "v < pow2 1024"
  shows "nearest v = Some v"
  using round_grid [OF assms(3), of n] assms(1,4) by (simp add: nearest_def Let_def flip: assms(2))

lemma nearest_is_double:
  assumes "nearest x = Some v" and "0 \<le> x" shows "is_double v"
proof (cases "x = 0")
  case True
  with assms show ?thesis by (simp add: nearest_def is_double_def)
next
  case False
  then have x: "0 < x" using assms(2) by simp
  define e where "e = max (ilog2 x - 52) (- 1074)"
  define n where "n = round_half_even (x / pow2 e)"
  have v: "v = of_int n * pow2 e" and vmax: "v < pow2 1024"
    using assms(1) False by (simp_all add: nearest_def Let_def e_def n_def split: if_splits)
  have "x < pow2 (53 + e)"
    using less_le_trans [OF ilog2_bounds(2) [OF x]] by (simp add: e_def)
  then have "x / pow2 e < of_int (2 ^ 53)" by (simp add: pow2_add field_simps) (simp add: pow2_def)
  then have n: "0 \<le> n" "n \<le> 2 ^ 53"
    using round_bounds [of "x / pow2 e" "2 ^ 53"] x by (simp_all add: n_def zero_le_divide_iff less_imp_le)
  have v0: "0 \<le> v" using n(1) by (simp add: v less_imp_le)
  have "nearest v = Some v"
  proof (cases "n = 0 \<or> n = 2 ^ 53")
    case True
    then show ?thesis
    proof
      assume "n = 0" then show ?thesis by (simp add: v nearest_def)
    next
      assume "n = 2 ^ 53"
      then have p: "v = pow2 (e + 53)" by (simp add: v pow2_add) (simp add: pow2_def)
      then have "ilog2 v \<le> e + 53" using ilog2_bounds(1) [of v] by simp
      then show ?thesis
        by (intro nearest_grid [of _ "2 ^ 52" "e + 1"])
          (use p vmax in \<open>auto simp: e_def pow2_add\<close>, simp add: pow2_def)
    qed
  next
    case False
    with n have "0 < n" "n < 2 ^ 53" by simp_all
    then have pos: "0 < v" by (simp add: v)
    have "(of_int n :: rat) < of_int (2 ^ 53)" using \<open>n < 2 ^ 53\<close> by (simp only: of_int_less_iff)
    then have "v < pow2 (53 + e)" by (simp add: v pow2_add) (simp add: pow2_def)
    with ilog2_bounds(1) [OF pos] have "ilog2 v < 53 + e" using pow2_less_iff by fastforce
    then show ?thesis by (intro nearest_grid [OF pos v _ vmax]) (simp add: e_def)
  qed
  with v0 show ?thesis by (simp add: is_double_def)
qed

lemma lit_unsigned_nonneg: "0 \<le> lit_unsigned s"
  by (simp add: lit_unsigned_def lit_tail_def dec_value_def Let_def pow10_def)

lemma parse_float_double: "parse_float s = Some x \<Longrightarrow> is_double (snd x)"
  by (auto simp: parse_float_def lit_unsigned_nonneg nearest_is_double split: if_splits)

end
