(* ===== verification/Ssf_Errors.thy ===== *)
theory Ssf_Errors
  imports Go_Codec
begin

text \<open>
  Errors (\<open>errors.go\<close>, and the sentinels of \<open>set.go\<close> and \<open>receiver/sink.go\<close>). A Go error value
  is a tree: sentinels and concrete error structs at the leaves, \<open>fmt.Errorf\<close> with \<open>%w\<close>,
  \<open>errors.Join\<close> and \<open>permanentError\<close> above them. \<open>errors.Is\<close> and \<open>errors.As\<close> walk it depth
  first. The texts of \<open>Error()\<close> are those of the program; the texts of library errors are
  arguments of \<open>Opaque\<close>, but for \<open>encoding/json\<close>, whose wording is not modelled.
\<close>

section \<open>Problem details\<close>

record problem_details =
  pd_type :: string
  pd_title :: string
  pd_status :: int
  pd_detail :: string
  pd_instance :: string
  pd_extensions :: string

definition zero_problem :: problem_details where
  "zero_problem = \<lparr>pd_type = [], pd_title = [], pd_status = 0, pd_detail = [], pd_instance = [],
     pd_extensions = []\<rparr>"

section \<open>Error values\<close>

datatype sentinel =
    ErrStreamNotFound
  | ErrUnauthorized
  | ErrInvalidConfig
  | ErrMethodReserved
  | ErrUnsupportedDelivery
  | ErrUnsupportedEvent
  | ErrVerificationTimeout
  | ErrNotImplemented
  | ErrPermanent
  | ErrAlgNone
  | ErrMissingTyp

datatype ctx_err = Canceled | DeadlineExceeded

record validation_error =
  ve_rule :: string
  ve_field :: string
  ve_reason :: string

record http_error =
  he_status :: int
  he_body :: string
  he_problem :: "problem_details option"

datatype gerror =
    Sentinel sentinel
  | CtxErr ctx_err
  | Opaque string
  | JsonErr json_err
  | MaxBytesErr
  | ValidationErr validation_error
  | HTTPErr http_error
  | PushHTTPErr int string
  | PermanentErr gerror
  | Wrapf string gerror string
  | Joined "gerror list"

type_synonym 'a result = "gerror + 'a"

definition sentinel_text :: "sentinel \<Rightarrow> string" where
  "sentinel_text s = (case s of
       ErrStreamNotFound \<Rightarrow> ''stream not found''
     | ErrUnauthorized \<Rightarrow> ''unauthorized''
     | ErrInvalidConfig \<Rightarrow> ''invalid stream configuration''
     | ErrMethodReserved \<Rightarrow> ''delivery method reserved''
     | ErrUnsupportedDelivery \<Rightarrow> ''unsupported delivery method''
     | ErrUnsupportedEvent \<Rightarrow> ''unsupported event type''
     | ErrVerificationTimeout \<Rightarrow> ''verification timeout''
     | ErrNotImplemented \<Rightarrow> ''not implemented''
     | ErrPermanent \<Rightarrow> ''permanent sink failure''
     | ErrAlgNone \<Rightarrow> ''alg '' @ quoted ''none'' @ '' is forbidden on security event tokens (rfc 8417 ''
         @ [CHR 0xC2, CHR 0xA7] @ ''2.2)''
     | ErrMissingTyp \<Rightarrow> ''typ header missing; security event tokens must set typ=''
         @ quoted ''secevent+jwt'' @ '' (rfc 8417 '' @ [CHR 0xC2, CHR 0xA7] @ ''2.2)'')"

definition validation_error_text :: "validation_error \<Rightarrow> string" where
  "validation_error_text e = ''ssf: validation failed: rule='' @ quoted (ve_rule e)
     @ '' field='' @ quoted (ve_field e) @ '': '' @ ve_reason e"

text \<open>The body is cut at 256 bytes when there is no title to show.\<close>

definition http_error_text :: "http_error \<Rightarrow> string" where
  "http_error_text e =
     (let title = (case he_problem e of Some p \<Rightarrow> pd_title p | None \<Rightarrow> []) in
      if title \<noteq> [] then ''ssf: http '' @ itoa (he_status e) @ '': '' @ title
      else if he_body e = [] then ''ssf: http '' @ itoa (he_status e)
      else ''ssf: http '' @ itoa (he_status e) @ '': '' @ take 256 (he_body e)
        @ (if 256 < length (he_body e) then ''...'' else []))"

definition push_http_error_text :: "int \<Rightarrow> string \<Rightarrow> string" where
  "push_http_error_text status body =
     (if body = [] then ''push endpoint returned status '' @ itoa status
      else ''push endpoint returned status '' @ itoa status @ '': '' @ trim_space body)"

fun join_lines :: "string list \<Rightarrow> string" where
  "join_lines [] = []"
| "join_lines [x] = x"
| "join_lines (x # y # zs) = x @ [CHR 0x0A] @ join_lines (y # zs)"

fun error_text :: "gerror \<Rightarrow> string" where
  "error_text (Sentinel s) = sentinel_text s"
| "error_text (CtxErr Canceled) = ''context canceled''"
| "error_text (CtxErr DeadlineExceeded) = ''context deadline exceeded''"
| "error_text (Opaque s) = s"
| "error_text (JsonErr Syntax_Error) = ''json: syntax error''"
| "error_text (JsonErr Type_Error) = ''json: cannot unmarshal value''"
| "error_text MaxBytesErr = ''http: request body too large''"
| "error_text (ValidationErr e) = validation_error_text e"
| "error_text (HTTPErr e) = http_error_text e"
| "error_text (PushHTTPErr status body) = push_http_error_text status body"
| "error_text (PermanentErr e) = error_text e"
| "error_text (Wrapf pre e post) = pre @ error_text e @ post"
| "error_text (Joined es) = join_lines (map error_text es)"

section \<open>Package errors\<close>

text \<open>The tree below an error in the order \<open>errors.Is\<close> and \<open>errors.As\<close> visit it.\<close>

fun chain :: "gerror \<Rightarrow> gerror list" where
  "chain (PermanentErr e) = PermanentErr e # chain e"
| "chain (Wrapf pre e post) = Wrapf pre e post # chain e"
| "chain (Joined es) = Joined es # concat (map chain es)"
| "chain e = [e]"

definition errors_is :: "gerror \<Rightarrow> sentinel \<Rightarrow> bool" where
  "errors_is e s \<longleftrightarrow> Sentinel s \<in> set (chain e)"

fun first_some :: "('a \<Rightarrow> 'b option) \<Rightarrow> 'a list \<Rightarrow> 'b option" where
  "first_some p [] = None"
| "first_some p (x # xs) = (case p x of Some y \<Rightarrow> Some y | None \<Rightarrow> first_some p xs)"

definition as_validation :: "gerror \<Rightarrow> validation_error option" where
  "as_validation e = first_some (\<lambda>x. case x of ValidationErr v \<Rightarrow> Some v | _ \<Rightarrow> None) (chain e)"

definition as_http :: "gerror \<Rightarrow> http_error option" where
  "as_http e = first_some (\<lambda>x. case x of HTTPErr v \<Rightarrow> Some v | _ \<Rightarrow> None) (chain e)"

definition as_permanent :: "gerror \<Rightarrow> gerror option" where
  "as_permanent e = first_some (\<lambda>x. case x of PermanentErr v \<Rightarrow> Some v | _ \<Rightarrow> None) (chain e)"

definition as_max_bytes :: "gerror \<Rightarrow> bool" where
  "as_max_bytes e \<longleftrightarrow> MaxBytesErr \<in> set (chain e)"

lemma errors_is_simps [simp]:
  "errors_is (Sentinel s) t \<longleftrightarrow> s = t"
  "errors_is (Wrapf pre e post) t \<longleftrightarrow> errors_is e t"
  "errors_is (PermanentErr e) t \<longleftrightarrow> errors_is e t"
  "errors_is (Joined es) t \<longleftrightarrow> (\<exists>e \<in> set es. errors_is e t)"
  "\<not> errors_is (CtxErr c) t" "\<not> errors_is (Opaque x) t" "\<not> errors_is (JsonErr j) t"
  "\<not> errors_is MaxBytesErr t" "\<not> errors_is (ValidationErr v) t" "\<not> errors_is (HTTPErr h) t"
  "\<not> errors_is (PushHTTPErr n b) t"
  by (auto simp: errors_is_def)

lemma as_validation_simps [simp]:
  "as_validation (ValidationErr v) = Some v"
  "as_validation (Sentinel s) = None"
  "as_validation (Opaque x) = None"
  "as_validation (Wrapf pre e post) = as_validation e"
  by (simp_all add: as_validation_def)

lemma as_http_simps [simp]:
  "as_http (HTTPErr h) = Some h" "as_http (Wrapf pre e post) = as_http e"
  "as_http (Joined (HTTPErr h # es)) = Some h"
  by (simp_all add: as_http_def)

lemma as_permanent_simps [simp]:
  "as_permanent (PermanentErr e) = Some e"
  "as_permanent (PushHTTPErr n b) = None" "as_permanent (CtxErr c) = None"
  "as_permanent (Opaque x) = None"
  "as_permanent (Wrapf pre e post) = as_permanent e"
  by (simp_all add: as_permanent_def)

end
