(* ===== verification/Ssf_Wire.thy ===== *)
theory Ssf_Wire
  imports Ssf_Errors
begin

text \<open>
  The wire types of the root package and their JSON codecs: the delivery union and its method
  registry (\<open>stream.go\<close>, \<open>delivery_registry.go\<close>), stream configuration, status, subjects,
  verification, poll and transmitter metadata (\<open>status.go\<close>, \<open>subjects.go\<close>,
  \<open>verification.go\<close>, \<open>poll.go\<close>, \<open>config.go\<close>).

  A \<open>json.RawMessage\<close> is its bytes, nil and empty being one value: every such field has
  \<open>omitempty\<close>. A \<open>[]string\<close> is a \<open>string list option\<close>, \<open>None\<close> for nil. An encoder returns
  \<open>None\<close> where \<open>json.Marshal\<close> fails, which only raw bytes that are no JSON can cause.
\<close>

section \<open>Delivery and the method registry\<close>

record unknown_delivery =
  ud_method :: string
  ud_raw :: string

record delivery =
  dl_method :: string
  dl_endpoint_url :: string
  dl_authorization_header :: string
  dl_unknown :: "unknown_delivery option"

definition zero_delivery :: delivery where
  "zero_delivery = \<lparr>dl_method = [], dl_endpoint_url = [], dl_authorization_header = [], dl_unknown = None\<rparr>"

definition DeliveryMethodPush :: string where "DeliveryMethodPush = ''urn:ietf:rfc:8935''"

definition DeliveryMethodPoll :: string where "DeliveryMethodPoll = ''urn:ietf:rfc:8936''"

type_synonym delivery_factory = "unit \<Rightarrow> delivery"

text \<open>The package variable \<open>deliveryRegistry\<close> is the map itself; its mutex makes each access atomic.\<close>

type_synonym delivery_registry = "(string, delivery_factory) mapping"

definition builtinDeliveryMethods :: delivery_registry where
  "builtinDeliveryMethods =
     Mapping.update DeliveryMethodPush (\<lambda>_. zero_delivery\<lparr>dl_method := DeliveryMethodPush\<rparr>)
      (Mapping.update DeliveryMethodPoll (\<lambda>_. zero_delivery\<lparr>dl_method := DeliveryMethodPoll\<rparr>)
        Mapping.empty)"

definition builtinDeliveryMethodNames :: "string list" where
  "builtinDeliveryMethodNames = [DeliveryMethodPush, DeliveryMethodPoll]"

definition RegisterDeliveryMethod ::
  "string \<Rightarrow> delivery_factory \<Rightarrow> delivery_registry \<Rightarrow> delivery_registry result" where
  "RegisterDeliveryMethod uri factory reg =
     (if uri \<in> set builtinDeliveryMethodNames
      then Inl (Wrapf [] (Sentinel ErrMethodReserved) ('': '' @ quoted uri))
      else Inr (Mapping.update uri factory reg))"

definition LookupDeliveryMethod :: "delivery_registry \<Rightarrow> string \<Rightarrow> delivery_factory option" where
  "LookupDeliveryMethod reg uri = Mapping.lookup reg uri"

definition delivery_Known :: "delivery \<Rightarrow> bool" where
  "delivery_Known d \<longleftrightarrow> dl_unknown d = None"

definition delivery_Unknown :: "delivery \<Rightarrow> unknown_delivery \<times> bool" where
  "delivery_Unknown d =
     (case dl_unknown d of None \<Rightarrow> (\<lparr>ud_method = [], ud_raw = []\<rparr>, False) | Some u \<Rightarrow> (u, True))"

text \<open>Field assignment of \<open>deliveryAlias\<close>, and of the one-field envelope that is read first.\<close>

definition h_delivery :: "string \<Rightarrow> string \<Rightarrow> json \<Rightarrow> delivery \<Rightarrow> json_err + delivery" where
  "h_delivery k src v d =
     (if k = ''method'' then bind_r (dec_str v (dl_method d)) (\<lambda>s. Inr (d\<lparr>dl_method := s\<rparr>))
      else if k = ''endpoint_url''
      then bind_r (dec_str v (dl_endpoint_url d)) (\<lambda>s. Inr (d\<lparr>dl_endpoint_url := s\<rparr>))
      else if k = ''authorization_header''
      then bind_r (dec_str v (dl_authorization_header d)) (\<lambda>s. Inr (d\<lparr>dl_authorization_header := s\<rparr>))
      else Inr d)"

definition h_method :: "string \<Rightarrow> string \<Rightarrow> json \<Rightarrow> string \<Rightarrow> json_err + string" where
  "h_method k src v m = (if k = ''method'' then dec_str v m else Inr m)"

definition unmarshal_delivery :: "delivery_registry \<Rightarrow> string \<Rightarrow> json_err + delivery" where
  "unmarshal_delivery reg data =
     bind_r (unmarshal (\<lambda>v. dec_struct h_method v []) data) (\<lambda>m.
       case LookupDeliveryMethod reg m of
         Some factory \<Rightarrow>
           (let seed = factory () in
            unmarshal (\<lambda>v. dec_struct h_delivery v (seed\<lparr>dl_unknown := None\<rparr>)) data)
       | None \<Rightarrow>
           Inr \<lparr>dl_method = m, dl_endpoint_url = [], dl_authorization_header = [],
             dl_unknown = Some \<lparr>ud_method = m, ud_raw = data\<rparr>\<rparr>)"

definition enc_delivery :: "delivery \<Rightarrow> json option" where
  "enc_delivery d =
     (case dl_unknown d of
        Some u \<Rightarrow> raw_json (ud_raw u)
      | None \<Rightarrow> Some (mk_obj (om_str ''method'' (dl_method d)
          @ om_str ''endpoint_url'' (dl_endpoint_url d)
          @ om_str ''authorization_header'' (dl_authorization_header d))))"

section \<open>Stream configuration\<close>

record stream_config =
  sc_stream_id :: string
  sc_iss :: string
  sc_aud :: string
  sc_events_supported :: "string list option"
  sc_events_requested :: "string list option"
  sc_events_delivered :: "string list option"
  sc_delivery :: delivery
  sc_min_verification_interval :: int
  sc_format :: string

definition zero_config :: stream_config where
  "zero_config = \<lparr>sc_stream_id = [], sc_iss = [], sc_aud = [], sc_events_supported = None,
     sc_events_requested = None, sc_events_delivered = None, sc_delivery = zero_delivery,
     sc_min_verification_interval = 0, sc_format = []\<rparr>"

definition h_config ::
  "delivery_registry \<Rightarrow> string \<Rightarrow> string \<Rightarrow> json \<Rightarrow> stream_config \<Rightarrow> json_err + stream_config" where
  "h_config reg k src v c =
     (if k = ''stream_id'' then bind_r (dec_str v (sc_stream_id c)) (\<lambda>s. Inr (c\<lparr>sc_stream_id := s\<rparr>))
      else if k = ''iss'' then bind_r (dec_str v (sc_iss c)) (\<lambda>s. Inr (c\<lparr>sc_iss := s\<rparr>))
      else if k = ''aud'' then Inr (c\<lparr>sc_aud := src\<rparr>)
      else if k = ''events_supported'' then bind_r (dec_strs v) (\<lambda>s. Inr (c\<lparr>sc_events_supported := s\<rparr>))
      else if k = ''events_requested'' then bind_r (dec_strs v) (\<lambda>s. Inr (c\<lparr>sc_events_requested := s\<rparr>))
      else if k = ''events_delivered'' then bind_r (dec_strs v) (\<lambda>s. Inr (c\<lparr>sc_events_delivered := s\<rparr>))
      else if k = ''delivery'' then bind_r (unmarshal_delivery reg src) (\<lambda>d. Inr (c\<lparr>sc_delivery := d\<rparr>))
      else if k = ''min_verification_interval''
      then bind_r (dec_int v (sc_min_verification_interval c))
             (\<lambda>i. Inr (c\<lparr>sc_min_verification_interval := i\<rparr>))
      else if k = ''format'' then bind_r (dec_str v (sc_format c)) (\<lambda>s. Inr (c\<lparr>sc_format := s\<rparr>))
      else Inr c)"

definition dec_config :: "delivery_registry \<Rightarrow> json \<Rightarrow> json_err + stream_config" where
  "dec_config reg v = dec_struct (h_config reg) v zero_config"

definition enc_config :: "stream_config \<Rightarrow> json option" where
  "enc_config c =
     (case (om_raw ''aud'' (sc_aud c), enc_delivery (sc_delivery c)) of
        (Some aud, Some dl) \<Rightarrow> Some (mk_obj
          (om_str ''stream_id'' (sc_stream_id c) @ om_str ''iss'' (sc_iss c) @ aud
           @ om_strs ''events_supported'' (sc_events_supported c)
           @ om_strs ''events_requested'' (sc_events_requested c)
           @ om_strs ''events_delivered'' (sc_events_delivered c)
           @ [(quote ''delivery'', dl)]
           @ om_int ''min_verification_interval'' (sc_min_verification_interval c)
           @ om_str ''format'' (sc_format c)))
      | _ \<Rightarrow> None)"

section \<open>Stream status\<close>

text \<open>\<open>StreamStatus\<close> is an open string type; these are its three named values.\<close>

definition StreamStatusEnabled :: string where "StreamStatusEnabled = ''enabled''"
definition StreamStatusPaused :: string where "StreamStatusPaused = ''paused''"
definition StreamStatusDisabled :: string where "StreamStatusDisabled = ''disabled''"

record status_response =
  sr_status :: string
  sr_reason :: string
  sr_subject :: string

record status_update_request =
  su_status :: string
  su_reason :: string
  su_subject :: string

definition enc_status_response :: "status_response \<Rightarrow> json option" where
  "enc_status_response r = map_option
     (\<lambda>sub. mk_obj ([(quote ''status'', jstring (sr_status r))] @ om_str ''reason'' (sr_reason r) @ sub))
     (om_raw ''subject'' (sr_subject r))"

definition h_status_response :: "string \<Rightarrow> string \<Rightarrow> json \<Rightarrow> status_response \<Rightarrow> json_err + status_response" where
  "h_status_response k src v r =
     (if k = ''status'' then bind_r (dec_str v (sr_status r)) (\<lambda>s. Inr (r\<lparr>sr_status := s\<rparr>))
      else if k = ''reason'' then bind_r (dec_str v (sr_reason r)) (\<lambda>s. Inr (r\<lparr>sr_reason := s\<rparr>))
      else if k = ''subject'' then Inr (r\<lparr>sr_subject := src\<rparr>)
      else Inr r)"

definition dec_status_response :: "json \<Rightarrow> json_err + status_response" where
  "dec_status_response v = dec_struct h_status_response v \<lparr>sr_status = [], sr_reason = [], sr_subject = []\<rparr>"

definition enc_status_update :: "status_update_request \<Rightarrow> json option" where
  "enc_status_update r = map_option
     (\<lambda>sub. mk_obj ([(quote ''status'', jstring (su_status r))] @ om_str ''reason'' (su_reason r) @ sub))
     (om_raw ''subject'' (su_subject r))"

definition h_status_update ::
  "string \<Rightarrow> string \<Rightarrow> json \<Rightarrow> status_update_request \<Rightarrow> json_err + status_update_request" where
  "h_status_update k src v r =
     (if k = ''status'' then bind_r (dec_str v (su_status r)) (\<lambda>s. Inr (r\<lparr>su_status := s\<rparr>))
      else if k = ''reason'' then bind_r (dec_str v (su_reason r)) (\<lambda>s. Inr (r\<lparr>su_reason := s\<rparr>))
      else if k = ''subject'' then Inr (r\<lparr>su_subject := src\<rparr>)
      else Inr r)"

definition dec_status_update :: "json \<Rightarrow> json_err + status_update_request" where
  "dec_status_update v = dec_struct h_status_update v \<lparr>su_status = [], su_reason = [], su_subject = []\<rparr>"

section \<open>Subjects\<close>

text \<open>
  Subject Identifiers are values of the package \<open>go-subjectid\<close>: a type \<open>'sid\<close> with its parser
  and its \<open>MarshalJSON\<close>, both arguments here. \<open>None\<close> is the nil interface value.
\<close>

record 'sid add_subject_request =
  as_subject :: "'sid option"
  as_verified :: "bool option"

record 'sid remove_subject_request =
  rs_subject :: "'sid option"

definition h_add_subject ::
  "string \<Rightarrow> string \<Rightarrow> json \<Rightarrow> string \<times> bool option \<Rightarrow> json_err + string \<times> bool option" where
  "h_add_subject k src v w =
     (if k = ''subject'' then Inr (src, snd w)
      else if k = ''verified'' then bind_r (dec_bool_ptr v) (\<lambda>b. Inr (fst w, b))
      else Inr w)"

definition of_json :: "json_err + 'a \<Rightarrow> 'a result" where
  "of_json r = map_sum JsonErr id r"

definition unmarshal_add_subject ::
  "(string \<Rightarrow> 'sid result) \<Rightarrow> string \<Rightarrow> 'sid add_subject_request result" where
  "unmarshal_add_subject sid_parse data =
     bind_r (of_json (unmarshal (\<lambda>v. dec_struct h_add_subject v ([], None)) data)) (\<lambda>(subj, verified).
     bind_r (sid_parse subj) (\<lambda>sid. Inr \<lparr>as_subject = Some sid, as_verified = verified\<rparr>))"

definition h_remove_subject :: "string \<Rightarrow> string \<Rightarrow> json \<Rightarrow> string \<Rightarrow> json_err + string" where
  "h_remove_subject k src v w = (if k = ''subject'' then Inr src else Inr w)"

definition unmarshal_remove_subject ::
  "(string \<Rightarrow> 'sid result) \<Rightarrow> string \<Rightarrow> 'sid remove_subject_request result" where
  "unmarshal_remove_subject sid_parse data =
     bind_r (of_json (unmarshal (\<lambda>v. dec_struct h_remove_subject v []) data)) (\<lambda>subj.
     bind_r (sid_parse subj) (\<lambda>sid. Inr \<lparr>rs_subject = Some sid\<rparr>))"

text \<open>The marshalled form of an identifier inside a request; a nil interface is \<open>null\<close>.\<close>

definition enc_subject :: "('sid \<Rightarrow> string option) \<Rightarrow> 'sid option \<Rightarrow> json option" where
  "enc_subject sid_marshal s =
     (case s of None \<Rightarrow> Some JNull | Some x \<Rightarrow> Option.bind (sid_marshal x) raw_json)"

definition enc_add_subject :: "('sid \<Rightarrow> string option) \<Rightarrow> 'sid add_subject_request \<Rightarrow> json option" where
  "enc_add_subject sid_marshal r = map_option
     (\<lambda>s. mk_obj ([(quote ''subject'', s)] @ om_bool_ptr ''verified'' (as_verified r)))
     (enc_subject sid_marshal (as_subject r))"

definition enc_remove_subject :: "('sid \<Rightarrow> string option) \<Rightarrow> 'sid remove_subject_request \<Rightarrow> json option" where
  "enc_remove_subject sid_marshal r = map_option
     (\<lambda>s. mk_obj [(quote ''subject'', s)]) (enc_subject sid_marshal (rs_subject r))"

section \<open>Verification\<close>

definition EventTypeVerification :: string where
  "EventTypeVerification = ''https://schemas.openid.net/secevent/ssf/event-type/verification''"

record verification_request = vr_state :: string

record verification_event = vev_state :: string

definition enc_verification_request :: "verification_request \<Rightarrow> json" where
  "enc_verification_request r = mk_obj (om_str ''state'' (vr_state r))"

definition h_state :: "string \<Rightarrow> string \<Rightarrow> json \<Rightarrow> string \<Rightarrow> json_err + string" where
  "h_state k src v s = (if k = ''state'' then dec_str v s else Inr s)"

definition dec_verification_request :: "json \<Rightarrow> json_err + verification_request" where
  "dec_verification_request v = bind_r (dec_struct h_state v []) (\<lambda>s. Inr \<lparr>vr_state = s\<rparr>)"

definition dec_verification_event :: "json \<Rightarrow> json_err + verification_event" where
  "dec_verification_event v = bind_r (dec_struct h_state v []) (\<lambda>s. Inr \<lparr>vev_state = s\<rparr>)"

section \<open>Polling\<close>

record set_err =
  se_err :: string
  se_description :: string

record poll_request =
  pq_ack :: "string list option"
  pq_set_errs :: "(string, set_err) mapping option"
  pq_max_events :: "int option"
  pq_return_immediately :: "bool option"

record poll_response =
  pr_sets :: "(string, string) mapping option"
  pr_more_available :: "bool option"

definition enc_set_err :: "set_err \<Rightarrow> json" where
  "enc_set_err e = mk_obj ([(quote ''err'', jstring (se_err e))] @ om_str ''description'' (se_description e))"

definition h_set_err :: "string \<Rightarrow> string \<Rightarrow> json \<Rightarrow> set_err \<Rightarrow> json_err + set_err" where
  "h_set_err k src v e =
     (if k = ''err'' then bind_r (dec_str v (se_err e)) (\<lambda>s. Inr (e\<lparr>se_err := s\<rparr>))
      else if k = ''description'' then bind_r (dec_str v (se_description e)) (\<lambda>s. Inr (e\<lparr>se_description := s\<rparr>))
      else Inr e)"

definition dec_set_err :: "json \<Rightarrow> json_err + set_err" where
  "dec_set_err v = dec_struct h_set_err v \<lparr>se_err = [], se_description = []\<rparr>"

text \<open>A nil or empty map with \<open>omitempty\<close> is left out.\<close>

definition om_set_errs :: "(string, set_err) mapping option \<Rightarrow> (string \<times> json) list" where
  "om_set_errs m =
     (case m of
        None \<Rightarrow> []
      | Some es \<Rightarrow> if Mapping.ordered_keys es = [] then []
          else [(quote ''setErrs'', jmap enc_set_err es)])"

definition enc_poll_request :: "poll_request \<Rightarrow> json" where
  "enc_poll_request r = mk_obj
     (om_strs ''ack'' (pq_ack r) @ om_set_errs (pq_set_errs r)
      @ om_int_ptr ''maxEvents'' (pq_max_events r)
      @ om_bool_ptr ''returnImmediately'' (pq_return_immediately r))"

definition h_poll_request :: "string \<Rightarrow> string \<Rightarrow> json \<Rightarrow> poll_request \<Rightarrow> json_err + poll_request" where
  "h_poll_request k src v r =
     (if k = ''ack'' then bind_r (dec_strs v) (\<lambda>x. Inr (r\<lparr>pq_ack := x\<rparr>))
      else if k = ''seterrs'' then bind_r (dec_map dec_set_err v (pq_set_errs r)) (\<lambda>x. Inr (r\<lparr>pq_set_errs := x\<rparr>))
      else if k = ''maxevents'' then bind_r (dec_int_ptr v) (\<lambda>x. Inr (r\<lparr>pq_max_events := x\<rparr>))
      else if k = ''returnimmediately''
      then bind_r (dec_bool_ptr v) (\<lambda>x. Inr (r\<lparr>pq_return_immediately := x\<rparr>))
      else Inr r)"

definition dec_poll_request :: "json \<Rightarrow> json_err + poll_request" where
  "dec_poll_request v = dec_struct h_poll_request v
     \<lparr>pq_ack = None, pq_set_errs = None, pq_max_events = None, pq_return_immediately = None\<rparr>"

text \<open>\<open>sets\<close> has no \<open>omitempty\<close>: a nil map is written as \<open>null\<close>.\<close>

definition enc_poll_response :: "poll_response \<Rightarrow> json" where
  "enc_poll_response r = mk_obj
     ([(quote ''sets'', case pr_sets r of None \<Rightarrow> JNull | Some m \<Rightarrow> jmap jstring m)]
      @ om_bool_ptr ''moreAvailable'' (pr_more_available r))"

definition h_poll_response :: "string \<Rightarrow> string \<Rightarrow> json \<Rightarrow> poll_response \<Rightarrow> json_err + poll_response" where
  "h_poll_response k src v r =
     (if k = ''sets'' then bind_r (dec_map (\<lambda>x. dec_str x []) v (pr_sets r)) (\<lambda>x. Inr (r\<lparr>pr_sets := x\<rparr>))
      else if k = ''moreavailable'' then bind_r (dec_bool_ptr v) (\<lambda>x. Inr (r\<lparr>pr_more_available := x\<rparr>))
      else Inr r)"

definition dec_poll_response :: "json \<Rightarrow> json_err + poll_response" where
  "dec_poll_response v = dec_struct h_poll_response v \<lparr>pr_sets = None, pr_more_available = None\<rparr>"

section \<open>Transmitter metadata\<close>

record transmitter_config =
  tc_issuer :: string
  tc_jwks_uri :: string
  tc_delivery_methods_supported :: "string list option"
  tc_configuration_endpoint :: string
  tc_status_endpoint :: string
  tc_add_subject_endpoint :: string
  tc_remove_subject_endpoint :: string
  tc_verification_endpoint :: string
  tc_critical_subject_members :: "string list option"
  tc_spec_version :: string
  tc_authorization_schemes :: string

definition SpecVersion :: string where "SpecVersion = ''1.0''"

definition enc_transmitter_config :: "transmitter_config \<Rightarrow> json option" where
  "enc_transmitter_config c = map_option
     (\<lambda>schemes. mk_obj
        ([(quote ''issuer'', jstring (tc_issuer c))] @ om_str ''jwks_uri'' (tc_jwks_uri c)
         @ [(quote ''delivery_methods_supported'',
              case tc_delivery_methods_supported c of None \<Rightarrow> JNull | Some xs \<Rightarrow> jstrings xs)]
         @ om_str ''configuration_endpoint'' (tc_configuration_endpoint c)
         @ om_str ''status_endpoint'' (tc_status_endpoint c)
         @ om_str ''add_subject_endpoint'' (tc_add_subject_endpoint c)
         @ om_str ''remove_subject_endpoint'' (tc_remove_subject_endpoint c)
         @ om_str ''verification_endpoint'' (tc_verification_endpoint c)
         @ om_strs ''critical_subject_members'' (tc_critical_subject_members c)
         @ om_str ''spec_version'' (tc_spec_version c)
         @ schemes))
     (om_raw ''authorization_schemes'' (tc_authorization_schemes c))"

definition h_transmitter_config ::
  "string \<Rightarrow> string \<Rightarrow> json \<Rightarrow> transmitter_config \<Rightarrow> json_err + transmitter_config" where
  "h_transmitter_config k src v c =
     (if k = ''issuer'' then bind_r (dec_str v (tc_issuer c)) (\<lambda>s. Inr (c\<lparr>tc_issuer := s\<rparr>))
      else if k = ''jwks_uri'' then bind_r (dec_str v (tc_jwks_uri c)) (\<lambda>s. Inr (c\<lparr>tc_jwks_uri := s\<rparr>))
      else if k = ''delivery_methods_supported''
      then bind_r (dec_strs v) (\<lambda>s. Inr (c\<lparr>tc_delivery_methods_supported := s\<rparr>))
      else if k = ''configuration_endpoint''
      then bind_r (dec_str v (tc_configuration_endpoint c)) (\<lambda>s. Inr (c\<lparr>tc_configuration_endpoint := s\<rparr>))
      else if k = ''status_endpoint''
      then bind_r (dec_str v (tc_status_endpoint c)) (\<lambda>s. Inr (c\<lparr>tc_status_endpoint := s\<rparr>))
      else if k = ''add_subject_endpoint''
      then bind_r (dec_str v (tc_add_subject_endpoint c)) (\<lambda>s. Inr (c\<lparr>tc_add_subject_endpoint := s\<rparr>))
      else if k = ''remove_subject_endpoint''
      then bind_r (dec_str v (tc_remove_subject_endpoint c)) (\<lambda>s. Inr (c\<lparr>tc_remove_subject_endpoint := s\<rparr>))
      else if k = ''verification_endpoint''
      then bind_r (dec_str v (tc_verification_endpoint c)) (\<lambda>s. Inr (c\<lparr>tc_verification_endpoint := s\<rparr>))
      else if k = ''critical_subject_members''
      then bind_r (dec_strs v) (\<lambda>s. Inr (c\<lparr>tc_critical_subject_members := s\<rparr>))
      else if k = ''spec_version''
      then bind_r (dec_str v (tc_spec_version c)) (\<lambda>s. Inr (c\<lparr>tc_spec_version := s\<rparr>))
      else if k = ''authorization_schemes'' then Inr (c\<lparr>tc_authorization_schemes := src\<rparr>)
      else Inr c)"

definition zero_transmitter_config :: transmitter_config where
  "zero_transmitter_config = \<lparr>tc_issuer = [], tc_jwks_uri = [], tc_delivery_methods_supported = None,
     tc_configuration_endpoint = [], tc_status_endpoint = [], tc_add_subject_endpoint = [],
     tc_remove_subject_endpoint = [], tc_verification_endpoint = [],
     tc_critical_subject_members = None, tc_spec_version = [], tc_authorization_schemes = []\<rparr>"

definition dec_transmitter_config :: "json \<Rightarrow> json_err + transmitter_config" where
  "dec_transmitter_config v = dec_struct h_transmitter_config v zero_transmitter_config"

end
