(* ===== verification/Subject_Key.thy ===== *)
theory Subject_Key
  imports Go_Float Ssf_Wire "HOL-Library.Multiset"
begin

text \<open>
  Canonical subject keys (\<open>canonicalSubjectKey\<close> and its callers in \<open>memstore/memstore.go\<close>): a
  Subject Identifier document is decoded into an \<open>any\<close> value and marshalled again. Here are the
  \<open>any\<close> values, the two conversions of \<open>encoding/json\<close>, the keys, and the proofs that keys name
  values: equal keys exactly for equal values, whatever the spelling and member order.
\<close>

section \<open>Values of type \<open>any\<close>\<close>

text \<open>A \<open>map[string]any\<close> is kept as its association list in key order, each key once.\<close>

datatype goval =
    VNull
  | VBool bool
  | VNum "bool \<times> rat"
  | VStr string
  | VArr "goval list"
  | VObj "(string \<times> goval) list"

fun put_member :: "string \<Rightarrow> goval \<Rightarrow> (string \<times> goval) list \<Rightarrow> (string \<times> goval) list" where
  "put_member k v [] = [(k, v)]"
| "put_member k v ((k', v') # ms) =
     (if k < k' then (k, v) # (k', v') # ms
      else if k = k' then (k, v) # ms
      else (k', v') # put_member k v ms)"

text \<open>\<open>json.Unmarshal\<close> into \<open>any\<close>: a number beyond \<open>float64\<close> is the only failure left.\<close>

fun to_any :: "json \<Rightarrow> goval option"
and any_elems :: "(string \<times> json) list \<Rightarrow> goval list option"
and any_members :: "(string \<times> string \<times> json) list \<Rightarrow> (string \<times> goval) list \<Rightarrow> (string \<times> goval) list option"
where
  "to_any JNull = Some VNull"
| "to_any (JBool b) = Some (VBool b)"
| "to_any (JNum s) = map_option VNum (parse_float s)"
| "to_any (JStr b) = Some (VStr (unquote b))"
| "to_any (JArr xs) = map_option VArr (any_elems xs)"
| "to_any (JObj ms) = map_option VObj (any_members ms [])"
| "any_elems [] = Some []"
| "any_elems ((_, v) # xs) =
     Option.bind (to_any v) (\<lambda>a. map_option (\<lambda>as. a # as) (any_elems xs))"
| "any_members [] acc = Some acc"
| "any_members ((k, _, v) # ms) acc =
     Option.bind (to_any v) (\<lambda>a. any_members ms (put_member (unquote k) a acc))"

text \<open>\<open>json.Marshal\<close> of such a value, which cannot fail.\<close>

fun of_any :: "goval \<Rightarrow> json" where
  "of_any VNull = JNull"
| "of_any (VBool b) = JBool b"
| "of_any (VNum x) = JNum (format_float x)"
| "of_any (VStr s) = jstring s"
| "of_any (VArr vs) = mk_arr (map of_any vs)"
| "of_any (VObj ms) = mk_obj (map (\<lambda>(k, v). (quote k, of_any v)) ms)"

definition unmarshal_any :: "string \<Rightarrow> json_err + goval" where
  "unmarshal_any raw = unmarshal (\<lambda>v. case to_any v of None \<Rightarrow> Inl Type_Error | Some a \<Rightarrow> Inr a) raw"

section \<open>Keys\<close>

definition canonicalSubjectKey :: "string \<Rightarrow> string result" where
  "canonicalSubjectKey raw =
     (if raw = [] then Inr []
      else (case unmarshal_any raw of
              Inl e \<Rightarrow> Inl (Wrapf [] (Sentinel ErrInvalidConfig)
                        ('': subject is not valid JSON: '' @ error_text (JsonErr e)))
            | Inr v \<Rightarrow> Inr (jprint (of_any v))))"

definition canonicalSubjectKeyFromIdentifier :: "('sid \<Rightarrow> string option) \<Rightarrow> 'sid option \<Rightarrow> string result" where
  "canonicalSubjectKeyFromIdentifier sid_marshal subj =
     (case subj of
        None \<Rightarrow> Inl (Wrapf [] (Sentinel ErrInvalidConfig) '': subject is required'')
      | Some s \<Rightarrow>
          (case Option.bind (sid_marshal s) raw_json of
             None \<Rightarrow> Inl (Wrapf [] (Sentinel ErrInvalidConfig) '': marshal subject'')
           | Some j \<Rightarrow> canonicalSubjectKey (jprint j)))"

text \<open>The dynamic types \<open>HasSubject\<close> tells apart; a nil pointer is \<open>None\<close>.\<close>

datatype 'sid any_subject =
    AnyNil
  | AnyRaw string
  | AnyAdd "'sid add_subject_request option"
  | AnyRemove "'sid remove_subject_request option"
  | AnyOther 'sid

definition canonicalSubjectKeyFromAny :: "('sid \<Rightarrow> string option) \<Rightarrow> 'sid any_subject \<Rightarrow> string result" where
  "canonicalSubjectKeyFromAny sid_marshal v =
     (case v of
        AnyNil \<Rightarrow> Inl (Wrapf [] (Sentinel ErrInvalidConfig) '': subject is required'')
      | AnyRaw t \<Rightarrow> canonicalSubjectKey t
      | AnyAdd None \<Rightarrow> Inl (Wrapf [] (Sentinel ErrInvalidConfig) '': subject is required'')
      | AnyAdd (Some t) \<Rightarrow> canonicalSubjectKeyFromIdentifier sid_marshal (as_subject t)
      | AnyRemove None \<Rightarrow> Inl (Wrapf [] (Sentinel ErrInvalidConfig) '': subject is required'')
      | AnyRemove (Some t) \<Rightarrow> canonicalSubjectKeyFromIdentifier sid_marshal (rs_subject t)
      | AnyOther t \<Rightarrow> canonicalSubjectKeyFromIdentifier sid_marshal (Some t))"

section \<open>Values that decoding produces\<close>

fun wf_any :: "goval \<Rightarrow> bool" where
  "wf_any (VNum x) \<longleftrightarrow> is_double (snd x)"
| "wf_any (VArr vs) \<longleftrightarrow> (\<forall>v \<in> set vs. wf_any v)"
| "wf_any (VObj ms) \<longleftrightarrow> sorted_wrt (<) (map fst ms) \<and> (\<forall>m \<in> set ms. wf_any (snd m))"
| "wf_any _ \<longleftrightarrow> True"

abbreviation "wf_map ms \<equiv> wf_any (VObj ms)"

lemma put_member_keys: "set (map fst (put_member k v ms)) = insert k (set (map fst ms))"
  by (induction k v ms rule: put_member.induct) auto

lemma put_member_sorted:
  "sorted_wrt (<) (map fst ms) \<Longrightarrow> sorted_wrt (<) (map fst (put_member k v ms))"
proof (induction k v ms rule: put_member.induct)
  case (2 k v k' v' ms)
  have keys: "set (map fst (put_member k v ms)) = insert k (set (map fst ms))"
    by (rule put_member_keys)
  consider "k < k'" | "k = k'" | "k' < k" by (rule linorder_cases)
  then show ?case
  proof cases
    case 1
    with 2 show ?thesis by (auto dest: order_less_trans)
  next
    case 2
    with "2.prems" show ?thesis by simp
  next
    case 3
    then have "\<not> k < k'" "k \<noteq> k'" by auto
    with 2 3 show ?thesis using keys by simp
  qed
qed simp

lemma put_member_members: "set (put_member k v ms) \<subseteq> insert (k, v) (set ms)"
  by (induction k v ms rule: put_member.induct) auto

lemma put_member_wf: "wf_map ms \<Longrightarrow> wf_any v \<Longrightarrow> wf_map (put_member k v ms)"
  using put_member_sorted [of ms k v] put_member_members [of k v ms] by fastforce

lemma to_any_wf:
  "to_any j = Some a \<Longrightarrow> wf_any a"
  "any_elems xs = Some as \<Longrightarrow> \<forall>v \<in> set as. wf_any v"
  "any_members ms acc = Some out \<Longrightarrow> wf_map acc \<Longrightarrow> wf_map out"
proof (induction j and xs and ms acc arbitrary: a and as and out
    rule: to_any_any_elems_any_members.induct)
  case (10 k src v ms acc)
  then obtain b where "to_any v = Some b" "any_members ms (put_member (unquote k) b acc) = Some out"
    by (auto simp: bind_eq_Some_conv)
  with 10 show ?case using put_member_wf by blast
qed (auto simp: bind_eq_Some_conv dest: parse_float_double)

section \<open>Marshalling and unmarshalling are inverse\<close>

lemma wf_of_any: "wf_any a \<Longrightarrow> wf_json (of_any a)"
proof (induction a rule: of_any.induct)
  case (5 vs)
  then show ?case by simp
next
  case (6 ms)
  then show ?case by (fastforce simp: wf_pairs_def split: prod.splits)
qed (simp_all add: parse_format_float)

lemma put_member_last:
  "\<forall>m \<in> set ms. fst m < k \<Longrightarrow> put_member k v ms = ms @ [(k, v)]"
  by (induction k v ms rule: put_member.induct) auto

lemma any_members_sorted:
  assumes "sorted_wrt (<) (map fst (acc @ ms))" and "\<And>k v. (k, v) \<in> set ms \<Longrightarrow> to_any (of_any v) = Some v"
  shows "any_members (map (\<lambda>(k, v). (k, jprint v, v)) (map (\<lambda>(k, v). (quote k, of_any v)) ms)) acc
    = Some (acc @ ms)"
  using assms
proof (induction ms arbitrary: acc)
  case (Cons m ms)
  obtain k v where m: "m = (k, v)" by (cases m)
  have "put_member k v acc = acc @ [(k, v)]"
    using Cons.prems(1) by (intro put_member_last) (auto simp: m sorted_wrt_append)
  moreover have "to_any (of_any v) = Some v" using Cons.prems(2) [of k v] by (simp add: m)
  moreover have "to_any (of_any v') = Some v'" if "(k', v') \<in> set ms" for k' v'
    using that by (intro Cons.prems(2) [of k' v']) simp
  ultimately show ?case using Cons.IH [of "acc @ [(k, v)]"] Cons.prems(1) by (simp add: m)
qed simp

lemma any_elems_map:
  "(\<And>v. v \<in> set vs \<Longrightarrow> to_any (of_any v) = Some v) \<Longrightarrow>
     any_elems (map (\<lambda>v. (jprint v, v)) (map of_any vs)) = Some vs"
  by (induction vs) auto

lemma to_any_of_any: "wf_any a \<Longrightarrow> to_any (of_any a) = Some a"
proof (induction a rule: of_any.induct)
  case (5 vs)
  then show ?case using any_elems_map [of vs] by (simp add: mk_arr_def)
next
  case (6 ms)
  then have "\<And>k v. (k, v) \<in> set ms \<Longrightarrow> to_any (of_any v) = Some v" by fastforce
  with 6 any_members_sorted [of "[]" ms] show ?case by (simp add: mk_obj_def)
qed (simp_all add: parse_format_float)

lemma unmarshal_any_wf: "unmarshal_any raw = Inr a \<Longrightarrow> wf_any a"
  by (auto simp: unmarshal_any_def unmarshal_def to_any_wf split: option.splits)

lemma unmarshal_marshal_any: "wf_any a \<Longrightarrow> unmarshal_any (jprint (of_any a)) = Inr a"
  by (simp add: unmarshal_any_def unmarshal_def wf_of_any to_any_of_any)

lemma jprint_inject: "wf_json j \<Longrightarrow> wf_json j' \<Longrightarrow> jprint j = jprint j' \<longleftrightarrow> j = j'"
  by (metis option.inject parse_jprint)

lemma jprint_not_empty: "wf_json j \<Longrightarrow> jprint j \<noteq> []"
  using jprint_nonempty by fastforce

section \<open>Keys name values\<close>

lemma key_cases:
  assumes "canonicalSubjectKey raw = Inr k" and "raw \<noteq> []"
  obtains a where "unmarshal_any raw = Inr a" and "wf_any a" and "k = jprint (of_any a)" and "k \<noteq> []"
  using assms by (auto simp: canonicalSubjectKey_def unmarshal_any_wf wf_of_any jprint_not_empty
      split: sum.splits)

lemma marshal_any_inject: "wf_any a \<Longrightarrow> wf_any b \<Longrightarrow> jprint (of_any a) = jprint (of_any b) \<longleftrightarrow> a = b"
  by (metis sum.inject(2) unmarshal_marshal_any)

text \<open>
  Claim C17: Two non-empty subjects that have keys have the same key exactly when they decode to
  the same JSON value (objects as maps, numbers as \<open>float64\<close>), however they are spelled.
\<close>

theorem canonical_key_iff:
  assumes "canonicalSubjectKey raw = Inr k" and "canonicalSubjectKey raw' = Inr k'"
    and "raw \<noteq> []" and "raw' \<noteq> []"
  shows "k = k' \<longleftrightarrow> unmarshal_any raw = unmarshal_any raw'"
proof -
  obtain a where a: "unmarshal_any raw = Inr a" "wf_any a" "k = jprint (of_any a)"
    using key_cases [OF assms(1,3)] by blast
  obtain b where b: "unmarshal_any raw' = Inr b" "wf_any b" "k' = jprint (of_any b)"
    using key_cases [OF assms(2,4)] by blast
  show ?thesis using a b by (simp add: marshal_any_inject)
qed

text \<open>
  A canonical key is a fixed point: used as a subject it has itself as key, so keys
  can be canonicalised again without changing the entry they name.
\<close>

theorem canonical_key_idem:
  assumes "canonicalSubjectKey raw = Inr k"
  shows "canonicalSubjectKey k = Inr k"
proof (cases "raw = []")
  case True
  with assms show ?thesis by (simp add: canonicalSubjectKey_def)
next
  case False
  from key_cases [OF assms this] obtain a where "wf_any a" "k = jprint (of_any a)" "k \<noteq> []" .
  then show ?thesis by (simp add: canonicalSubjectKey_def unmarshal_marshal_any)
qed

section \<open>Member order\<close>

lemma put_member_commute:
  "k \<noteq> k' \<Longrightarrow> put_member k v (put_member k' v' ms) = put_member k' v' (put_member k v ms)"
  by (induction ms) (auto split: prod.splits)

definition put_entry :: "string \<times> string \<times> json \<Rightarrow> (string \<times> goval) list \<Rightarrow> (string \<times> goval) list" where
  "put_entry m = (case m of (k, _, v) \<Rightarrow> put_member (unquote k) (the (to_any v)))"

lemma any_members_fold:
  "any_members ms acc =
     (if \<exists>(k, src, v) \<in> set ms. to_any v = None then None else Some (fold put_entry ms acc))"
proof (induction ms arbitrary: acc)
  case (Cons m ms)
  then show ?case by (cases m; cases "to_any (snd (snd m))") (auto simp: put_entry_def)
qed simp

lemma any_members_perm:
  assumes "mset ms = mset ms'" and "distinct (map (\<lambda>m. unquote (fst m)) ms)"
  shows "any_members ms acc = any_members ms' acc"
proof -
  have "fold put_entry ms = fold put_entry ms'"
  proof (rule fold_multiset_equiv [OF _ assms(1)])
    fix m n assume "m \<in> set ms" "n \<in> set ms"
    then have "m = n \<or> unquote (fst m) \<noteq> unquote (fst n)"
      using assms(2) by (auto simp: distinct_map inj_on_def)
    then show "put_entry m \<circ> put_entry n = put_entry n \<circ> put_entry m"
      by (auto simp: put_entry_def put_member_commute fun_eq_iff split: prod.splits)
  qed
  then show ?thesis using mset_eq_setD [OF assms(1)] by (simp add: any_members_fold)
qed

text \<open>
  The member order of a subject does not matter: two documents that are objects with
  the same members in another order, no member name occurring twice, have the same key.
\<close>

theorem canonical_member_order:
  assumes "parse raw = Some (JObj ms)" and "parse raw' = Some (JObj ms')"
    and "mset ms = mset ms'" and "distinct (map (\<lambda>m. unquote (fst m)) ms)"
  shows "canonicalSubjectKey raw = canonicalSubjectKey raw'"
proof -
  have "parse [] = None" by (simp add: parse_def parse_prefix_def skip_ws_def)
  then have "raw \<noteq> []" "raw' \<noteq> []" using assms(1,2) by auto
  then show ?thesis using any_members_perm [OF assms(3,4), of "[]"]
    by (simp add: canonicalSubjectKey_def unmarshal_any_def unmarshal_def assms(1,2))
qed

section \<open>Examples\<close>

definition sample_subject :: string where
  "sample_subject = jprint (mk_obj [(quote ''format'', jstring ''email''), (quote ''email'', jstring ''a@b'')])"

definition sample_subject' :: string where
  "sample_subject' = jprint (mk_obj [(quote ''email'', jstring ''a@b''), (quote ''format'', jstring ''email'')])"

lemma sample_subject_key:
  "canonicalSubjectKey sample_subject = Inr sample_subject'" "sample_subject \<noteq> []" "sample_subject' \<noteq> []"
  "sample_subject \<noteq> sample_subject'"
proof -
  have wf: "wf_json (mk_obj [(quote ''format'', jstring ''email''), (quote ''email'', jstring ''a@b'')])"
    "wf_json (mk_obj [(quote ''email'', jstring ''a@b''), (quote ''format'', jstring ''email'')])"
    by simp_all
  show ne: "sample_subject \<noteq> []" "sample_subject' \<noteq> []"
    by (simp_all add: sample_subject_def sample_subject'_def mk_obj_def)
  show "canonicalSubjectKey sample_subject = Inr sample_subject'"
    using ne wf
    by (simp add: canonicalSubjectKey_def unmarshal_any_def unmarshal_def sample_subject_def)
      (simp add: mk_obj_def sample_subject'_def)
  show "sample_subject \<noteq> sample_subject'"
    using wf by (simp add: sample_subject_def sample_subject'_def jprint_inject) (simp add: mk_obj_def)
qed

theorem canonical_key_idem_witness: "canonicalSubjectKey sample_subject' = Inr sample_subject'"
  by (rule canonical_key_idem [OF sample_subject_key(1)])

lemma sample_subject'_key: "canonicalSubjectKey sample_subject' = Inr sample_subject'"
proof -
  have "wf_json (mk_obj [(quote ''email'', jstring ''a@b''), (quote ''format'', jstring ''email'')])" by simp
  then show ?thesis using sample_subject_key(3)
    by (simp add: canonicalSubjectKey_def unmarshal_any_def unmarshal_def sample_subject'_def)
      (simp add: mk_obj_def)
qed

theorem canonical_key_iff_witness: "unmarshal_any sample_subject = unmarshal_any sample_subject'"
  using canonical_key_iff [OF sample_subject_key(1) sample_subject'_key sample_subject_key(2,3)] by simp

theorem canonical_member_order_witness:
  "canonicalSubjectKey sample_subject = canonicalSubjectKey sample_subject'"
proof -
  let ?f = "(quote ''format'', jprint (jstring ''email''), jstring ''email'')"
    and ?e = "(quote ''email'', jprint (jstring ''a@b''), jstring ''a@b'')"
  have "parse sample_subject = Some (JObj [?f, ?e])" "parse sample_subject' = Some (JObj [?e, ?f])"
    by (simp_all add: sample_subject_def sample_subject'_def) (simp_all add: mk_obj_def)
  then show ?thesis by (rule canonical_member_order) simp_all
qed

end
