(* ===== verification/Set_Tokens.thy ===== *)
theory Set_Tokens
  imports Subject_Key
begin

text \<open>
  Security event tokens (\<open>set.go\<close>): signer and verifier over go-jose. go-jose is not part of the
  repository: its operations are the fields of \<open>jose\<close>, an argument of every definition here, and what the
  code relies on is stated as the predicates \<open>parse_restricts\<close> and \<open>signs_for\<close>. A token is a value of an
  unknown type \<open>'jws\<close>, of which the code reads the protected headers of its signatures. The locale
  \<open>set_verifier\<close> is the contract of \<open>SETVerifier\<close> for the receivers.
\<close>

section \<open>go-jose\<close>

text \<open>\<open>jose.Header\<close>, with the extra headers decoded to \<open>any\<close>.\<close>

record jose_header =
  jh_alg :: string
  jh_kid :: string
  jh_extra :: "(string, goval) mapping"

record ('sg, 'jws, 'key) jose =
  jo_sign :: "'sg \<Rightarrow> string \<Rightarrow> 'jws result"
  jo_compact :: "'jws \<Rightarrow> string result"
  jo_parse :: "string \<Rightarrow> string list \<Rightarrow> 'jws result"
  jo_headers :: "'jws \<Rightarrow> jose_header list"
  jo_verify_key :: "'jws \<Rightarrow> 'key \<Rightarrow> string result"
  jo_verify_set :: "'jws \<Rightarrow> 'key list \<Rightarrow> string result"

text \<open>\<open>ParseSigned\<close> refuses a token signed with an algorithm that is not in its list.\<close>

definition parse_restricts :: "('sg, 'jws, 'key) jose \<Rightarrow> bool" where
  "parse_restricts J \<longleftrightarrow>
     (\<forall>c algs jws. jo_parse J c algs = Inr jws \<longrightarrow> (\<forall>h \<in> set (jo_headers J jws). jh_alg h \<in> set algs))"

text \<open>
  The signer \<open>sg\<close> puts the header \<open>hdr\<close> on every token, its tokens parse when their algorithm is asked for,
  and \<open>keys\<close> holds a key that validates them; no key of the set validates them with another payload.
\<close>

definition signs_for :: "('sg, 'jws, 'key) jose \<Rightarrow> 'sg \<Rightarrow> jose_header \<Rightarrow> 'key list \<Rightarrow> bool" where
  "signs_for J sg hdr keys \<longleftrightarrow>
     (\<forall>p jws c algs. jo_sign J sg p = Inr jws \<longrightarrow> jo_compact J jws = Inr c \<longrightarrow>
        (if jh_alg hdr \<in> set algs
         then (\<exists>j. jo_parse J c algs = Inr j \<and> jo_headers J j = [hdr]
                \<and> (jh_kid hdr \<noteq> [] \<longrightarrow> jo_verify_set J j keys = Inr p)
                \<and> (\<exists>k \<in> set keys. jo_verify_key J j k = Inr p)
                \<and> (\<forall>k \<in> set keys. \<forall>q. jo_verify_key J j k = Inr q \<longrightarrow> q = p))
         else (\<exists>e. jo_parse J c algs = Inl e)))"

section \<open>Headers\<close>

definition SETMediaType :: string where "SETMediaType = ''secevent+jwt''"

definition algNone :: string where "algNone = ''none''"

definition allowedSETAlgorithms :: "string list" where
  "allowedSETAlgorithms = [''EdDSA'', ''HS256'', ''HS384'', ''HS512'', ''RS256'', ''RS384'', ''RS512'',
     ''ES256'', ''ES384'', ''ES512'', ''PS256'', ''PS384'', ''PS512'']"

lemma none_not_allowed [simp]: "algNone \<notin> set allowedSETAlgorithms"
  by (simp add: algNone_def allowedSETAlgorithms_def)

text \<open>
  The \<open>typ\<close> header is an \<open>any\<close>, compared with a string. In messages the argument \<open>show\<close> stands for
  \<open>fmt\<close>'s rendering of a value that is not a string.
\<close>

definition show_quoted :: "(goval \<Rightarrow> string) \<Rightarrow> goval \<Rightarrow> string" where
  "show_quoted show v = (case v of VStr s \<Rightarrow> quoted s | _ \<Rightarrow> show v)"

definition show_plain :: "(goval \<Rightarrow> string) \<Rightarrow> goval \<Rightarrow> string" where
  "show_plain show v = (case v of VStr s \<Rightarrow> s | _ \<Rightarrow> show v)"

section \<open>Signing\<close>

definition NewJOSESetSigner ::
  "(goval \<Rightarrow> string) \<Rightarrow> ('sg, 'jws, 'key) jose \<Rightarrow> 'sg option \<Rightarrow> 'sg result" where
  "NewJOSESetSigner show J signer =
     (case signer of
        None \<Rightarrow> Inl (Opaque ''ssf: jose signer is nil'')
      | Some sg \<Rightarrow>
          (case jo_sign J sg [CHR 0x00] of
             Inl e \<Rightarrow> Inl (Wrapf ''ssf: jose signer rejected probe payload: '' e [])
           | Inr probe \<Rightarrow>
               (case jo_compact J probe of
                  Inl e \<Rightarrow> Inl (Wrapf ''ssf: serialize probe jws: '' e [])
                | Inr token \<Rightarrow>
                    (case jo_parse J token (allowedSETAlgorithms @ [algNone]) of
                       Inl e \<Rightarrow> Inl (Wrapf ''ssf: parse probe jws: '' e [])
                     | Inr parsed \<Rightarrow>
                         (case jo_headers J parsed of
                            [] \<Rightarrow> Inl (Opaque ''ssf: probe jws has no signatures'')
                          | header # _ \<Rightarrow>
                              if jh_alg header = algNone then Inl (Sentinel ErrAlgNone)
                              else (case Mapping.lookup (jh_extra header) ''typ'' of
                                      None \<Rightarrow> Inl (Sentinel ErrMissingTyp)
                                    | Some typ \<Rightarrow>
                                        if typ \<noteq> VStr SETMediaType
                                        then Inl (Wrapf (''ssf: jose signer typ header is '' @ show_plain show typ
                                               @ '', want '' @ quoted SETMediaType @ '': '') (Sentinel ErrMissingTyp) [])
                                        else Inr sg))))))"

definition Sign :: "('sg, 'jws, 'key) jose \<Rightarrow> 'sg \<Rightarrow> string \<Rightarrow> string result" where
  "Sign J sg payload =
     (case jo_sign J sg payload of
        Inl e \<Rightarrow> Inl (Wrapf ''ssf: sign set: '' e [])
      | Inr jws \<Rightarrow>
          (case jo_compact J jws of
             Inl e \<Rightarrow> Inl (Wrapf ''ssf: serialize set: '' e [])
           | Inr token \<Rightarrow> Inr token))"

section \<open>Verifying\<close>

text \<open>The loop over the keys; the empty set is refused before it.\<close>

fun try_keys :: "('sg, 'jws, 'key) jose \<Rightarrow> 'jws \<Rightarrow> 'key list \<Rightarrow> string result" where
  "try_keys J jws [] = Inl (Opaque ''no key in jwks validated the signature: %!w(<nil>)'')"
| "try_keys J jws (k # ks) =
     (case jo_verify_key J jws k of
        Inr payload \<Rightarrow> Inr payload
      | Inl e \<Rightarrow>
          if ks = [] then Inl (Wrapf ''no key in jwks validated the signature: '' e [])
          else try_keys J jws ks)"

definition verifyWithKeys ::
  "('sg, 'jws, 'key) jose \<Rightarrow> 'key list \<Rightarrow> 'jws \<Rightarrow> jose_header \<Rightarrow> string result" where
  "verifyWithKeys J keys jws header =
     (if keys = [] then Inl (Opaque ''jwks is empty'')
      else if jh_kid header \<noteq> [] then jo_verify_set J jws keys
      else try_keys J jws keys)"

definition Verify ::
  "(goval \<Rightarrow> string) \<Rightarrow> ('sg, 'jws, 'key) jose \<Rightarrow> 'key list \<Rightarrow> string \<Rightarrow> string result" where
  "Verify show J keys token =
     (case jo_parse J token allowedSETAlgorithms of
        Inl e \<Rightarrow> Inl (Wrapf ''ssf: parse set: '' e [])
      | Inr jws \<Rightarrow>
          (case jo_headers J jws of
             [] \<Rightarrow> Inl (Opaque ''ssf: set has no signatures'')
           | header # _ \<Rightarrow>
               if jh_alg header = algNone then Inl (Sentinel ErrAlgNone)
               else (case Mapping.lookup (jh_extra header) ''typ'' of
                       None \<Rightarrow> Inl (Sentinel ErrMissingTyp)
                     | Some typ \<Rightarrow>
                         if typ \<noteq> VStr SETMediaType
                         then Inl (Opaque (''ssf: set typ header is '' @ show_quoted show typ @ '', want ''
                                @ quoted SETMediaType @ '' (rfc 8417 '' @ [CHR 0xC2, CHR 0xA7] @ ''2.2)''))
                         else (case verifyWithKeys J keys jws header of
                                 Inl e \<Rightarrow> Inl (Wrapf ''ssf: verify set signature: '' e [])
                               | Inr payload \<Rightarrow> Inr payload))))"

section \<open>What acceptance means\<close>

lemma first_split_Cons:
  "(\<exists>xs y ys. k # ks = xs @ y # ys \<and> P y \<and> (\<forall>x \<in> set xs. Q x))
     \<longleftrightarrow> P k \<or> Q k \<and> (\<exists>xs y ys. ks = xs @ y # ys \<and> P y \<and> (\<forall>x \<in> set xs. Q x))"
  (is "?l \<longleftrightarrow> ?r")
proof
  assume ?l
  then obtain xs y ys where *: "k # ks = xs @ y # ys" "P y" "\<forall>x \<in> set xs. Q x" by blast
  then show ?r by (cases xs) auto
next
  assume ?r
  then show ?l by (metis append_Cons append_Nil empty_iff empty_set set_ConsD)
qed

lemma try_keys_ok:
  "try_keys J jws ks = Inr p \<longleftrightarrow>
     (\<exists>xs k ys. ks = xs @ k # ys \<and> jo_verify_key J jws k = Inr p
        \<and> (\<forall>x \<in> set xs. \<exists>e. jo_verify_key J jws x = Inl e))"
proof (induction ks)
  case (Cons k ks)
  show ?case
  proof (cases "jo_verify_key J jws k")
    case (Inl e)
    have *: "try_keys J jws (k # ks) = Inr p \<longleftrightarrow> try_keys J jws ks = Inr p" using Inl by (cases ks) simp_all
    show ?thesis unfolding * Cons.IH first_split_Cons by (simp add: Inl)
  next
    case (Inr q)
    then show ?thesis unfolding first_split_Cons by simp
  qed
qed simp

text \<open>A token stands for the payload \<open>p\<close> under the key set \<open>keys\<close>.\<close>

definition set_authentic :: "('sg, 'jws, 'key) jose \<Rightarrow> 'key list \<Rightarrow> string \<Rightarrow> string \<Rightarrow> bool" where
  "set_authentic J keys token p \<longleftrightarrow>
     (\<exists>jws header hs. jo_parse J token allowedSETAlgorithms = Inr jws \<and> jo_headers J jws = header # hs
        \<and> jh_alg header \<noteq> algNone
        \<and> Mapping.lookup (jh_extra header) ''typ'' = Some (VStr SETMediaType)
        \<and> keys \<noteq> []
        \<and> (if jh_kid header \<noteq> [] then jo_verify_set J jws keys = Inr p
           else \<exists>xs k ys. keys = xs @ k # ys \<and> jo_verify_key J jws k = Inr p
                  \<and> (\<forall>x \<in> set xs. \<exists>e. jo_verify_key J jws x = Inl e)))"

lemma Verify_authentic: "Verify show J keys token = Inr p \<longleftrightarrow> set_authentic J keys token p"
  unfolding set_authentic_def try_keys_ok [symmetric]
  by (auto simp: Verify_def verifyWithKeys_def split: sum.splits list.splits option.splits if_splits)

section \<open>The contract of SETVerifier\<close>

text \<open>
  A verifier returns a payload only for a token that \<open>authentic\<close> relates it to. The receivers are stated
  over this; \<open>JOSESetVerifier\<close> provides it with \<open>set_authentic\<close>, for every key set.
\<close>

locale set_verifier =
  fixes verify :: "string \<Rightarrow> string result"
    and authentic :: "string \<Rightarrow> string \<Rightarrow> bool"
  assumes verify_authentic: "verify token = Inr p \<Longrightarrow> authentic token p"

interpretation jose_set: set_verifier "Verify f J keys" "set_authentic J keys" for f J keys
  by unfold_locales (simp add: Verify_authentic)

section \<open>Properties\<close>

text \<open>
  Claim C26: A token is accepted exactly when it parses with an allowed algorithm, its header
  carries \<open>typ\<close> equal to \<open>secevent+jwt\<close>, and the key set validates it: by its \<open>kid\<close> when it names one,
  otherwise by the first key that does; the payload is the validated one. The algorithm is then never \<open>none\<close>.
\<close>

theorem verify_accepts_iff:
  assumes "parse_restricts J"
  shows "Verify show J keys token = Inr p \<longleftrightarrow>
    (\<exists>jws header hs. jo_parse J token allowedSETAlgorithms = Inr jws \<and> jo_headers J jws = header # hs
       \<and> jh_alg header \<in> set allowedSETAlgorithms - {algNone}
       \<and> Mapping.lookup (jh_extra header) ''typ'' = Some (VStr SETMediaType) \<and> keys \<noteq> []
       \<and> (if jh_kid header \<noteq> [] then jo_verify_set J jws keys = Inr p
          else \<exists>xs k ys. keys = xs @ k # ys \<and> jo_verify_key J jws k = Inr p
                 \<and> (\<forall>x \<in> set xs. \<exists>e. jo_verify_key J jws x = Inl e)))"
proof -
  have *: "jh_alg header \<in> set allowedSETAlgorithms"
    if "jo_parse J token allowedSETAlgorithms = Inr jws" "jo_headers J jws = header # hs" for jws header hs
    using assms that by (force simp: parse_restricts_def)
  then have **: "jh_alg header \<noteq> algNone"
    if "jo_parse J token allowedSETAlgorithms = Inr jws" "jo_headers J jws = header # hs" for jws header hs
    using that none_not_allowed by metis
  show ?thesis unfolding Verify_authentic set_authentic_def
    by (intro iff_exI conj_cong refl) (simp add: * **)
qed

lemma try_keys_unique:
  assumes "\<forall>k \<in> set ks. \<forall>q. jo_verify_key J j k = Inr q \<longrightarrow> q = p"
    and "\<exists>k \<in> set ks. jo_verify_key J j k = Inr p"
  shows "try_keys J j ks = Inr p"
  using assms
proof (induction ks)
  case (Cons k ks)
  show ?case
  proof (cases "jo_verify_key J j k")
    case (Inl e)
    then have "\<exists>k \<in> set ks. jo_verify_key J j k = Inr p" using Cons.prems(2) by simp
    moreover from this have "ks \<noteq> []" by auto
    ultimately show ?thesis using Cons.IH Cons.prems(1) Inl by simp
  next
    case (Inr q)
    then show ?thesis using Cons.prems(1) by simp
  qed
qed simp

lemma signs_forD:
  assumes "signs_for J sg hdr keys" and "jo_sign J sg p = Inr jws" and "jo_compact J jws = Inr c"
    and "jh_alg hdr \<in> set algs"
  shows "\<exists>j. jo_parse J c algs = Inr j \<and> jo_headers J j = [hdr]
    \<and> (jh_kid hdr \<noteq> [] \<longrightarrow> jo_verify_set J j keys = Inr p)
    \<and> (\<exists>k \<in> set keys. jo_verify_key J j k = Inr p)
    \<and> (\<forall>k \<in> set keys. \<forall>q. jo_verify_key J j k = Inr q \<longrightarrow> q = p)"
  using assms(1) [unfolded signs_for_def, rule_format, OF assms(2,3), of algs] assms(4) by simp

lemma signer_accepted:
  assumes "NewJOSESetSigner show J (Some sg) = Inr s"
  shows "\<exists>probe c parsed h hs. s = sg \<and> jo_sign J sg [CHR 0x00] = Inr probe \<and> jo_compact J probe = Inr c
    \<and> jo_parse J c (allowedSETAlgorithms @ [algNone]) = Inr parsed \<and> jo_headers J parsed = h # hs
    \<and> jh_alg h \<noteq> algNone \<and> Mapping.lookup (jh_extra h) ''typ'' = Some (VStr SETMediaType)"
  using assms
  by (auto simp: NewJOSESetSigner_def split: sum.split_asm list.split_asm option.split_asm if_split_asm)

lemma signed_verifies:
  assumes "signs_for J sg hdr keys"
    and "NewJOSESetSigner show J (Some sg) = Inr s" and "Sign J s p = Inr token"
  shows "Verify show' J keys token = Inr p"
proof -
  from signer_accepted [OF assms(2)] obtain probe c parsed h hs where
      probe: "s = sg" "jo_sign J sg [CHR 0x00] = Inr probe" "jo_compact J probe = Inr c"
      "jo_parse J c (allowedSETAlgorithms @ [algNone]) = Inr parsed"
    and head: "jo_headers J parsed = h # hs" "jh_alg h \<noteq> algNone"
      "Mapping.lookup (jh_extra h) ''typ'' = Some (VStr SETMediaType)" by blast
  have "jh_alg hdr \<in> set (allowedSETAlgorithms @ [algNone]) \<and> jo_headers J parsed = [hdr]"
    using assms(1) probe(2-4) unfolding signs_for_def by (metis Inr_inject Inl_not_Inr)
  with head have hdr: "jh_alg hdr \<in> set allowedSETAlgorithms" "jh_alg hdr \<noteq> algNone"
      "Mapping.lookup (jh_extra hdr) ''typ'' = Some (VStr SETMediaType)" by auto
  from assms(3) probe(1) obtain jws where "jo_sign J sg p = Inr jws" "jo_compact J jws = Inr token"
    by (auto simp: Sign_def split: sum.splits)
  from signs_forD [OF assms(1) this hdr(1)] obtain j where j: "jo_parse J token allowedSETAlgorithms = Inr j"
      "jo_headers J j = [hdr]" "jh_kid hdr \<noteq> [] \<longrightarrow> jo_verify_set J j keys = Inr p"
      "\<exists>k \<in> set keys. jo_verify_key J j k = Inr p"
      "\<forall>k \<in> set keys. \<forall>q. jo_verify_key J j k = Inr q \<longrightarrow> q = p" by blast
  have "keys \<noteq> []" "try_keys J j keys = Inr p" using j(4) try_keys_unique [OF j(5,4)] by auto
  then have "verifyWithKeys J keys j hdr = Inr p" using j(3) by (simp add: verifyWithKeys_def)
  then show ?thesis using j(1,2) hdr by (simp add: Verify_def)
qed

text \<open>
  Claim C27: What an accepted signer signs is accepted: when \<open>NewJOSESetSigner\<close> admits a signer, every
  token its \<open>Sign\<close> makes is verified, with the signed payload, by a verifier whose key set has a key of that signer.
  The check of the probe token at construction is enough for every later token.
\<close>

theorem sign_verify:
  assumes "signs_for J sg hdr keys"
    and "NewJOSESetSigner show J (Some sg) = Inr s" and "Sign J s p = Inr token"
  shows "Verify show' J keys token = Inr p"
  using assms by (rule signed_verifies)

section \<open>An example\<close>

text \<open>A toy scheme whose tokens spell key and payload, and a signer named \<open>k\<close>.\<close>

definition toy_header :: jose_header where
  "toy_header = \<lparr>jh_alg = ''ES256'', jh_kid = [],
     jh_extra = Mapping.update ''typ'' (VStr SETMediaType) Mapping.empty\<rparr>"

definition toy_jose :: "(string, string \<times> string, string) jose" where
  "toy_jose = \<lparr>jo_sign = (\<lambda>k p. Inr (k, p)),
     jo_compact = (\<lambda>(k, p). Inr (CHR ''.'' # k @ CHR ''.'' # p)),
     jo_parse = (\<lambda>c algs. if jh_alg toy_header \<in> set algs
        then (case cut CHR ''.'' (tl c) of (k, p, _) \<Rightarrow> Inr (k, p)) else Inl (Opaque ''algorithm'')),
     jo_headers = (\<lambda>_. [toy_header]),
     jo_verify_key = (\<lambda>(k, p) k'. if k = k' then Inr p else Inl (Opaque ''signature'')),
     jo_verify_set = (\<lambda>(k, p) ks. if k \<in> set ks then Inr p else Inl (Opaque ''kid''))\<rparr>"

lemma toy_restricts: "parse_restricts toy_jose"
  by (auto simp: parse_restricts_def toy_jose_def split: if_splits)

lemma toy_signs: "signs_for toy_jose ''k'' toy_header [''a'', ''k'']"
  by (auto simp: signs_for_def toy_jose_def toy_header_def cut_def)

lemma toy_verifies: "Verify (\<lambda>_. []) toy_jose [''a'', ''k''] ''.k.payload'' = Inr ''payload''"
  by (rule signed_verifies [OF toy_signs, of "\<lambda>_. []" "''k''"])
    (simp_all add: NewJOSESetSigner_def Sign_def toy_jose_def toy_header_def cut_def allowedSETAlgorithms_def
      algNone_def lookup_update)

theorem verify_accepts_iff_witness: "Verify (\<lambda>_. []) toy_jose [''a'', ''k''] ''.k.payload'' = Inr ''payload''"
  unfolding verify_accepts_iff [OF toy_restricts]
  by (simp add: toy_jose_def toy_header_def cut_def allowedSETAlgorithms_def algNone_def Cons_eq_append_conv lookup_update)

theorem sign_verify_witness: "Verify (\<lambda>_. []) toy_jose [''a'', ''k''] ''.k.payload'' = Inr ''payload''"
  by (rule sign_verify [OF toy_signs, of "\<lambda>_. []" "''k''"])
    (simp_all add: NewJOSESetSigner_def Sign_def toy_jose_def toy_header_def cut_def allowedSETAlgorithms_def
      algNone_def lookup_update)

end
