(* ===== verification/Problem_Details.thy ===== *)
theory Problem_Details
  imports Ssf_Wire
begin

text \<open>
  The RFC 7807 codec of \<open>errors.go\<close>: \<open>ProblemDetails.MarshalJSON\<close>, \<open>UnmarshalJSON\<close> and their
  helpers. Both walk an object with \<open>json.Decoder.Token\<close>, which \<open>token_loop\<close> models with the
  decoder's tolerance: input that ends where a member could start ends the loop without an error.
\<close>

section \<open>Reading members by token\<close>

text \<open>
  The loop \<open>for dec.More()\<close> inside an object. \<open>later\<close> says that a member was read, so that a
  comma must come first. The result holds each key as written, the source text and the value, and
  the input from the point where \<open>More\<close> answered false.
\<close>

fun token_loop :: "nat \<Rightarrow> bool \<Rightarrow> string \<Rightarrow> ((string \<times> string \<times> json) list \<times> string) option" where
  "token_loop 0 later s = None"
| "token_loop (Suc n) later s =
     (case skip_ws s of
        [] \<Rightarrow> Some ([], [])
      | c # t \<Rightarrow>
          if c = CHR ''}'' \<or> c = CHR '']'' then Some ([], c # t)
          else if later \<and> c \<noteq> CHR '','' then None
          else (case (if later then skip_ws t else c # t) of
                  [] \<Rightarrow> None
                | q # u \<Rightarrow>
                    if q \<noteq> dquote then None
                    else (case scan_str u of
                            None \<Rightarrow> None
                          | Some (key, r) \<Rightarrow>
                              (case skip_ws r of
                                 [] \<Rightarrow> None
                               | d # v \<Rightarrow>
                                   if d \<noteq> CHR '':'' then None
                                   else (case parse_prefix v of
                                           None \<Rightarrow> None
                                         | Some (j, w) \<Rightarrow>
                                             map_option (\<lambda>(ms, z). ((key, taken (skip_ws v) w, j) # ms, z))
                                               (token_loop n True w))))))"

text \<open>\<open>None\<close>: no object, or a token error.\<close>

definition token_members :: "string \<Rightarrow> ((string \<times> string \<times> json) list \<times> string) option" where
  "token_members s =
     (case skip_ws s of
        [] \<Rightarrow> None
      | c # t \<Rightarrow> if c = CHR ''{'' then token_loop (Suc (length t)) False t else None)"

section \<open>Marshalling\<close>

definition problemDetailsRegistered :: "string list" where
  "problemDetailsRegistered = [''type'', ''title'', ''status'', ''detail'', ''instance'']"

record extension_member =
  em_key :: string
  em_value :: string

definition extensionMembers :: "string \<Rightarrow> extension_member list option" where
  "extensionMembers raw = map_option
     (\<lambda>(ms, _). map (\<lambda>(k, src, _). \<lparr>em_key = unquote k, em_value = src\<rparr>) ms) (token_members raw)"

text \<open>\<open>writeKey\<close> puts the key between quotes as it is.\<close>

fun write_members :: "(string \<times> string) list \<Rightarrow> string" where
  "write_members [] = []"
| "write_members ((k, v) # ms) =
     dquote # k @ [dquote, CHR '':''] @ v @ (if ms = [] then [] else CHR '','' # write_members ms)"

definition registered_members :: "problem_details \<Rightarrow> (string \<times> string) list" where
  "registered_members p = map (\<lambda>(k, j). (k, jprint j))
     ((if pd_type p = [] then [] else [(''type'', jstring (pd_type p))])
      @ (if pd_title p = [] then [] else [(''title'', jstring (pd_title p))])
      @ (if pd_status p = 0 then [] else [(''status'', jint (pd_status p))])
      @ (if pd_detail p = [] then [] else [(''detail'', jstring (pd_detail p))])
      @ (if pd_instance p = [] then [] else [(''instance'', jstring (pd_instance p))]))"

definition problem_MarshalJSON :: "problem_details \<Rightarrow> string option" where
  "problem_MarshalJSON p =
     (case (if pd_extensions p = [] then Some [] else extensionMembers (pd_extensions p)) of
        None \<Rightarrow> None
      | Some ext \<Rightarrow> Some (CHR ''{'' # write_members
          (registered_members p @ map (\<lambda>m. (em_key m, em_value m)) ext) @ ''}''))"

text \<open>\<open>json.Marshal(p)\<close> checks and compacts what the method returned.\<close>

definition marshal_problem :: "problem_details \<Rightarrow> string option" where
  "marshal_problem p = map_option jprint (Option.bind (problem_MarshalJSON p) raw_json)"

section \<open>Unmarshalling\<close>

definition assignRegisteredProblemMember ::
  "problem_details \<Rightarrow> string \<Rightarrow> json \<Rightarrow> json_err + problem_details" where
  "assignRegisteredProblemMember p key v =
     (if key = ''type'' then bind_r (dec_str v (pd_type p)) (\<lambda>s. Inr (p\<lparr>pd_type := s\<rparr>))
      else if key = ''title'' then bind_r (dec_str v (pd_title p)) (\<lambda>s. Inr (p\<lparr>pd_title := s\<rparr>))
      else if key = ''status'' then bind_r (dec_int v (pd_status p)) (\<lambda>i. Inr (p\<lparr>pd_status := i\<rparr>))
      else if key = ''detail'' then bind_r (dec_str v (pd_detail p)) (\<lambda>s. Inr (p\<lparr>pd_detail := s\<rparr>))
      else bind_r (dec_str v (pd_instance p)) (\<lambda>s. Inr (p\<lparr>pd_instance := s\<rparr>)))"

text \<open>The loop body: a registered member is assigned, any other goes to the extension buffer.\<close>

fun assign_members ::
  "(string \<times> string \<times> json) list \<Rightarrow> problem_details \<times> (string \<times> string) list
     \<Rightarrow> json_err + problem_details \<times> (string \<times> string) list" where
  "assign_members [] st = Inr st"
| "assign_members ((k, src, v) # ms) (p, ext) =
     (if unquote k \<in> set problemDetailsRegistered
      then bind_r (assignRegisteredProblemMember p (unquote k) v) (\<lambda>p'. assign_members ms (p', ext))
      else assign_members ms (p, ext @ [(unquote k, src)]))"

definition problem_UnmarshalJSON :: "string \<Rightarrow> problem_details result" where
  "problem_UnmarshalJSON data =
     (case token_members data of
        None \<Rightarrow> Inl (JsonErr Syntax_Error)
      | Some (ms, rest) \<Rightarrow>
          bind_r (of_json (assign_members ms (zero_problem, []))) (\<lambda>(p, ext).
            if rest = [] \<or> hd rest \<noteq> CHR ''}'' then Inl (JsonErr Syntax_Error)
            else Inr (p\<lparr>pd_extensions := if ext = [] then []
                   else CHR ''{'' # write_members ext @ ''}''\<rparr>)))"

text \<open>\<open>json.Unmarshal(data, p)\<close> hands the method one complete value.\<close>

definition unmarshal_problem :: "string \<Rightarrow> problem_details result" where
  "unmarshal_problem data =
     (case parse data of
        None \<Rightarrow> Inl (JsonErr Syntax_Error)
      | Some _ \<Rightarrow> problem_UnmarshalJSON (skip_ws data))"

section \<open>Printed objects are read back member by member\<close>

lemma token_loop_print:
  assumes "wf_members ms" and "length ms < n"
  shows "token_loop n later ((if later \<and> ms \<noteq> [] then CHR '','' # print_members ms else print_members ms) @ CHR ''}'' # r)
    = Some (map (\<lambda>(k, src, v). (k, jprint v, v)) ms, CHR ''}'' # r)"
  using assms
proof (induction ms arbitrary: n later)
  case Nil
  then obtain n' where "n = Suc n'" by (cases n) auto
  then show ?case by simp
next
  case (Cons m ms)
  obtain k src v where m: "m = (k, src, v)" by (cases m)
  obtain n' where n: "n = Suc n'" using Cons.prems(2) by (cases n) auto
  let ?tail = "(if ms = [] then [] else CHR '','' # print_members ms) @ CHR ''}'' # r"
  have wf: "wf_str k" "wf_json v" "wf_members ms" using Cons.prems(1) by (simp_all add: m)
  have val: "parse_prefix (jprint v @ ?tail) = Some (v, ?tail)"
    using wf(2) by (rule parse_prefix_jprint) simp
  have rest: "token_loop n' True ?tail
      = Some (map (\<lambda>(k, src, v). (k, jprint v, v)) ms, CHR ''}'' # r)"
    using Cons.IH [of n' True] wf(3) Cons.prems(2) by (simp add: n split: if_splits)
  show ?case
    using wf val rest by (cases later) (simp_all add: m n)
qed

lemma print_members_length: "length ms \<le> length (print_members ms)"
  by (induction ms) (auto split: prod.splits)

lemma token_members_print:
  assumes "wf_members ms"
  shows "token_members (jprint (JObj ms)) = Some (map (\<lambda>(k, src, v). (k, jprint v, v)) ms, ''}'')"
proof -
  have "length ms < Suc (length (print_members ms @ ''}''))" using print_members_length [of ms] by simp
  moreover have "skip_ws (CHR ''{'' # t) = CHR ''{'' # t" for t by (simp add: skip_ws_def is_ws_def)
  ultimately show ?thesis using token_loop_print [OF assms, of _ False "[]"]
    by (simp add: token_members_def del: token_loop.simps)
qed

section \<open>Escaped documents\<close>

text \<open>What the encoder wrote needs no further escaping.\<close>

lemma esc_char_cases:
  "esc_char c = [c] \<and> \<not> html_char c \<and> c \<noteq> backslash \<or> hd (esc_char c) = backslash \<and> of_char c < (128 :: nat)"
  by (auto simp: esc_char_def esc_byte_def html_char_def)

lemma esc_char_nonempty [simp]: "esc_char c \<noteq> []"
  by (simp add: esc_char_def esc_byte_def)

lemma quote_take1:
  assumes "(128 :: nat) \<le> of_char d" "d \<noteq> CHR 0xE2" shows "take 1 (quote s) = [d] \<longleftrightarrow> take 1 s = [d]"
proof (cases s)
  case (Cons c t)
  have "take 1 (esc_char c @ quote t) = [d] \<longleftrightarrow> c = d"
    using esc_char_cases [of c] assms by (cases "esc_char c") auto
  then show ?thesis using assms Cons by (auto simp: quote.simps line_sep_def par_sep_def)
qed (simp add: quote.simps)

lemma quote_take2:
  assumes "(128 :: nat) \<le> of_char d" "(128 :: nat) \<le> of_char e" "d \<noteq> CHR 0xE2" "e \<noteq> CHR 0xE2"
  shows "take 2 (quote s) = [d, e] \<longleftrightarrow> take 2 s = [d, e]"
proof (cases s)
  case (Cons c t)
  show ?thesis
  proof (cases "line_sep s \<or> par_sep s")
    case True
    with Cons assms show ?thesis by (auto simp: quote.simps line_sep_def par_sep_def)
  next
    case False
    then have q: "quote s = esc_char c @ quote t" by (simp add: Cons quote.simps)
    show ?thesis
    proof (cases "esc_char c = [c]")
      case True
      then show ?thesis using quote_take1 [OF assms(2,4), of t] unfolding q
        by (simp add: Cons numeral_2_eq_2)
    next
      case no: False
      then have "hd (esc_char c) = backslash" "of_char c < (128 :: nat)" using esc_char_cases [of c] by auto
      moreover obtain y ys where "esc_char c = y # ys" using no
        by (cases "esc_char c") (auto simp: esc_char_def esc_byte_def split: if_splits)
      ultimately show ?thesis using assms unfolding q by (auto simp: Cons numeral_2_eq_2)
    qed
  qed
qed (simp add: quote.simps)

lemma sep_quote:
  "line_sep (c # quote s) \<longleftrightarrow> line_sep (c # s)" "par_sep (c # quote s) \<longleftrightarrow> par_sep (c # s)"
  using quote_take2 [of "CHR 0x80" "CHR 0xA8" s] quote_take2 [of "CHR 0x80" "CHR 0xA9" s]
  by (simp_all add: line_sep_def par_sep_def numeral_3_eq_3 numeral_2_eq_2)

lemma esc_html_ascii:
  "list_all (\<lambda>c. of_char c < (128 :: nat) \<and> \<not> html_char c) u \<Longrightarrow> esc_html (u @ t) = u @ esc_html t"
  by (induction u) (auto simp: line_sep_def par_sep_def)

lemma esc_char_ascii:
  assumes "esc_char c \<noteq> [c]"
  shows "list_all (\<lambda>d. of_char d < (128 :: nat) \<and> \<not> html_char d) (esc_char c)"
proof -
  have "of_char (hex_char d) < (128 :: nat) \<and> \<not> html_char (hex_char d)" if "d < 16" for d
  proof -
    have "of_char (hex_char d) = (if d < 10 then 48 + d else 87 + d)"
      using that by (simp add: hex_char_def take_bit_nat_eq_self)
    then show ?thesis using that by (auto simp: html_char_def split: if_splits)
  qed
  then have "list_all (\<lambda>d. of_char d < (128 :: nat) \<and> \<not> html_char d) (esc_byte c)"
    if "of_char c < (32 :: nat) \<or> html_char c"
    using low_byte [OF that] by (simp add: esc_byte_def html_char_def)
  moreover have "\<not> html_char x" if "x \<in> {backslash, dquote, CHR ''b'', CHR ''f'', CHR ''n'', CHR ''r'', CHR ''t''}" for x
    using that by (auto simp: html_char_def)
  ultimately show ?thesis using assms
    by (auto simp: esc_char_def split: if_splits)
qed

lemma esc_html_quote [simp]: "esc_html (quote s) = quote s"
proof (induction s rule: quote.induct)
  case 1
  then show ?case by (simp add: quote.simps)
next
  case (2 c s)
  consider "line_sep (c # s)" | "\<not> line_sep (c # s)" "par_sep (c # s)"
    | "\<not> line_sep (c # s)" "\<not> par_sep (c # s)" by blast
  then show ?case
  proof cases
    case 1
    with 2 esc_html_ascii [of "backslash # ''u2028''" "quote (drop 2 s)"] show ?thesis
      by (simp add: quote.simps html_char_def)
  next
    case 2
    with "2.IH" esc_html_ascii [of "backslash # ''u2029''" "quote (drop 2 s)"] show ?thesis
      by (simp add: quote.simps html_char_def)
  next
    case 3
    then have q: "quote (c # s) = esc_char c @ quote s" by (simp add: quote.simps)
    show ?thesis
    proof (cases "esc_char c = [c]")
      case True
      then have "\<not> html_char c" using esc_char_cases [of c] by (auto simp: html_char_def)
      with True 3 2 show ?thesis unfolding q by (simp add: sep_quote)
    next
      case False
      with esc_html_ascii [OF esc_char_ascii [OF False]] 3 2 show ?thesis unfolding q by simp
    qed
  qed
qed

lemma jescape_simps [simp]:
  "jescape (jstring s) = jstring s" "jescape (jint i) = jint i"
  by simp_all

definition escaped_pairs :: "(string \<times> json) list \<Rightarrow> bool" where
  "escaped_pairs ms \<longleftrightarrow> (\<forall>(k, v) \<in> set ms. esc_html k = k \<and> jescape v = v)"

lemma escaped_pairs_simps [simp]:
  "escaped_pairs []" "escaped_pairs ((k, v) # ms) \<longleftrightarrow> esc_html k = k \<and> jescape v = v \<and> escaped_pairs ms"
  "escaped_pairs (ms @ ns) \<longleftrightarrow> escaped_pairs ms \<and> escaped_pairs ns"
  by (auto simp: escaped_pairs_def)

lemma jescape_mk_obj: "escaped_pairs ms \<Longrightarrow> jescape (mk_obj ms) = mk_obj ms"
proof -
  have "escaped_pairs ms \<Longrightarrow> escape_members (map (\<lambda>(k, v). (k, jprint v, v)) ms) = map (\<lambda>(k, v). (k, jprint v, v)) ms"
    by (induction ms) auto
  then show "escaped_pairs ms \<Longrightarrow> jescape (mk_obj ms) = mk_obj ms" by (simp add: mk_obj_def)
qed

lemma raw_json_mk_obj: "wf_pairs ms \<Longrightarrow> escaped_pairs ms \<Longrightarrow> raw_json (jprint (mk_obj ms)) = Some (mk_obj ms)"
  by (simp add: raw_json_def jescape_mk_obj)

section \<open>Round trip\<close>

text \<open>
  Extension members the codec keeps: none, or a compact escaped object of members whose names need
  no escape and are not registered ones.
\<close>

definition ext_pairs_ok :: "(string \<times> json) list \<Rightarrow> bool" where
  "ext_pairs_ok ext \<longleftrightarrow> wf_pairs ext \<and> escaped_pairs ext
     \<and> (\<forall>(k, v) \<in> set ext. unquote k = k \<and> k \<notin> set problemDetailsRegistered)"

definition problem_ok :: "problem_details \<Rightarrow> bool" where
  "problem_ok p \<longleftrightarrow> int64 (pd_status p)
     \<and> (pd_extensions p = [] \<or> (\<exists>ext. ext \<noteq> [] \<and> ext_pairs_ok ext \<and> pd_extensions p = jprint (mk_obj ext)))"

definition reg_pairs :: "problem_details \<Rightarrow> (string \<times> json) list" where
  "reg_pairs p = om_str ''type'' (pd_type p) @ om_str ''title'' (pd_title p)
     @ om_int ''status'' (pd_status p) @ om_str ''detail'' (pd_detail p)
     @ om_str ''instance'' (pd_instance p)"

text \<open>Names that JSON writes as they are.\<close>

definition plain_key :: "string \<Rightarrow> bool" where
  "plain_key s \<longleftrightarrow> list_all (\<lambda>c. 32 \<le> (of_char c :: nat) \<and> (of_char c :: nat) < 128
     \<and> c \<noteq> dquote \<and> c \<noteq> backslash \<and> \<not> html_char c) s"

lemma quote_plain: "plain_key s \<Longrightarrow> quote s = s"
proof (induction s)
  case (Cons c s)
  then have "esc_char c = [c]" "\<not> line_sep (c # s)" "\<not> par_sep (c # s)"
    by (auto simp: plain_key_def esc_char_def line_sep_def par_sep_def)
  with Cons show ?case by (simp add: plain_key_def quote.simps)
qed (simp add: quote.simps)

lemma unquote_plain: "plain_key s \<Longrightarrow> unquote s = s"
  using unquote_quote [of s] by (simp add: quote_plain)

lemma plain_registered: "list_all plain_key problemDetailsRegistered"
  by (simp add: problemDetailsRegistered_def plain_key_def html_char_def)

lemma quote_registered:
  "quote ''type'' = ''type''" "quote ''title'' = ''title''" "quote ''status'' = ''status''"
  "quote ''detail'' = ''detail''" "quote ''instance'' = ''instance''"
  using plain_registered by (simp_all add: problemDetailsRegistered_def quote_plain)

lemma unquote_registered:
  "unquote ''type'' = ''type''" "unquote ''title'' = ''title''" "unquote ''status'' = ''status''"
  "unquote ''detail'' = ''detail''" "unquote ''instance'' = ''instance''"
  using plain_registered by (simp_all add: problemDetailsRegistered_def unquote_plain)

lemma write_members_append_mk:
  "write_members (map (\<lambda>(k, v). (k, jprint v)) ms) = print_members (map (\<lambda>(k, v). (k, jprint v, v)) ms)"
  by (induction ms) auto

lemma write_mk_obj: "CHR ''{'' # write_members (map (\<lambda>(k, v). (k, jprint v)) ms) @ ''}'' = jprint (mk_obj ms)"
  by (simp add: write_members_append_mk mk_obj_def)

lemma registered_reg: "registered_members p = map (\<lambda>(k, v). (k, jprint v)) (reg_pairs p)"
  by (simp add: registered_members_def reg_pairs_def om_defs quote_registered)

lemma reg_pairs_ok [simp]: "wf_pairs (reg_pairs p)" "escaped_pairs (reg_pairs p)"
  by (simp_all add: reg_pairs_def om_defs)

lemma token_mk_obj:
  assumes "wf_pairs ms"
  shows "token_members (jprint (mk_obj ms)) = Some (map (\<lambda>(k, v). (k, jprint v, v)) ms, ''}'')"
proof -
  let ?ms = "map (\<lambda>(k, v). (k, jprint v, v)) ms"
  have "wf_members ?ms" using assms by (simp only: wf_members_map_mk wf_pairs_def)
  from token_members_print [OF this] show ?thesis by (simp add: mk_obj_def comp_def case_prod_unfold)
qed

lemma extensionMembers_mk_obj:
  "ext_pairs_ok ext \<Longrightarrow>
     extensionMembers (jprint (mk_obj ext)) = Some (map (\<lambda>(k, v). \<lparr>em_key = k, em_value = jprint v\<rparr>) ext)"
  by (auto simp: extensionMembers_def ext_pairs_ok_def token_mk_obj)

lemma print_obj_nonempty: "jprint (mk_obj ms) \<noteq> []"
  by (simp add: mk_obj_def)

lemma marshal_ok:
  assumes "ext_pairs_ok ext" and "pd_extensions p = (if ext = [] then [] else jprint (mk_obj ext))"
  shows "problem_MarshalJSON p = Some (jprint (mk_obj (reg_pairs p @ ext)))"
    and "marshal_problem p = Some (jprint (mk_obj (reg_pairs p @ ext)))"
proof -
  have "(if pd_extensions p = [] then Some [] else extensionMembers (pd_extensions p))
      = Some (map (\<lambda>(k, v). \<lparr>em_key = k, em_value = jprint v\<rparr>) ext)"
    using assms by (cases "ext = []") (simp_all add: extensionMembers_mk_obj print_obj_nonempty)
  then show m: "problem_MarshalJSON p = Some (jprint (mk_obj (reg_pairs p @ ext)))"
    unfolding write_mk_obj [symmetric]
    by (simp add: problem_MarshalJSON_def registered_reg case_prod_unfold comp_def)
  show "marshal_problem p = Some (jprint (mk_obj (reg_pairs p @ ext)))"
    using assms(1) by (simp add: marshal_problem_def m ext_pairs_ok_def raw_json_mk_obj)
qed

lemma assign_ext:
  assumes "ext_pairs_ok ext"
  shows "assign_members (map (\<lambda>(k, v). (k, jprint v, v)) ext) (p, e)
    = Inr (p, e @ map (\<lambda>(k, v). (k, jprint v)) ext)"
  using assms
proof (induction ext arbitrary: e)
  case (Cons m ext)
  then show ?case by (cases m) (auto simp: ext_pairs_ok_def)
qed simp

lemma assign_append:
  "assign_members (xs @ ys) st = bind_r (assign_members xs st) (assign_members ys)"
proof (induction xs st rule: assign_members.induct)
  case (2 k src v ms p ext)
  then show ?case by (auto simp: bind_r_def split: sum.split)
qed simp

abbreviation "obj_entries ms \<equiv> map (\<lambda>(k, v). (k, jprint v, v)) ms"

lemma assign_one:
  "pd_type p = [] \<Longrightarrow> assign_members (obj_entries (om_str ''type'' s)) (p, e) = Inr (p\<lparr>pd_type := s\<rparr>, e)"
  "pd_title p = [] \<Longrightarrow> assign_members (obj_entries (om_str ''title'' s)) (p, e) = Inr (p\<lparr>pd_title := s\<rparr>, e)"
  "pd_detail p = [] \<Longrightarrow> assign_members (obj_entries (om_str ''detail'' s)) (p, e) = Inr (p\<lparr>pd_detail := s\<rparr>, e)"
  "pd_instance p = [] \<Longrightarrow> assign_members (obj_entries (om_str ''instance'' s)) (p, e) = Inr (p\<lparr>pd_instance := s\<rparr>, e)"
  "int64 i \<Longrightarrow> pd_status p = 0 \<Longrightarrow>
     assign_members (obj_entries (om_int ''status'' i)) (p, e) = Inr (p\<lparr>pd_status := i\<rparr>, e)"
  by (cases p; simp add: om_defs problemDetailsRegistered_def assignRegisteredProblemMember_def)+

lemma assign_reg:
  assumes "int64 (pd_status p)"
  shows "assign_members (obj_entries (reg_pairs p)) (zero_problem, []) = Inr (p\<lparr>pd_extensions := []\<rparr>, [])"
proof -
  have "assign_members (obj_entries (reg_pairs p)) (zero_problem, [])
    = Inr (zero_problem\<lparr>pd_type := pd_type p, pd_title := pd_title p, pd_status := pd_status p,
        pd_detail := pd_detail p, pd_instance := pd_instance p\<rparr>, [])"
    using assms by (simp add: reg_pairs_def assign_append assign_one zero_problem_def)
  then show ?thesis by (cases p) (simp add: zero_problem_def)
qed

lemma unmarshal_obj:
  assumes "ext_pairs_ok ext" and "int64 (pd_status p)"
    and "pd_extensions p = (if ext = [] then [] else jprint (mk_obj ext))"
  shows "unmarshal_problem (jprint (mk_obj (reg_pairs p @ ext))) = Inr p"
proof -
  have wf: "wf_pairs (reg_pairs p @ ext)" using assms(1) by (simp add: ext_pairs_ok_def)
  then have "skip_ws (jprint (mk_obj (reg_pairs p @ ext))) = jprint (mk_obj (reg_pairs p @ ext))"
    using skip_ws_jprint [of "mk_obj (reg_pairs p @ ext)" "[]"] by simp
  moreover have "assign_members (obj_entries (reg_pairs p @ ext)) (zero_problem, [])
      = Inr (p\<lparr>pd_extensions := []\<rparr>, map (\<lambda>(k, v). (k, jprint v)) ext)"
    using assign_reg [OF assms(2)] assign_ext [OF assms(1)] by (simp add: assign_append)
  ultimately show ?thesis
    using wf assms(3) token_mk_obj [OF wf]
    by (cases p) (auto simp: unmarshal_problem_def problem_UnmarshalJSON_def of_json_def write_mk_obj)
qed


definition sample_problem :: problem_details where
  "sample_problem = zero_problem\<lparr>pd_title := ''Stream Not Found'', pd_status := 404,
     pd_extensions := jprint (mk_obj [(''trace'', jstring ''x'')])\<rparr>"

lemma sample_problem_ok: "problem_ok sample_problem"
proof -
  have "plain_key ''trace''" by (simp add: plain_key_def html_char_def)
  then have "ext_pairs_ok [(''trace'', jstring ''x'')]"
    using wf_str_quote [of "''trace''"] esc_html_quote [of "''trace''"] unquote_quote [of "''trace''"]
    by (simp add: ext_pairs_ok_def problemDetailsRegistered_def quote_plain)
  then show ?thesis
    by (auto simp: problem_ok_def sample_problem_def zero_problem_def int64_def intro!: exI)
qed


text \<open>
  Extension names are written back without escapes: there is a valid problem document,
  its one member named by an \<open>x\<close> and a double quote, that is accepted and whose decoded form can no longer
  be marshalled.
\<close>

theorem extension_name_unescaped:
  "\<exists>data p. parse data \<noteq> None \<and> unmarshal_problem data = Inr p \<and> marshal_problem p = None"
proof -
  let ?ms = "[(quote [CHR ''x'', dquote], JNull)]"
  let ?data = "jprint (mk_obj ?ms)"
  let ?p = "zero_problem\<lparr>pd_extensions := CHR ''{'' # write_members [([CHR ''x'', dquote], ''null'')] @ ''}''\<rparr>"
  have wf: "wf_pairs ?ms" by simp
  then have "skip_ws ?data = ?data" using skip_ws_jprint [of "mk_obj ?ms" "[]"] by simp
  then have un: "unmarshal_problem ?data = Inr ?p"
    using wf token_mk_obj [OF wf]
    by (simp add: unmarshal_problem_def problem_UnmarshalJSON_def of_json_def problemDetailsRegistered_def)
  have key: "scan_str (CHR ''x'' # dquote # t) = Some (''x'', t)" for t
    by (simp add: scan_str.simps plain_char_def)
  have "skip_ws (CHR ''{'' # t) = CHR ''{'' # t" for t by (simp add: skip_ws_def is_ws_def)
  then have "token_members (pd_extensions ?p) = None"
    using key by (simp add: token_members_def)
  then have "marshal_problem ?p = None"
    by (simp add: marshal_problem_def problem_MarshalJSON_def extensionMembers_def)
  with un wf show ?thesis by (intro exI [of _ ?data] exI [of _ ?p]) simp
qed

end
