(* ===== verification/Transmitter_Api.thy ===== *)
theory Transmitter_Api
  imports Ssf_Wire
begin

text \<open>
  The \<open>Transmitter\<close> interface (\<open>transmitter/transmitter.go\<close>) as a record of its methods over a
  state of the implementation's choice, and the embeddable \<open>NotImplementedTransmitter\<close>. A method
  is one atomic step of the implementation; the context argument is left out, an implementation
  that is cancelled returns an error like any other. A list may hold nil pointers, as \<open>[]*ssf.StreamConfig\<close> may.
\<close>

record ('sid, 's) transmitter =
  tm_GetConfig :: "string \<Rightarrow> 's \<Rightarrow> stream_config result \<times> 's"
  tm_ListConfig :: "string \<Rightarrow> 's \<Rightarrow> (stream_config option list \<times> string) result \<times> 's"
  tm_CreateConfig :: "stream_config \<Rightarrow> 's \<Rightarrow> stream_config result \<times> 's"
  tm_UpdateConfig :: "stream_config \<Rightarrow> 's \<Rightarrow> stream_config result \<times> 's"
  tm_DeleteConfig :: "string \<Rightarrow> 's \<Rightarrow> unit result \<times> 's"
  tm_GetStatus :: "string \<Rightarrow> string \<Rightarrow> 's \<Rightarrow> status_response result \<times> 's"
  tm_UpdateStatus :: "string \<Rightarrow> status_update_request \<Rightarrow> 's \<Rightarrow> status_response result \<times> 's"
  tm_AddSubject :: "string \<Rightarrow> 'sid add_subject_request \<Rightarrow> 's \<Rightarrow> unit result \<times> 's"
  tm_RemoveSubject :: "string \<Rightarrow> 'sid remove_subject_request \<Rightarrow> 's \<Rightarrow> unit result \<times> 's"
  tm_Verify :: "string \<Rightarrow> verification_request \<Rightarrow> 's \<Rightarrow> unit result \<times> 's"
  tm_PollEvents :: "string \<Rightarrow> poll_request \<Rightarrow> 's \<Rightarrow> poll_response result \<times> 's"

abbreviation not_implemented :: "'s \<Rightarrow> 'a result \<times> 's" where
  "not_implemented s \<equiv> (Inl (Sentinel ErrNotImplemented), s)"

definition NotImplementedTransmitter :: "('sid, 's) transmitter" where
  "NotImplementedTransmitter =
     \<lparr>tm_GetConfig = (\<lambda>_. not_implemented),
      tm_ListConfig = (\<lambda>_. not_implemented),
      tm_CreateConfig = (\<lambda>_. not_implemented),
      tm_UpdateConfig = (\<lambda>_. not_implemented),
      tm_DeleteConfig = (\<lambda>_. not_implemented),
      tm_GetStatus = (\<lambda>_ _. not_implemented),
      tm_UpdateStatus = (\<lambda>_ _. not_implemented),
      tm_AddSubject = (\<lambda>_ _. not_implemented),
      tm_RemoveSubject = (\<lambda>_ _. not_implemented),
      tm_Verify = (\<lambda>_ _. not_implemented),
      tm_PollEvents = (\<lambda>_ _. not_implemented)\<rparr>"

end
