(* ===== verification/Http_Handlers.thy ===== *)
theory Http_Handlers
  imports Problem_Details Transmitter_Api
begin

text \<open>
  The server side of the HTTP API: authorization (\<open>transmitter/auth.go\<close>), the endpoint handlers
  (\<open>transmitter/handlers.go\<close>), the mux (\<open>transmitter/mux.go\<close>) and the metadata document
  (\<open>transmitter/wellknown.go\<close>).

  A handler maps a request and the transmitter's state to a response and a state. A request holds
  what the handlers read of it: method, path, query parameters in order, the body's bytes and the error
  that cut it short, if any. A response holds the headers in the order they are set.
\<close>

section \<open>Requests and responses\<close>

record http_request =
  rq_method :: string
  rq_path :: string
  rq_query :: "(string \<times> string) list"
  rq_body :: string
  rq_body_err :: "gerror option"

record http_response =
  rs_status :: int
  rs_headers :: "(string \<times> string) list"
  rs_body :: string

text \<open>\<open>r.URL.Query().Get(key)\<close>: the first value, or the empty string.\<close>

definition query_get :: "http_request \<Rightarrow> string \<Rightarrow> string" where
  "query_get rq k = (case map_of (rq_query rq) k of None \<Rightarrow> [] | Some v \<Rightarrow> v)"

definition contentTypeJSON :: string where "contentTypeJSON = ''application/json; charset=utf-8''"

definition contentTypeProblem :: string where "contentTypeProblem = ''application/problem+json''"

section \<open>Authorization\<close>

record stream_scope =
  ss_stream_id :: string
  ss_subject :: string

type_synonym auth_func = "http_request \<Rightarrow> stream_scope result"

definition AlwaysReject :: auth_func where
  "AlwaysReject rq = Inl (Sentinel ErrUnauthorized)"

definition AlwaysAllow :: auth_func where
  "AlwaysAllow rq = Inr \<lparr>ss_stream_id = [], ss_subject = []\<rparr>"

definition unauthorizedProblemType :: string where "unauthorizedProblemType = ''about:blank''"

definition problem_response :: "(string \<times> string) list \<Rightarrow> problem_details \<Rightarrow> http_response" where
  "problem_response hs p = \<lparr>rs_status = pd_status p,
     rs_headers = hs @ [(''Content-Type'', contentTypeProblem)],
     rs_body = (case marshal_problem p of None \<Rightarrow> [] | Some body \<Rightarrow> body)\<rparr>"

definition Default401Handler :: "gerror option \<Rightarrow> http_response" where
  "Default401Handler err = problem_response []
     (zero_problem\<lparr>pd_type := unauthorizedProblemType, pd_title := ''Unauthorized'', pd_status := 401,
        pd_detail := (case err of None \<Rightarrow> [] | Some e \<Rightarrow> error_text e)\<rparr>)"

section \<open>Writing responses\<close>

definition writeProblemStatus :: "(string \<times> string) list \<Rightarrow> int \<Rightarrow> string \<Rightarrow> string \<Rightarrow> http_response" where
  "writeProblemStatus hs status title detail = problem_response hs
     (zero_problem\<lparr>pd_type := unauthorizedProblemType, pd_title := title, pd_status := status,
        pd_detail := trim_space detail\<rparr>)"

definition writeAuthProblem :: "gerror \<Rightarrow> http_response" where
  "writeAuthProblem err = Default401Handler (Some err)"

definition writeProblem :: "gerror \<Rightarrow> http_response" where
  "writeProblem err =
     (case as_validation err of
        Some ve \<Rightarrow>
          writeProblemStatus [] 400 ''Validation Failed''
            (if ve_rule ve = [] then ve_reason ve
             else ve_reason ve @ '' (rule='' @ quoted (ve_rule ve) @ '' field='' @ quoted (ve_field ve) @ '')'')
      | None \<Rightarrow>
          if errors_is err ErrUnauthorized then writeAuthProblem err
          else if errors_is err ErrStreamNotFound
          then writeProblemStatus [] 404 ''Stream Not Found'' (error_text err)
          else if errors_is err ErrInvalidConfig
          then writeProblemStatus [] 400 ''Invalid Configuration'' (error_text err)
          else if errors_is err ErrNotImplemented
          then writeProblemStatus [] 501 ''Not Implemented'' (error_text err)
          else writeProblemStatus [] 500 ''Internal Server Error'' (error_text err))"

definition writeJSON :: "int \<Rightarrow> json option \<Rightarrow> http_response" where
  "writeJSON status v =
     (case v of
        None \<Rightarrow> writeProblem (Wrapf ''marshal response: '' (Opaque ''json: error calling MarshalJSON'') [])
      | Some j \<Rightarrow> \<lparr>rs_status = status, rs_headers = [(''Content-Type'', contentTypeJSON)], rs_body = jprint j\<rparr>)"

definition writeEmptyJSON :: "int \<Rightarrow> http_response" where
  "writeEmptyJSON status =
     \<lparr>rs_status = status, rs_headers = [(''Content-Type'', contentTypeJSON)], rs_body = ''{}''\<rparr>"

definition writeMethodNotAllowed :: "string \<Rightarrow> http_response" where
  "writeMethodNotAllowed allow =
     writeProblemStatus [(''Allow'', allow)] 405 ''Method Not Allowed'' (''allowed methods: '' @ allow)"

definition missingStreamIDErr :: gerror where
  "missingStreamIDErr = ValidationErr \<lparr>ve_rule = ''stream_id required'', ve_field = ''stream_id'',
     ve_reason = ''stream_id query parameter is required''\<rparr>"

section \<open>Reading requests\<close>

definition maxBody :: nat where "maxBody = 1048576"

definition body_error :: "string \<Rightarrow> string \<Rightarrow> gerror" where
  "body_error rule reason = ValidationErr \<lparr>ve_rule = rule, ve_field = ''body'', ve_reason = reason\<rparr>"

definition decodeJSONBody :: "(string \<Rightarrow> 'a result) \<Rightarrow> http_request \<Rightarrow> 'a result" where
  "decodeJSONBody dec rq =
     (if maxBody < length (rq_body rq) then Inl (body_error ''JSON body size'' (error_text MaxBytesErr))
      else (case rq_body_err rq of
              Some e \<Rightarrow> Inl (body_error ''JSON body size'' (error_text e))
            | None \<Rightarrow>
                if rq_body rq = [] then Inl (body_error ''JSON body decode'' ''request body is empty'')
                else (case dec (rq_body rq) of
                        Inl e \<Rightarrow> Inl (body_error ''JSON body decode'' (error_text e))
                      | Inr a \<Rightarrow> Inr a)))"

text \<open>\<open>runAuth\<close>: \<open>Some\<close> the rejection, or \<open>None\<close> to go on; the scope is dropped.\<close>

definition runAuth :: "auth_func option \<Rightarrow> http_request \<Rightarrow> http_response option" where
  "runAuth auth rq =
     (case auth of
        None \<Rightarrow> Some (Default401Handler (Some (Sentinel ErrUnauthorized)))
      | Some f \<Rightarrow> (case f rq of Inl err \<Rightarrow> Some (Default401Handler (Some err)) | Inr _ \<Rightarrow> None))"

section \<open>Endpoint handlers\<close>

text \<open>The two steps every handler ends with: report the error, or write the value.\<close>

definition reply :: "('a \<Rightarrow> http_response) \<Rightarrow> 'a result \<times> 's \<Rightarrow> http_response \<times> 's" where
  "reply ok r = (case r of (Inl e, s) \<Rightarrow> (writeProblem e, s) | (Inr a, s) \<Rightarrow> (ok a, s))"

definition with_body ::
  "(string \<Rightarrow> 'a result) \<Rightarrow> http_request \<Rightarrow> 's \<Rightarrow> ('a \<Rightarrow> http_response \<times> 's) \<Rightarrow> http_response \<times> 's" where
  "with_body dec rq s f =
     (case decodeJSONBody dec rq of Inl e \<Rightarrow> (writeProblem e, s) | Inr a \<Rightarrow> f a)"

definition enc_list :: "stream_config option list \<Rightarrow> string \<Rightarrow> json option" where
  "enc_list cs next_token =
     map_option (\<lambda>js. mk_obj ([(quote ''streams'', mk_arr js)] @ om_str ''next_page_token'' next_token))
       (those (map (\<lambda>c. case c of None \<Rightarrow> Some JNull | Some g \<Rightarrow> enc_config g) cs))"

definition handleListConfig :: "('sid, 's) transmitter \<Rightarrow> http_request \<Rightarrow> 's \<Rightarrow> http_response \<times> 's" where
  "handleListConfig t rq s =
     reply (\<lambda>(cs, next_token). writeJSON 200 (enc_list cs next_token))
       (tm_ListConfig t (query_get rq ''page_token'') s)"

definition handleGetConfig :: "('sid, 's) transmitter \<Rightarrow> string \<Rightarrow> 's \<Rightarrow> http_response \<times> 's" where
  "handleGetConfig t stream_id s = reply (\<lambda>c. writeJSON 200 (enc_config c)) (tm_GetConfig t stream_id s)"

definition unmarshal_config :: "delivery_registry \<Rightarrow> string \<Rightarrow> stream_config result" where
  "unmarshal_config reg data = of_json (unmarshal (dec_config reg) data)"

definition handleCreateConfig ::
  "delivery_registry \<Rightarrow> ('sid, 's) transmitter \<Rightarrow> http_request \<Rightarrow> 's \<Rightarrow> http_response \<times> 's" where
  "handleCreateConfig reg t rq s = with_body (unmarshal_config reg) rq s (\<lambda>cfg.
     reply (\<lambda>c. writeJSON 201 (enc_config c)) (tm_CreateConfig t cfg s))"

definition handleUpdateConfig ::
  "delivery_registry \<Rightarrow> ('sid, 's) transmitter \<Rightarrow> http_request \<Rightarrow> string \<Rightarrow> 's \<Rightarrow> http_response \<times> 's" where
  "handleUpdateConfig reg t rq stream_id s =
     (if stream_id = [] then (writeProblem missingStreamIDErr, s)
      else with_body (unmarshal_config reg) rq s (\<lambda>cfg.
        reply (\<lambda>c. writeJSON 200 (enc_config c)) (tm_UpdateConfig t (cfg\<lparr>sc_stream_id := stream_id\<rparr>) s)))"

definition handleDeleteConfig :: "('sid, 's) transmitter \<Rightarrow> string \<Rightarrow> 's \<Rightarrow> http_response \<times> 's" where
  "handleDeleteConfig t stream_id s =
     (if stream_id = [] then (writeProblem missingStreamIDErr, s)
      else reply (\<lambda>_. \<lparr>rs_status = 204, rs_headers = [], rs_body = []\<rparr>) (tm_DeleteConfig t stream_id s))"

definition ConfigHandler ::
  "delivery_registry \<Rightarrow> ('sid, 's) transmitter \<Rightarrow> auth_func option \<Rightarrow> http_request \<Rightarrow> 's \<Rightarrow> http_response \<times> 's" where
  "ConfigHandler reg t auth rq s =
     (case runAuth auth rq of
        Some resp \<Rightarrow> (resp, s)
      | None \<Rightarrow>
          (let stream_id = query_get rq ''stream_id'' in
           if rq_method rq = ''GET'' then
             if stream_id = [] then handleListConfig t rq s else handleGetConfig t stream_id s
           else if rq_method rq = ''POST'' then handleCreateConfig reg t rq s
           else if rq_method rq = ''PATCH'' then handleUpdateConfig reg t rq stream_id s
           else if rq_method rq = ''DELETE'' then handleDeleteConfig t stream_id s
           else (writeMethodNotAllowed ''GET, POST, PATCH, DELETE'', s)))"

definition handleGetStatus :: "('sid, 's) transmitter \<Rightarrow> http_request \<Rightarrow> string \<Rightarrow> 's \<Rightarrow> http_response \<times> 's" where
  "handleGetStatus t rq stream_id s =
     (let q = query_get rq ''subject'' in
      if q \<noteq> [] \<and> parse q = None
      then (writeProblem (ValidationErr \<lparr>ve_rule = ''subject is JSON'', ve_field = ''subject'',
              ve_reason = ''subject query parameter is not valid JSON''\<rparr>), s)
      else reply (\<lambda>r. writeJSON 200 (enc_status_response r)) (tm_GetStatus t stream_id q s))"

definition handleUpdateStatus :: "('sid, 's) transmitter \<Rightarrow> http_request \<Rightarrow> string \<Rightarrow> 's \<Rightarrow> http_response \<times> 's" where
  "handleUpdateStatus t rq stream_id s = with_body (\<lambda>d. of_json (unmarshal dec_status_update d)) rq s (\<lambda>req.
     reply (\<lambda>r. writeJSON 200 (enc_status_response r)) (tm_UpdateStatus t stream_id req s))"

definition StatusHandler ::
  "('sid, 's) transmitter \<Rightarrow> auth_func option \<Rightarrow> http_request \<Rightarrow> 's \<Rightarrow> http_response \<times> 's" where
  "StatusHandler t auth rq s =
     (case runAuth auth rq of
        Some resp \<Rightarrow> (resp, s)
      | None \<Rightarrow>
          (let stream_id = query_get rq ''stream_id'' in
           if stream_id = [] then (writeProblem missingStreamIDErr, s)
           else if rq_method rq = ''GET'' then handleGetStatus t rq stream_id s
           else if rq_method rq = ''POST'' then handleUpdateStatus t rq stream_id s
           else (writeMethodNotAllowed ''GET, POST'', s)))"

text \<open>The four endpoints that only accept POST differ in the body they decode and the method they call.\<close>

definition post_handler ::
  "(string \<Rightarrow> 'a result) \<Rightarrow> (string \<Rightarrow> 'a \<Rightarrow> 's \<Rightarrow> 'b result \<times> 's) \<Rightarrow> ('b \<Rightarrow> http_response)
     \<Rightarrow> auth_func option \<Rightarrow> http_request \<Rightarrow> 's \<Rightarrow> http_response \<times> 's" where
  "post_handler dec call ok auth rq s =
     (case runAuth auth rq of
        Some resp \<Rightarrow> (resp, s)
      | None \<Rightarrow>
          if rq_method rq \<noteq> ''POST'' then (writeMethodNotAllowed ''POST'', s)
          else (let stream_id = query_get rq ''stream_id'' in
                if stream_id = [] then (writeProblem missingStreamIDErr, s)
                else with_body dec rq s (\<lambda>req. reply ok (call stream_id req s))))"

definition AddSubjectHandler ::
  "(string \<Rightarrow> 'sid result) \<Rightarrow> ('sid, 's) transmitter \<Rightarrow> auth_func option \<Rightarrow> http_request \<Rightarrow> 's
     \<Rightarrow> http_response \<times> 's" where
  "AddSubjectHandler sid_parse t =
     post_handler (unmarshal_add_subject sid_parse) (tm_AddSubject t) (\<lambda>_. writeEmptyJSON 200)"

definition RemoveSubjectHandler ::
  "(string \<Rightarrow> 'sid result) \<Rightarrow> ('sid, 's) transmitter \<Rightarrow> auth_func option \<Rightarrow> http_request \<Rightarrow> 's
     \<Rightarrow> http_response \<times> 's" where
  "RemoveSubjectHandler sid_parse t =
     post_handler (unmarshal_remove_subject sid_parse) (tm_RemoveSubject t) (\<lambda>_. writeEmptyJSON 200)"

definition VerificationHandler ::
  "('sid, 's) transmitter \<Rightarrow> auth_func option \<Rightarrow> http_request \<Rightarrow> 's \<Rightarrow> http_response \<times> 's" where
  "VerificationHandler t =
     post_handler (\<lambda>d. of_json (unmarshal dec_verification_request d)) (tm_Verify t) (\<lambda>_. writeEmptyJSON 200)"

definition PollHandler ::
  "('sid, 's) transmitter \<Rightarrow> auth_func option \<Rightarrow> http_request \<Rightarrow> 's \<Rightarrow> http_response \<times> 's" where
  "PollHandler t =
     post_handler (\<lambda>d. of_json (unmarshal dec_poll_request d)) (tm_PollEvents t)
       (\<lambda>r. writeJSON 200 (Some (enc_poll_response r)))"

end
