(* ===== verification/Http_Mux.thy ===== *)
theory Http_Mux
  imports Http_Handlers
begin

text \<open>
  The two constructors that put handlers on paths: \<open>MuxHandler\<close> (\<open>transmitter/mux.go\<close>) and
  \<open>WellKnownHandler\<close> (\<open>transmitter/wellknown.go\<close>). A constructor that panics returns \<open>None\<close>.

  Of \<open>http.ServeMux\<close> the model has literal patterns: a request goes to the handler registered for
  its path, or gets the package's 404. Patterns with a host, a method, a wildcard or a final slash,
  which options could pass in, are not modelled, nor is the redirect of paths that are not clean.
\<close>

section \<open>Mux\<close>

definition DefaultStreamsPath :: string where "DefaultStreamsPath = ''/streams''"
definition DefaultStatusPath :: string where "DefaultStatusPath = ''/streams/status''"
definition DefaultAddSubjectPath :: string where "DefaultAddSubjectPath = ''/streams/subjects:add''"
definition DefaultRemoveSubjectPath :: string where "DefaultRemoveSubjectPath = ''/streams/subjects:remove''"
definition DefaultVerificationPath :: string where "DefaultVerificationPath = ''/streams/verify''"
definition DefaultPollPath :: string where "DefaultPollPath = ''/streams/poll''"

record mux_config =
  mc_streams :: string
  mc_status :: string
  mc_add_subject :: string
  mc_remove_subject :: string
  mc_verification :: string
  mc_poll :: string

type_synonym mux_option = "mux_config \<Rightarrow> mux_config"

definition WithStreamsPath :: "string \<Rightarrow> mux_option" where "WithStreamsPath p c = c\<lparr>mc_streams := p\<rparr>"
definition WithStatusPath :: "string \<Rightarrow> mux_option" where "WithStatusPath p c = c\<lparr>mc_status := p\<rparr>"
definition WithAddSubjectPath :: "string \<Rightarrow> mux_option" where "WithAddSubjectPath p c = c\<lparr>mc_add_subject := p\<rparr>"
definition WithRemoveSubjectPath :: "string \<Rightarrow> mux_option" where
  "WithRemoveSubjectPath p c = c\<lparr>mc_remove_subject := p\<rparr>"
definition WithVerificationPath :: "string \<Rightarrow> mux_option" where
  "WithVerificationPath p c = c\<lparr>mc_verification := p\<rparr>"
definition WithPollPath :: "string \<Rightarrow> mux_option" where "WithPollPath p c = c\<lparr>mc_poll := p\<rparr>"

definition defaultMuxConfig :: mux_config where
  "defaultMuxConfig = \<lparr>mc_streams = DefaultStreamsPath, mc_status = DefaultStatusPath,
     mc_add_subject = DefaultAddSubjectPath, mc_remove_subject = DefaultRemoveSubjectPath,
     mc_verification = DefaultVerificationPath, mc_poll = DefaultPollPath\<rparr>"

text \<open>The transmitter with what its handlers need besides it.\<close>

record ('sid, 's) service =
  sv_registry :: delivery_registry
  sv_sid_parse :: "string \<Rightarrow> 'sid result"
  sv_transmitter :: "('sid, 's) transmitter"

type_synonym 's handler = "http_request \<Rightarrow> 's \<Rightarrow> http_response \<times> 's"

definition mux_routes :: "('sid, 's) service \<Rightarrow> auth_func option \<Rightarrow> mux_config \<Rightarrow> (string \<times> 's handler) list" where
  "mux_routes sv auth c =
     (let t = sv_transmitter sv in
      [(mc_streams c, ConfigHandler (sv_registry sv) t auth),
       (mc_status c, StatusHandler t auth),
       (mc_add_subject c, AddSubjectHandler (sv_sid_parse sv) t auth),
       (mc_remove_subject c, RemoveSubjectHandler (sv_sid_parse sv) t auth),
       (mc_verification c, VerificationHandler t auth),
       (mc_poll c, PollHandler t auth)])"

text \<open>\<open>mux.Handle\<close> panics on an empty pattern and on one that is registered already.\<close>

definition MuxHandler ::
  "('sid, 's) service option \<Rightarrow> auth_func option \<Rightarrow> mux_option list \<Rightarrow> (string \<times> 's handler) list option" where
  "MuxHandler sv auth opts =
     (case (sv, auth) of
        (Some v, Some _) \<Rightarrow>
          (let routes = mux_routes v auth (fold (\<lambda>opt c. opt c) opts defaultMuxConfig)
           in if distinct (map fst routes) \<and> [] \<notin> fst ` set routes then Some routes else None)
      | _ \<Rightarrow> None)"

definition not_found_response :: http_response where
  "not_found_response = \<lparr>rs_status = 404,
     rs_headers = [(''Content-Type'', ''text/plain; charset=utf-8''), (''X-Content-Type-Options'', ''nosniff'')],
     rs_body = ''404 page not found'' @ [CHR 0x0A]\<rparr>"

definition serve_mux :: "(string \<times> 's handler) list \<Rightarrow> 's handler" where
  "serve_mux routes rq s =
     (case map_of routes (rq_path rq) of None \<Rightarrow> (not_found_response, s) | Some h \<Rightarrow> h rq s)"

section \<open>Metadata document\<close>

definition WellKnownPath :: string where "WellKnownPath = ''/.well-known/ssf-configuration''"

definition defaultWellKnownMaxAge :: int where "defaultWellKnownMaxAge = hour"

record well_known_config = wk_max_age :: int

definition WithCacheMaxAge :: "int \<Rightarrow> well_known_config \<Rightarrow> well_known_config" where
  "WithCacheMaxAge d c = c\<lparr>wk_max_age := d\<rparr>"

definition http_Error :: "(string \<times> string) list \<Rightarrow> string \<Rightarrow> int \<Rightarrow> http_response" where
  "http_Error hs msg status = \<lparr>rs_status = status,
     rs_headers = hs @ [(''Content-Type'', ''text/plain; charset=utf-8''), (''X-Content-Type-Options'', ''nosniff'')],
     rs_body = msg @ [CHR 0x0A]\<rparr>"

text \<open>
  \<open>int64(maxAge.Seconds())\<close>: the seconds as a \<open>float64\<close>, truncated. The model takes the exact quotient,
  which truncation gives for ages below 2^22 seconds (48 days) and for every whole number of seconds.
\<close>

definition whole_seconds :: "int \<Rightarrow> int" where
  "whole_seconds d = d div second"

definition WellKnownHandler ::
  "transmitter_config option \<Rightarrow> (well_known_config \<Rightarrow> well_known_config) list
     \<Rightarrow> (http_request \<Rightarrow> http_response) option" where
  "WellKnownHandler cfg opts =
     (case cfg of
        None \<Rightarrow> None
      | Some c \<Rightarrow>
          (let resolved = fold (\<lambda>opt r. opt r) opts \<lparr>wk_max_age = defaultWellKnownMaxAge\<rparr> in
           Some (\<lambda>rq.
             if rq_method rq \<noteq> ''GET'' \<and> rq_method rq \<noteq> ''HEAD''
             then http_Error [(''Allow'', ''GET'')] ''method not allowed'' 405
             else (case enc_transmitter_config c of
                     None \<Rightarrow> http_Error [] ''marshal transmitter config'' 500
                   | Some j \<Rightarrow> \<lparr>rs_status = 200,
                       rs_headers = [(''Content-Type'', ''application/json; charset=utf-8'')]
                         @ (if 0 < wk_max_age resolved
                            then [(''Cache-Control'', ''max-age='' @ itoa (whole_seconds (wk_max_age resolved)))]
                            else []),
                       rs_body = jprint j\<rparr>))))"

end
