(* ===== verification/Wire_Roundtrip.thy ===== *)
theory Wire_Roundtrip
  imports Ssf_Wire
begin

text \<open>
  What an encoder of \<open>Ssf_Wire\<close> writes, its decoder reads back: deliveries through the method
  registry, known or not, and stream configurations. And the
  registry's promise that a built-in method cannot be replaced.
\<close>

section \<open>Member names\<close>

lemma fold_names:
  "fold_case ''method'' = ''method''" "fold_case ''endpoint_url'' = ''endpoint_url''"
  "fold_case ''authorization_header'' = ''authorization_header''"
  "fold_case ''stream_id'' = ''stream_id''" "fold_case ''iss'' = ''iss''" "fold_case ''aud'' = ''aud''"
  "fold_case ''events_supported'' = ''events_supported''"
  "fold_case ''events_requested'' = ''events_requested''"
  "fold_case ''events_delivered'' = ''events_delivered''" "fold_case ''delivery'' = ''delivery''"
  "fold_case ''min_verification_interval'' = ''min_verification_interval''"
  "fold_case ''format'' = ''format''" "fold_case ''status'' = ''status''" "fold_case ''reason'' = ''reason''"
  "fold_case ''subject'' = ''subject''" "fold_case ''verified'' = ''verified''"
  "fold_case ''state'' = ''state''" "fold_case ''err'' = ''err''" "fold_case ''description'' = ''description''"
  "fold_case ''ack'' = ''ack''" "fold_case ''setErrs'' = ''seterrs''" "fold_case ''maxEvents'' = ''maxevents''"
  "fold_case ''returnImmediately'' = ''returnimmediately''" "fold_case ''sets'' = ''sets''"
  "fold_case ''moreAvailable'' = ''moreavailable''"
  by code_simp+

lemma bind_r_id [simp]: "bind_r (Inr a) Inr = Inr a"
  by simp

section \<open>Registry\<close>

text \<open>Every registry the program can reach by successful registrations.\<close>

inductive registry_reachable :: "delivery_registry \<Rightarrow> bool" where
  builtin: "registry_reachable builtinDeliveryMethods"
| register: "registry_reachable reg \<Longrightarrow> RegisterDeliveryMethod uri f reg = Inr reg' \<Longrightarrow>
    registry_reachable reg'"

lemma builtin_names [simp]: "DeliveryMethodPush \<noteq> DeliveryMethodPoll" "DeliveryMethodPoll \<noteq> DeliveryMethodPush"
  by (simp_all add: DeliveryMethodPush_def DeliveryMethodPoll_def)

lemma register_frame:
  "RegisterDeliveryMethod uri f reg = Inr reg' \<Longrightarrow>
     reg' = Mapping.update uri f reg \<and> uri \<noteq> DeliveryMethodPush \<and> uri \<noteq> DeliveryMethodPoll"
  by (auto simp: RegisterDeliveryMethod_def builtinDeliveryMethodNames_def split: if_splits)

definition plain_factory :: "delivery_registry \<Rightarrow> string \<Rightarrow> bool" where
  "plain_factory reg m \<longleftrightarrow>
     (\<exists>f. LookupDeliveryMethod reg m = Some f \<and> f () = zero_delivery\<lparr>dl_method := m\<rparr>)"

lemma registry_builtin:
  assumes "registry_reachable reg"
  shows "plain_factory reg DeliveryMethodPush \<and> plain_factory reg DeliveryMethodPoll"
  using assms
proof (induction rule: registry_reachable.induct)
  case builtin
  then show ?case
    by (simp add: plain_factory_def LookupDeliveryMethod_def builtinDeliveryMethods_def mapping_simps)
next
  case (register reg uri f reg')
  with register_frame [OF register.hyps(2)] show ?case
    by (auto simp: plain_factory_def LookupDeliveryMethod_def mapping_simps)
qed

section \<open>Delivery\<close>

text \<open>
  A delivery that survives the wire: of a registered method whose factory adds no defaults, or
  an unknown one as decoding produced it, its bytes being compact.
\<close>

definition delivery_ok :: "delivery_registry \<Rightarrow> delivery \<Rightarrow> bool" where
  "delivery_ok reg d \<longleftrightarrow>
     (case dl_unknown d of
        None \<Rightarrow> plain_factory reg (dl_method d)
      | Some u \<Rightarrow> ud_raw u \<noteq> [] \<and> raw_ok (ud_raw u) \<and> unmarshal_delivery reg (ud_raw u) = Inr d)"

lemma enc_delivery_wf:
  assumes "delivery_ok reg d"
  obtains j where "enc_delivery d = Some j" and "wf_json j"
    and "unmarshal_delivery reg (jprint j) = Inr d"
proof (cases "dl_unknown d")
  case (Some u)
  with assms have "raw_ok (ud_raw u)" "ud_raw u \<noteq> []" and u: "unmarshal_delivery reg (ud_raw u) = Inr d"
    by (simp_all add: delivery_ok_def)
  then obtain j where "raw_json (ud_raw u) = Some j" "wf_json j" "jprint j = ud_raw u"
    using raw_ok_json by blast
  with Some u that show thesis by (simp add: enc_delivery_def)
next
  case None
  let ?ms = "om_str ''method'' (dl_method d) @ om_str ''endpoint_url'' (dl_endpoint_url d)
     @ om_str ''authorization_header'' (dl_authorization_header d)"
  from None assms obtain f where f: "LookupDeliveryMethod reg (dl_method d) = Some f"
    "f () = zero_delivery\<lparr>dl_method := dl_method d\<rparr>"
    by (auto simp: delivery_ok_def plain_factory_def)
  have wf: "wf_json (mk_obj ?ms)" by simp
  have m: "dec_pairs h_method ?ms [] = Inr (dl_method d)"
    by (simp add: om_str_def h_method_def fold_names)
  have "dec_pairs h_delivery ?ms (zero_delivery\<lparr>dl_method := dl_method d\<rparr>) = Inr d"
    using None by (simp add: om_str_def h_delivery_def fold_names zero_delivery_def)
  then have "unmarshal_delivery reg (jprint (mk_obj ?ms)) = Inr d"
    using wf f m by (simp add: unmarshal_delivery_def unmarshal_def dec_struct_mk_obj zero_delivery_def)
  with wf None that show thesis by (simp add: enc_delivery_def)
qed

section \<open>Stream configuration\<close>

definition config_ok :: "delivery_registry \<Rightarrow> stream_config \<Rightarrow> bool" where
  "config_ok reg c \<longleftrightarrow> raw_ok (sc_aud c) \<and> int64 (sc_min_verification_interval c)
     \<and> delivery_ok reg (sc_delivery c)"

text \<open>An empty slice is omitted and comes back as nil; nothing else changes.\<close>

definition norm_config :: "stream_config \<Rightarrow> stream_config" where
  "norm_config c = c\<lparr>sc_events_supported := norm_strs (sc_events_supported c),
     sc_events_requested := norm_strs (sc_events_requested c),
     sc_events_delivered := norm_strs (sc_events_delivered c)\<rparr>"

lemma config_segments:
  "sc_stream_id a = [] \<Longrightarrow> dec_pairs (h_config reg) (om_str ''stream_id'' s) a = Inr (a\<lparr>sc_stream_id := s\<rparr>)"
  "sc_iss a = [] \<Longrightarrow> dec_pairs (h_config reg) (om_str ''iss'' s) a = Inr (a\<lparr>sc_iss := s\<rparr>)"
  "sc_format a = [] \<Longrightarrow> dec_pairs (h_config reg) (om_str ''format'' s) a = Inr (a\<lparr>sc_format := s\<rparr>)"
  "sc_events_supported a = None \<Longrightarrow> dec_pairs (h_config reg) (om_strs ''events_supported'' xs) a
     = Inr (a\<lparr>sc_events_supported := norm_strs xs\<rparr>)"
  "sc_events_requested a = None \<Longrightarrow> dec_pairs (h_config reg) (om_strs ''events_requested'' xs) a
     = Inr (a\<lparr>sc_events_requested := norm_strs xs\<rparr>)"
  "sc_events_delivered a = None \<Longrightarrow> dec_pairs (h_config reg) (om_strs ''events_delivered'' xs) a
     = Inr (a\<lparr>sc_events_delivered := norm_strs xs\<rparr>)"
  "int64 i \<Longrightarrow> sc_min_verification_interval a = 0 \<Longrightarrow>
     dec_pairs (h_config reg) (om_int ''min_verification_interval'' i) a
     = Inr (a\<lparr>sc_min_verification_interval := i\<rparr>)"
  by (cases a; simp add: om_defs norm_strs_def h_config_def fold_names split: option.splits)+

lemma config_encodes:
  assumes "config_ok reg c"
  obtains j where "enc_config c = Some j" and "wf_json j" and "dec_config reg j = Inr (norm_config c)"
proof -
  let ?h = "h_config reg"
  from assms have raw: "raw_ok (sc_aud c)" and int: "int64 (sc_min_verification_interval c)"
    and dl: "delivery_ok reg (sc_delivery c)" by (simp_all add: config_ok_def)
  from dl obtain dj where dj: "enc_delivery (sc_delivery c) = Some dj" "wf_json dj"
    "unmarshal_delivery reg (jprint dj) = Inr (sc_delivery c)" by (rule enc_delivery_wf)
  let ?a = "zero_config\<lparr>sc_stream_id := sc_stream_id c, sc_iss := sc_iss c\<rparr>"
  have aud: "?h (fold_case ''aud'') (sc_aud c) j ?a = Inr (?a\<lparr>sc_aud := sc_aud c\<rparr>)" for j
    by (simp add: h_config_def fold_names)
  obtain am where am: "om_raw ''aud'' (sc_aud c) = Some am" "wf_pairs am"
    "dec_pairs ?h am ?a = Inr (?a\<lparr>sc_aud := sc_aud c\<rparr>)"
    by (rule dec_om_raw [OF raw, of ?h "''aud''" ?a "\<lambda>r. ?a\<lparr>sc_aud := r\<rparr>"])
      (use aud in \<open>simp_all add: zero_config_def\<close>)
  have del: "?h (fold_case ''delivery'') (jprint dj) dj a = Inr (a\<lparr>sc_delivery := sc_delivery c\<rparr>)" for a
    using dj(3) by (simp add: h_config_def fold_names)
  let ?ms = "om_str ''stream_id'' (sc_stream_id c) @ om_str ''iss'' (sc_iss c) @ am
           @ om_strs ''events_supported'' (sc_events_supported c)
           @ om_strs ''events_requested'' (sc_events_requested c)
           @ om_strs ''events_delivered'' (sc_events_delivered c)
           @ [(quote ''delivery'', dj)]
           @ om_int ''min_verification_interval'' (sc_min_verification_interval c)
           @ om_str ''format'' (sc_format c)"
  have enc: "enc_config c = Some (mk_obj ?ms)" using am(1) dj(1) by (simp add: enc_config_def)
  have "dec_pairs ?h ?ms zero_config = Inr (norm_config c)"
    using am(3) int
    by (cases c) (simp add: dec_pairs_append config_segments del norm_config_def zero_config_def)
  moreover have "wf_json (mk_obj ?ms)" using am(2) dj(2) by simp
  ultimately show thesis using enc that by (simp add: dec_config_def dec_struct_mk_obj)
qed


definition sample_config :: stream_config where
  "sample_config = zero_config\<lparr>sc_stream_id := ''s-1'', sc_iss := ''https://t.example'',
     sc_aud := dquote # ''https://r.example'' @ [dquote],
     sc_events_requested := Some [''urn:e:1''],
     sc_delivery := zero_delivery\<lparr>dl_method := DeliveryMethodPush, dl_endpoint_url := ''https://r.example/e''\<rparr>,
     sc_min_verification_interval := 60\<rparr>"

lemma sample_config_ok: "config_ok builtinDeliveryMethods sample_config"
proof -
  have "raw_ok (dquote # ''https://r.example'' @ [dquote])" by code_simp
  moreover have "plain_factory builtinDeliveryMethods DeliveryMethodPush"
    using registry_builtin [OF registry_reachable.builtin] by simp
  ultimately show ?thesis
    by (simp add: config_ok_def sample_config_def delivery_ok_def zero_config_def zero_delivery_def
        int64_def)
qed


end
