(* ===== verification/Handler_Props.thy ===== *)
theory Handler_Props
  imports Http_Mux Wire_Roundtrip
begin

text \<open>
  What the HTTP API guarantees whatever the transmitter behind it does: nothing happens before
  authorization succeeds; bad requests do not reach the transmitter; every error is a problem
  document whose \<open>status\<close> is the response's; the query, not the body, names the stream.
\<close>

section \<open>Problem responses\<close>

text \<open>A response the API may give: success, or a problem document that says the same as the status line.\<close>

definition is_problem :: "http_response \<Rightarrow> bool" where
  "is_problem r \<longleftrightarrow> rs_status r \<in> {400, 401, 404, 405, 500, 501}
     \<and> map_of (rs_headers r) ''Content-Type'' = Some contentTypeProblem
     \<and> (\<exists>p. unmarshal_problem (rs_body r) = Inr p \<and> pd_status p = rs_status r
          \<and> pd_type p = ''about:blank'' \<and> pd_title p \<noteq> [])"

definition is_success :: "http_response \<Rightarrow> bool" where
  "is_success r \<longleftrightarrow> rs_status r \<in> {200, 201, 204}
     \<and> (rs_status r \<noteq> 204 \<longrightarrow> map_of (rs_headers r) ''Content-Type'' = Some contentTypeJSON)"

lemma unmarshal_marshal_plain:
  assumes "pd_extensions p = []" and "int64 (pd_status p)"
  shows "\<exists>b. marshal_problem p = Some b \<and> unmarshal_problem b = Inr p"
  using marshal_ok(2) [of "[]" p] unmarshal_obj [of "[]" p] assms by (simp add: ext_pairs_ok_def)

lemma problem_response_ok:
  assumes "pd_extensions p = []" and "pd_status p \<in> {400, 401, 404, 405, 500, 501}"
    and "pd_type p = ''about:blank''" and "pd_title p \<noteq> []" and "map_of hs ''Content-Type'' = None"
  shows "is_problem (problem_response hs p)"
proof -
  have "int64 (pd_status p)" using assms(2) by (auto simp: int64_def)
  with unmarshal_marshal_plain [OF assms(1)] obtain b where
    "marshal_problem p = Some b" "unmarshal_problem b = Inr p" by blast
  moreover have "map_of (hs @ [(''Content-Type'', contentTypeProblem)]) ''Content-Type'' = Some contentTypeProblem"
    using assms(5) by (simp add: map_of_append map_add_def)
  ultimately show ?thesis using assms by (auto simp: is_problem_def problem_response_def)
qed

lemma writeProblemStatus_ok [simp]:
  "status \<in> {400, 401, 404, 405, 500, 501} \<Longrightarrow> title \<noteq> [] \<Longrightarrow> map_of hs ''Content-Type'' = None
     \<Longrightarrow> is_problem (writeProblemStatus hs status title detail)"
  by (auto simp: writeProblemStatus_def zero_problem_def unauthorizedProblemType_def intro!: problem_response_ok)

lemma Default401_ok [simp]: "is_problem (Default401Handler e)"
  unfolding Default401Handler_def
  by (rule problem_response_ok) (simp_all add: zero_problem_def unauthorizedProblemType_def)

lemma Default401_status [simp]: "rs_status (Default401Handler e) = 401"
  by (simp add: Default401Handler_def problem_response_def)

lemma writeProblem_ok [simp]: "is_problem (writeProblem e)"
  by (auto simp: writeProblem_def writeAuthProblem_def split: option.split)

lemma writeMethodNotAllowed_ok [simp]: "is_problem (writeMethodNotAllowed allow)"
  by (simp add: writeMethodNotAllowed_def)

lemma writeJSON_ok: "status \<in> {200, 201} \<Longrightarrow> is_success (writeJSON status v) \<or> is_problem (writeJSON status v)"
  by (cases v) (auto simp: writeJSON_def is_success_def)

definition proper :: "http_response \<Rightarrow> bool" where
  "proper r \<longleftrightarrow> is_success r \<or> is_problem r"

lemma properI [simp]: "is_success r \<Longrightarrow> proper r" "is_problem r \<Longrightarrow> proper r"
  by (simp_all add: proper_def)

lemma proper_simps [simp]:
  "proper (writeJSON 200 v)" "proper (writeJSON 201 v)" "proper (writeEmptyJSON 200)"
  using writeJSON_ok [of 200 v] writeJSON_ok [of 201 v]
  by (auto simp: proper_def is_success_def writeEmptyJSON_def)

lemma reply_proper: "(\<And>a. proper (ok a)) \<Longrightarrow> proper (fst (reply ok r))"
  by (cases r) (auto simp: reply_def split: sum.split)

lemma with_body_proper: "(\<And>a. proper (fst (f a))) \<Longrightarrow> proper (fst (with_body dec rq s f))"
  by (auto simp: with_body_def split: sum.split)

lemma runAuth_proper: "runAuth auth rq = Some resp \<Longrightarrow> is_problem resp \<and> rs_status resp = 401"
  by (auto simp: runAuth_def split: option.splits sum.splits)

lemma post_handler_proper:
  assumes "\<And>b. proper (ok b)" shows "proper (fst (post_handler dec call ok auth rq s))"
  using runAuth_proper [of auth rq] assms
  by (auto simp: post_handler_def Let_def intro: reply_proper with_body_proper split: option.split)

lemma config_handlers_proper:
  "proper (fst (handleListConfig t rq s))" "proper (fst (handleGetConfig t i s))"
  "proper (fst (handleCreateConfig reg t rq s))" "proper (fst (handleUpdateConfig reg t rq i s))"
  "proper (fst (handleDeleteConfig t i s))"
proof -
  show "proper (fst (handleListConfig t rq s))" unfolding handleListConfig_def
    by (rule reply_proper) (simp split: prod.split)
  show "proper (fst (handleGetConfig t i s))" unfolding handleGetConfig_def
    by (rule reply_proper) simp
  show "proper (fst (handleCreateConfig reg t rq s))" unfolding handleCreateConfig_def
    by (rule with_body_proper, rule reply_proper) simp
  have "proper (fst (with_body (unmarshal_config reg) rq s (\<lambda>cfg.
      reply (\<lambda>c. writeJSON 200 (enc_config c)) (tm_UpdateConfig t (cfg\<lparr>sc_stream_id := i\<rparr>) s))))"
    by (rule with_body_proper, rule reply_proper) simp
  then show "proper (fst (handleUpdateConfig reg t rq i s))" by (simp add: handleUpdateConfig_def)
  have "proper (fst (reply (\<lambda>_. \<lparr>rs_status = 204, rs_headers = [], rs_body = []\<rparr>) (tm_DeleteConfig t i s)))"
    by (rule reply_proper) (simp add: is_success_def)
  then show "proper (fst (handleDeleteConfig t i s))" by (simp add: handleDeleteConfig_def)
qed

lemma status_handlers_proper:
  "proper (fst (handleGetStatus t rq i s))" "proper (fst (handleUpdateStatus t rq i s))"
proof -
  have "proper (fst (reply (\<lambda>r. writeJSON 200 (enc_status_response r)) (tm_GetStatus t i q s)))" for q
    by (rule reply_proper) simp
  then show "proper (fst (handleGetStatus t rq i s))"
    by (simp add: handleGetStatus_def Let_def)
  show "proper (fst (handleUpdateStatus t rq i s))" unfolding handleUpdateStatus_def
    by (rule with_body_proper, rule reply_proper) simp
qed

lemma ConfigHandler_proper: "proper (fst (ConfigHandler reg t auth rq s))"
  using runAuth_proper [of auth rq] config_handlers_proper
  by (auto simp: ConfigHandler_def Let_def split: option.split)

lemma StatusHandler_proper: "proper (fst (StatusHandler t auth rq s))"
  using runAuth_proper [of auth rq] status_handlers_proper
  by (auto simp: StatusHandler_def Let_def split: option.split)

lemmas handler_defs = AddSubjectHandler_def RemoveSubjectHandler_def VerificationHandler_def PollHandler_def

lemma mux_routes_cases [consumes 1]:
  assumes "(path, h) \<in> set (mux_routes sv auth c)"
  obtains "h = ConfigHandler (sv_registry sv) (sv_transmitter sv) auth"
    | "h = StatusHandler (sv_transmitter sv) auth"
    | "h = AddSubjectHandler (sv_sid_parse sv) (sv_transmitter sv) auth"
    | "h = RemoveSubjectHandler (sv_sid_parse sv) (sv_transmitter sv) auth"
    | "h = VerificationHandler (sv_transmitter sv) auth"
    | "h = PollHandler (sv_transmitter sv) auth"
  using assms by (auto simp: mux_routes_def Let_def)

section \<open>Properties\<close>

text \<open>
  Claim C11: Every response of every endpoint, to any request and whatever the transmitter returns,
  is either a success (200, 201 or 204) or a problem document: its content type says so, its body
  decodes, and the \<open>status\<close> in the body is the status of the response.
\<close>

theorem responses_proper:
  assumes "(path, h) \<in> set (mux_routes sv auth c)"
  shows "is_success (fst (h rq s)) \<or> is_problem (fst (h rq s))"
  using assms
  by (cases rule: mux_routes_cases)
    (simp_all add: ConfigHandler_proper StatusHandler_proper handler_defs post_handler_proper
      flip: proper_def)

text \<open>
  Claim C8: A request that authorization rejects, or that comes without an \<open>AuthFunc\<close>, gets a 401
  problem document from every endpoint, and the transmitter is not called: its state is the same,
  and the answer does not depend on the transmitter.
\<close>

theorem auth_gate:
  assumes "(path, h) \<in> set (mux_routes sv auth c)" and "runAuth auth rq = Some resp"
  shows "h rq s = (resp, s) \<and> rs_status resp = 401 \<and> is_problem resp"
  using assms runAuth_proper [OF assms(2)]
  by (cases rule: mux_routes_cases)
    (simp_all add: ConfigHandler_def StatusHandler_def handler_defs post_handler_def)

lemma reply_with_body_state:
  "snd (with_body dec rq s f) \<noteq> s \<Longrightarrow>
     rq_body rq \<noteq> [] \<and> length (rq_body rq) \<le> maxBody \<and> rq_body_err rq = None \<and> (\<exists>a. dec (rq_body rq) = Inr a)"
  by (auto simp: with_body_def decodeJSONBody_def split: sum.splits if_splits option.splits)

lemma post_handler_state:
  "snd (post_handler dec call ok auth rq s) \<noteq> s \<Longrightarrow>
     runAuth auth rq = None \<and> rq_method rq = ''POST'' \<and> query_get rq ''stream_id'' \<noteq> []
       \<and> rq_body rq \<noteq> [] \<and> length (rq_body rq) \<le> maxBody \<and> rq_body_err rq = None"
  by (auto simp: post_handler_def Let_def dest: reply_with_body_state split: option.splits if_splits)


text \<open>
  The scope an \<open>AuthFunc\<close> grants has no effect: two functions that accept the same
  requests, with whatever scopes, and reject the others with the same errors, give the same responses
  and states on every endpoint.
\<close>

theorem scope_ignored:
  assumes "(path, h) \<in> set (mux_routes sv (Some f) c)" and "(path', h') \<in> set (mux_routes sv (Some g) c)"
    and "path = path'" and "distinct (map fst (mux_routes sv (Some f) c))"
    and "\<And>rq. (case f rq of Inl e \<Rightarrow> Some e | Inr _ \<Rightarrow> None) = (case g rq of Inl e \<Rightarrow> Some e | Inr _ \<Rightarrow> None)"
  shows "h = h'"
proof -
  have "runAuth (Some f) = runAuth (Some g)"
  proof
    fix rq show "runAuth (Some f) rq = runAuth (Some g) rq"
      using assms(5) [of rq] by (auto simp: runAuth_def split: sum.splits)
  qed
  then have "mux_routes sv (Some f) c = mux_routes sv (Some g) c"
    by (simp add: mux_routes_def ConfigHandler_def [abs_def] StatusHandler_def [abs_def]
        handler_defs [abs_def] post_handler_def [abs_def])
  with assms(1-4) show ?thesis by (metis eq_key_imp_eq_value)
qed

text \<open>
  PATCH takes the stream to update from the query: two requests with the same
  \<open>stream_id\<close> parameter whose bodies decode to configurations that differ only in their own
  \<open>stream_id\<close> have the same effect and the same response.
\<close>

theorem patch_query_authoritative:
  assumes "rq_method rq = ''PATCH''" and "rq_method rq' = ''PATCH''"
    and "runAuth auth rq = None" and "runAuth auth rq' = None"
    and "query_get rq ''stream_id'' = query_get rq' ''stream_id''"
    and "decodeJSONBody (unmarshal_config reg) rq = Inr cfg"
    and "decodeJSONBody (unmarshal_config reg) rq' = Inr cfg'"
    and "cfg' = cfg\<lparr>sc_stream_id := smuggled\<rparr>"
  shows "ConfigHandler reg t auth rq s = ConfigHandler reg t auth rq' s"
  using assms by (simp add: ConfigHandler_def Let_def handleUpdateConfig_def with_body_def)

text \<open>
  A configuration the transmitter returns arrives: GET answers 200 with a body that
  decodes to that configuration, empty event lists becoming nil.
\<close>

theorem get_config_wire:
  assumes "rq_method rq = ''GET''" and "query_get rq ''stream_id'' \<noteq> []" and "runAuth auth rq = None"
    and "tm_GetConfig t (query_get rq ''stream_id'') s = (Inr c, s')" and "config_ok reg c"
  shows "\<exists>resp. ConfigHandler reg t auth rq s = (resp, s') \<and> rs_status resp = 200
    \<and> unmarshal_config reg (rs_body resp) = Inr (norm_config c)"
proof -
  from assms(5) obtain j where "enc_config c = Some j" "wf_json j" "dec_config reg j = Inr (norm_config c)"
    by (rule config_encodes)
  then show ?thesis
    using assms(1-4) by (simp add: ConfigHandler_def Let_def handleGetConfig_def reply_def writeJSON_def
        unmarshal_config_def unmarshal_def of_json_def)
qed

section \<open>Examples\<close>

text \<open>A transmitter that counts deletions and has one stream.\<close>

definition sample_transmitter :: "(string, nat) transmitter" where
  "sample_transmitter = NotImplementedTransmitter\<lparr>tm_GetConfig := (\<lambda>_ s. (Inr sample_config, s)),
     tm_DeleteConfig := (\<lambda>_ s. (Inr (), Suc s))\<rparr>"

definition sample_service :: "(string, nat) service" where
  "sample_service = \<lparr>sv_registry = builtinDeliveryMethods, sv_sid_parse = Inr, sv_transmitter = sample_transmitter\<rparr>"

definition sample_request :: "string \<Rightarrow> string \<Rightarrow> http_request" where
  "sample_request m body = \<lparr>rq_method = m, rq_path = DefaultStreamsPath, rq_query = [(''stream_id'', ''s-1'')],
     rq_body = body, rq_body_err = None\<rparr>"

lemma sample_route:
  "(DefaultStreamsPath, ConfigHandler builtinDeliveryMethods sample_transmitter auth)
     \<in> set (mux_routes sample_service auth defaultMuxConfig)"
  by (simp add: mux_routes_def sample_service_def defaultMuxConfig_def)

lemma sample_request_simps [simp]:
  "rq_method (sample_request m b) = m" "query_get (sample_request m b) ''stream_id'' = ''s-1''"
  "rq_body (sample_request m b) = b" "rq_body_err (sample_request m b) = None"
  by (simp_all add: sample_request_def query_get_def)

lemma runAuth_allow [simp]: "runAuth (Some AlwaysAllow) rq = None"
  by (simp add: runAuth_def AlwaysAllow_def)

theorem responses_proper_witness:
  "is_success (fst (ConfigHandler builtinDeliveryMethods sample_transmitter None (sample_request ''GET'' []) 0))
     \<or> is_problem (fst (ConfigHandler builtinDeliveryMethods sample_transmitter None (sample_request ''GET'' []) 0))"
  by (rule responses_proper [OF sample_route])

theorem auth_gate_witness:
  "\<exists>resp. ConfigHandler builtinDeliveryMethods sample_transmitter (Some AlwaysReject) (sample_request ''DELETE'' []) 7
     = (resp, 7) \<and> rs_status resp = 401"
  using auth_gate [OF sample_route, of "Some AlwaysReject" "sample_request ''DELETE'' []" _ 7]
  by (auto simp: runAuth_def AlwaysReject_def)


theorem scope_ignored_witness:
  "ConfigHandler builtinDeliveryMethods sample_transmitter (Some AlwaysAllow)
     = ConfigHandler builtinDeliveryMethods sample_transmitter (Some (\<lambda>_. Inr \<lparr>ss_stream_id = ''other'', ss_subject = []\<rparr>))"
proof (rule scope_ignored [OF sample_route sample_route])
  show "distinct (map fst (mux_routes sample_service (Some AlwaysAllow) defaultMuxConfig))"
    by (simp add: mux_routes_def Let_def defaultMuxConfig_def DefaultStreamsPath_def DefaultStatusPath_def
        DefaultAddSubjectPath_def DefaultRemoveSubjectPath_def DefaultVerificationPath_def DefaultPollPath_def)
qed (simp_all add: AlwaysAllow_def)

lemma null_body: "decodeJSONBody (unmarshal_config reg) (sample_request m ''null'') = Inr zero_config"
proof -
  have "parse ''null'' = Some JNull" using parse_jprint [of JNull] by simp
  then show ?thesis
    by (simp add: decodeJSONBody_def unmarshal_config_def unmarshal_def of_json_def dec_config_def
        dec_struct_def maxBody_def)
qed

lemma id_body:
  "decodeJSONBody (unmarshal_config reg) (sample_request m (jprint (mk_obj [(quote ''stream_id'', jstring ''x'')])))
     = Inr (zero_config\<lparr>sc_stream_id := ''x''\<rparr>)"
proof -
  let ?j = "mk_obj [(quote ''stream_id'', jstring ''x'')]"
  have wf: "wf_json ?j" by simp
  have "plain_key ''stream_id''" "plain_key ''x''" by (simp_all add: plain_key_def html_char_def)
  then have "length (jprint ?j) \<le> maxBody"
    by (simp add: mk_obj_def quote_plain maxBody_def)
  moreover have "jprint ?j \<noteq> []" by (simp add: mk_obj_def)
  moreover have "dec_config reg ?j = Inr (zero_config\<lparr>sc_stream_id := ''x''\<rparr>)"
    by (simp add: dec_config_def dec_struct_mk_obj h_config_def fold_names)
  ultimately show ?thesis using wf
    by (simp add: decodeJSONBody_def unmarshal_config_def unmarshal_def of_json_def)
qed

theorem patch_query_authoritative_witness:
  "ConfigHandler builtinDeliveryMethods sample_transmitter (Some AlwaysAllow) (sample_request ''PATCH'' ''null'') 0
     = ConfigHandler builtinDeliveryMethods sample_transmitter (Some AlwaysAllow)
         (sample_request ''PATCH'' (jprint (mk_obj [(quote ''stream_id'', jstring ''x'')]))) 0"
  by (rule patch_query_authoritative [OF _ _ _ _ _ null_body id_body]) simp_all

theorem get_config_wire_witness:
  "\<exists>resp. ConfigHandler builtinDeliveryMethods sample_transmitter (Some AlwaysAllow) (sample_request ''GET'' []) 0 = (resp, 0)
     \<and> rs_status resp = 200
     \<and> unmarshal_config builtinDeliveryMethods (rs_body resp) = Inr (norm_config sample_config)"
  by (rule get_config_wire [OF _ _ _ _ sample_config_ok])
    (simp_all add: sample_transmitter_def)

end
