(* ===== verification/Push_Handler.thy ===== *)
theory Push_Handler
  imports Set_Tokens Handler_Props
begin

text \<open>
  The receiving end of push delivery (\<open>receiver/push.go\<close>, \<open>receiver/sink.go\<close>). A sink is a function of
  the payload and its own state: the error it returns, if any, and its next state. A request is that of the
  transmitter's handlers with its content type. The lemmas hold for every verifier that meets the contract
  \<open>set_verifier\<close>, the properties for \<open>JOSESetVerifier\<close>.
\<close>

type_synonym 's sink = "string \<Rightarrow> 's \<Rightarrow> gerror option \<times> 's"

record push_request = http_request +
  rq_content_type :: string

definition pushMediaType :: string where "pushMediaType = ''application/secevent+jwt''"

definition defaultMaxPushBytes :: int where "defaultMaxPushBytes = 1048576"

type_synonym receiver_option = "int \<Rightarrow> int"

definition WithMaxBytes :: "int \<Rightarrow> receiver_option" where "WithMaxBytes n max_bytes = n"

definition hasPushMediaType :: "string \<Rightarrow> bool" where
  "hasPushMediaType header =
     (case cut CHR '';'' header of (before, _, ok) \<Rightarrow>
        equal_fold (trim_space (if ok then before else header)) pushMediaType)"

text \<open>The body and the error that ended it; a limit that is not positive is none.\<close>

definition readPushBody :: "push_request \<Rightarrow> int \<Rightarrow> string result" where
  "readPushBody rq max_bytes =
     (if 0 < max_bytes \<and> max_bytes < int (length (rq_body rq)) then Inl MaxBytesErr
      else (case rq_body_err rq of Some e \<Rightarrow> Inl e | None \<Rightarrow> Inr (rq_body rq)))"

definition write_push_problem :: "(string \<times> string) list \<Rightarrow> int \<Rightarrow> string \<Rightarrow> string \<Rightarrow> http_response" where
  "write_push_problem hs status title detail = problem_response hs
     (zero_problem\<lparr>pd_title := title, pd_status := status, pd_detail := trim_space detail\<rparr>)"

definition writeBodyReadProblem :: "gerror \<Rightarrow> http_response" where
  "writeBodyReadProblem err =
     (if as_max_bytes err then write_push_problem [] 413 ''Request Body Too Large'' (error_text err)
      else write_push_problem [] 400 ''Bad Request'' (''read request body: '' @ error_text err))"

definition push_handle ::
  "(string \<Rightarrow> string result) \<Rightarrow> 's sink \<Rightarrow> int \<Rightarrow> push_request \<Rightarrow> 's \<Rightarrow> http_response \<times> 's" where
  "push_handle verify sink max_bytes rq s =
     (if rq_method rq \<noteq> ''POST''
      then (write_push_problem [(''Allow'', ''POST'')] 405 ''Method Not Allowed''
              ''the push endpoint accepts POST only'', s)
      else if \<not> hasPushMediaType (rq_content_type rq)
      then (write_push_problem [] 415 ''Unsupported Media Type''
              (''Content-Type must be '' @ quoted pushMediaType @ '' (rfc 8935 '' @ [CHR 0xC2, CHR 0xA7] @ ''2)''), s)
      else (case readPushBody rq max_bytes of
              Inl err \<Rightarrow> (writeBodyReadProblem err, s)
            | Inr body \<Rightarrow>
                if trim_space body = []
                then (write_push_problem [] 400 ''Empty Request Body''
                        ''the push endpoint requires a compact-serialized JWS in the body'', s)
                else (case verify (trim_space body) of
                        Inl err \<Rightarrow> (write_push_problem [] 400 ''Invalid Security Event Token'' (error_text err), s)
                      | Inr payload \<Rightarrow>
                          (case sink payload s of
                             (Some err, s') \<Rightarrow>
                               (if errors_is err ErrPermanent
                                then write_push_problem [] 400 ''Permanent Sink Failure'' (error_text err)
                                else write_push_problem [] 503 ''Transient Sink Failure'' (error_text err), s')
                           | (None, s') \<Rightarrow> (\<lparr>rs_status = 202, rs_headers = [], rs_body = []\<rparr>, s')))))"

definition PushHandler ::
  "(string \<Rightarrow> string result) \<Rightarrow> 's sink \<Rightarrow> receiver_option list \<Rightarrow> push_request \<Rightarrow> 's \<Rightarrow> http_response \<times> 's" where
  "PushHandler verify sink opts = push_handle verify sink (fold (\<lambda>f n. f n) opts defaultMaxPushBytes)"

section \<open>Responses\<close>

text \<open>A problem document that says what the status line says, and leaves its type out.\<close>

definition push_problem :: "http_response \<Rightarrow> bool" where
  "push_problem r \<longleftrightarrow> map_of (rs_headers r) ''Content-Type'' = Some contentTypeProblem
     \<and> (\<exists>p. unmarshal_problem (rs_body r) = Inr p \<and> pd_status p = rs_status r \<and> pd_type p = [] \<and> pd_title p \<noteq> [])"

lemma write_push_problem_ok [simp]:
  assumes "int64 status" and "title \<noteq> []" and "map_of hs ''Content-Type'' = None"
  shows "push_problem (write_push_problem hs status title detail)"
proof -
  define p where "p = zero_problem\<lparr>pd_title := title, pd_status := status, pd_detail := trim_space detail\<rparr>"
  have p: "pd_extensions p = []" "pd_status p = status" "pd_type p = []" "pd_title p = title"
    by (simp_all add: p_def zero_problem_def)
  with unmarshal_marshal_plain [of p] assms(1) obtain b where
    "marshal_problem p = Some b" "unmarshal_problem b = Inr p" by auto
  moreover have "map_of (hs @ [(''Content-Type'', contentTypeProblem)]) ''Content-Type'' = Some contentTypeProblem"
    using assms(3) by (simp add: map_of_append map_add_def)
  ultimately show ?thesis
    unfolding write_push_problem_def p_def [symmetric] using p assms(2)
    by (simp add: push_problem_def problem_response_def)
qed

lemma write_push_problem_status [simp]: "rs_status (write_push_problem hs status title detail) = status"
  by (simp add: write_push_problem_def problem_response_def)

lemma writeBodyRead_ok [simp]: "push_problem (writeBodyReadProblem e)"
    "rs_status (writeBodyReadProblem e) = (if as_max_bytes e then 413 else 400)"
  by (simp_all add: writeBodyReadProblem_def int64_def)

section \<open>Deliveries\<close>

text \<open>The token of a request that passes the checks before verification.\<close>

definition push_token :: "int \<Rightarrow> push_request \<Rightarrow> string option" where
  "push_token max_bytes rq =
     (if rq_method rq = ''POST'' \<and> hasPushMediaType (rq_content_type rq)
      then (case readPushBody rq max_bytes of
              Inr body \<Rightarrow> if trim_space body = [] then None else Some (trim_space body)
            | Inl _ \<Rightarrow> None)
      else None)"

definition sink_status :: "gerror option \<Rightarrow> int" where
  "sink_status r = (case r of None \<Rightarrow> 202 | Some e \<Rightarrow> if errors_is e ErrPermanent then 400 else 503)"

lemma sink_status_iff:
  "sink_status r \<in> {202, 400, 503}" "sink_status r = 503 \<longleftrightarrow> (\<exists>e. r = Some e \<and> \<not> errors_is e ErrPermanent)"
  by (auto simp: sink_status_def split: option.splits)

text \<open>Either the payload of a verified token went to the sink, or the sink was not called.\<close>

lemma push_handle_cases:
  assumes "push_handle verify sink n rq s = (rs, s')"
  shows "(\<exists>token p. push_token n rq = Some token \<and> verify token = Inr p
            \<and> s' = snd (sink p s) \<and> rs_status rs = sink_status (fst (sink p s)))
       \<or> s' = s \<and> rs_status rs \<in> {400, 405, 413, 415}
          \<and> (\<forall>token. push_token n rq = Some token \<longrightarrow> (\<exists>e. verify token = Inl e))"
  using assms
  by (auto simp: push_handle_def push_token_def sink_status_def
      split: if_split_asm sum.split_asm prod.split_asm option.split_asm)

lemma push_handle_problem:
  assumes "push_handle verify sink n rq s = (rs, s')"
  shows "rs_status rs = 202 \<and> rs_body rs = [] \<or> rs_status rs \<noteq> 202 \<and> push_problem rs"
  using assms
  by (auto simp: push_handle_def int64_def split: if_split_asm sum.split_asm prod.split_asm option.split_asm)

text \<open>Over any verifier: what the sink sees is authentic.\<close>

context set_verifier
begin

lemma push_authentic:
  assumes "push_handle verify sink n rq s = (rs, s')" and "s' \<noteq> s \<or> rs_status rs \<in> {202, 503}"
  shows "\<exists>token p. push_token n rq = Some token \<and> authentic token p
    \<and> s' = snd (sink p s) \<and> rs_status rs = sink_status (fst (sink p s))"
proof -
  from push_handle_cases [OF assms(1)] assms(2) obtain token p where "push_token n rq = Some token"
    "verify token = Inr p" "s' = snd (sink p s)" "rs_status rs = sink_status (fst (sink p s))" by auto
  with verify_authentic show ?thesis by blast
qed

end

section \<open>Properties\<close>

text \<open>
  Claim C28: The sink sees verified payloads only. When a push changes the sink's state, or is
  answered 202 or 503, it was a POST of the right media type whose body, within the limit, is a token that
  the key set authenticates; the sink got its payload, once, and its error decides the status.
\<close>

theorem push_sink_authentic:
  assumes "PushHandler (Verify show J keys) sink opts rq s = (rs, s')"
    and "s' \<noteq> s \<or> rs_status rs \<in> {202, 503}"
  shows "\<exists>token p. push_token (fold (\<lambda>f n. f n) opts defaultMaxPushBytes) rq = Some token
    \<and> set_authentic J keys token p \<and> s' = snd (sink p s) \<and> rs_status rs = sink_status (fst (sink p s))"
  using assms unfolding PushHandler_def by (rule jose_set.push_authentic)

text \<open>
  Claim C29: Every answer of the push endpoint is 202 with an empty body or a problem document
  whose \<open>status\<close> is that of the response, one of 400, 405, 413, 415 and 503; of these only 503, which asks the
  transmitter to try again, stands for a failure that may pass.
\<close>

theorem push_responses:
  assumes "PushHandler verify sink opts rq s = (rs, s')"
  shows "(rs_status rs = 202 \<and> rs_body rs = [] \<or> push_problem rs)
    \<and> rs_status rs \<in> {202, 400, 405, 413, 415, 503}
    \<and> (rs_status rs = 503 \<longrightarrow> (\<exists>p e. fst (sink p s) = Some e \<and> \<not> errors_is e ErrPermanent))"
proof -
  note push_handle_cases [OF assms [unfolded PushHandler_def]] push_handle_problem [OF assms [unfolded PushHandler_def]]
  then show ?thesis using sink_status_iff by fastforce
qed

section \<open>An example\<close>

text \<open>A sink that keeps its payloads.\<close>

definition list_sink :: "string list sink" where
  "list_sink p s = (None, s @ [p])"

definition sample_push :: push_request where
  "sample_push = \<lparr>rq_method = ''POST'', rq_path = ''/push'', rq_query = [], rq_body = ''.k.payload'', rq_body_err = None,
     rq_content_type = ''Application/secevent+jwt; v=1''\<rparr>"

lemma lower_a: "char_of (97 :: nat) = CHR ''a''"
  by code_simp

lemma sample_push_token: "push_token n sample_push = Some ''.k.payload''" if "n = defaultMaxPushBytes"
  using that
  by (simp add: push_token_def sample_push_def readPushBody_def defaultMaxPushBytes_def hasPushMediaType_def cut_def
      pushMediaType_def trim_space_def trim_left_def is_space_def equal_fold_def fold_case.simps ascii_lower_def lower_a)

text \<open>The example is accepted, and refused after the limit is set below its size.\<close>

lemma sample_push_run:
  "PushHandler (Verify (\<lambda>_. []) toy_jose [''a'', ''k'']) list_sink [] sample_push []
     = (\<lparr>rs_status = 202, rs_headers = [], rs_body = []\<rparr>, [''payload''])"
  (is "?run = _")
proof -
  obtain rs s' where run: "?run = (rs, s')" by (cases ?run)
  have n: "fold (\<lambda>f n. f n) [] defaultMaxPushBytes = defaultMaxPushBytes" by simp
  show ?thesis
    using sample_push_token [OF n] toy_verifies
    by (auto simp: PushHandler_def push_handle_def push_token_def list_sink_def split: if_split_asm sum.split_asm)
qed

theorem push_sink_authentic_witness:
  "\<exists>token. push_token defaultMaxPushBytes sample_push = Some token
     \<and> set_authentic toy_jose [''a'', ''k''] token ''payload''"
  using push_sink_authentic [OF sample_push_run] by (auto simp: list_sink_def)

theorem push_responses_witness:
  "rs_status (fst (PushHandler (Verify (\<lambda>_. []) toy_jose [''a'', ''k'']) list_sink [] sample_push [])) = 202"
  using push_responses [OF sample_push_run] by (simp add: sample_push_run)

end
