(* ===== verification/Go_Url.thy ===== *)
theory Go_Url
  imports Go_Codec
begin

text \<open>
  What the client uses of \<open>net/url\<close>: parsing and printing URLs, resolving a reference against a base,
  and queries. A host in brackets holds an IP literal; its check belongs to \<open>net/netip\<close> and is a
  parameter, from the text between \<open>//\<close> and the path to the host, or to the text of an error.
  The theory ends with the round trips of escaping and queries.
\<close>

section \<open>Escaping\<close>

datatype enc_mode = EncPath | EncHost | EncUserPassword | EncQuery | EncFragment

definition is_alnum :: "char \<Rightarrow> bool" where
  "is_alnum c \<longleftrightarrow> is_digit c \<or> CHR ''a'' \<le> c \<and> c \<le> CHR ''z'' \<or> c \<le> CHR ''Z'' \<and> CHR ''A'' \<le> c"

definition should_escape :: "enc_mode \<Rightarrow> char \<Rightarrow> bool" where
  "should_escape m c \<longleftrightarrow>
     \<not> (is_alnum c
        \<or> m = EncHost \<and> (c \<in> set ''!$&()*+,;=:[]<>'' \<or> c = CHR 0x27 \<or> c = CHR 0x22)
        \<or> c \<in> set ''-_.~''
        \<or> c \<in> set ''$&+,/:;=?@'' \<and>
            (m = EncPath \<and> c \<noteq> CHR ''?''
             \<or> m = EncUserPassword \<and> c \<notin> set ''@/?:''
             \<or> m = EncFragment)
        \<or> m = EncFragment \<and> c \<in> set ''!()*'')"

definition upper_hex :: "nat \<Rightarrow> char" where
  "upper_hex d = (if d < 10 then char_of (48 + d) else char_of (55 + d))"

definition escape_char :: "enc_mode \<Rightarrow> char \<Rightarrow> string" where
  "escape_char m c =
     (if should_escape m c
      then if c = CHR '' '' \<and> m = EncQuery then ''+''
           else [CHR ''%'', upper_hex (of_char c div 16), upper_hex (of_char c mod 16)]
      else [c])"

definition escape :: "enc_mode \<Rightarrow> string \<Rightarrow> string" where
  "escape m s = concat (map (escape_char m) s)"

definition escape_error :: "string \<Rightarrow> string" where
  "escape_error s = ''invalid URL escape '' @ quoted (take 3 s)"

text \<open>In a host only bytes from 0x80 on may be escaped, and the percent sign itself.\<close>

fun unescape :: "enc_mode \<Rightarrow> string \<Rightarrow> string + string" where
  "unescape m [] = Inr []"
| "unescape m (c # s) =
     (if c = CHR ''%'' then
        (case s of
           a # b # t \<Rightarrow>
             if \<not> (is_hex a \<and> is_hex b) then Inl (escape_error (c # s))
             else if m = EncHost \<and> hex_val a < 8 \<and> [a, b] \<noteq> ''25'' then Inl (escape_error (c # s))
             else bind_r (unescape m t) (\<lambda>r. Inr (char_of (16 * hex_val a + hex_val b) # r))
         | _ \<Rightarrow> Inl (escape_error (c # s)))
      else if m = EncHost \<and> of_char c < (128 :: nat) \<and> should_escape m c
      then Inl (''invalid character '' @ quoted [c] @ '' in host name'')
      else bind_r (unescape m s) (\<lambda>r. Inr ((if c = CHR ''+'' \<and> m = EncQuery then CHR '' '' else c) # r)))"

section \<open>URLs\<close>

record url =
  u_scheme :: string
  u_opaque :: string
  u_user :: "(string \<times> string option) option"
  u_host :: string
  u_path :: string
  u_raw_path :: string
  u_omit_host :: bool
  u_force_query :: bool
  u_raw_query :: string
  u_fragment :: string
  u_raw_fragment :: string

definition zero_url :: url where
  "zero_url = \<lparr>u_scheme = [], u_opaque = [], u_user = None, u_host = [], u_path = [], u_raw_path = [],
     u_omit_host = False, u_force_query = False, u_raw_query = [], u_fragment = [], u_raw_fragment = []\<rparr>"

text \<open>The raw form is kept only where it is not the default escape.\<close>

definition set_path :: "string \<Rightarrow> url \<Rightarrow> string + url" where
  "set_path p u = bind_r (unescape EncPath p) (\<lambda>path.
     Inr (u\<lparr>u_path := path, u_raw_path := if p = escape EncPath path then [] else p\<rparr>))"

definition set_fragment :: "string \<Rightarrow> url \<Rightarrow> string + url" where
  "set_fragment f u = bind_r (unescape EncFragment f) (\<lambda>frag.
     Inr (u\<lparr>u_fragment := frag, u_raw_fragment := if f = escape EncFragment frag then [] else f\<rparr>))"

definition valid_encoded :: "enc_mode \<Rightarrow> string \<Rightarrow> bool" where
  "valid_encoded m s \<longleftrightarrow>
     list_all (\<lambda>c. c \<in> set ''!$&()*+,;=:@[]%'' \<or> c = CHR 0x27 \<or> \<not> should_escape m c) s"

definition escaped_path :: "url \<Rightarrow> string" where
  "escaped_path u =
     (if u_raw_path u \<noteq> [] \<and> valid_encoded EncPath (u_raw_path u) \<and> unescape EncPath (u_raw_path u) = Inr (u_path u)
      then u_raw_path u
      else if u_path u = ''*'' then ''*''
      else escape EncPath (u_path u))"

definition escaped_fragment :: "url \<Rightarrow> string" where
  "escaped_fragment u =
     (if u_raw_fragment u \<noteq> [] \<and> valid_encoded EncFragment (u_raw_fragment u)
         \<and> unescape EncFragment (u_raw_fragment u) = Inr (u_fragment u)
      then u_raw_fragment u
      else escape EncFragment (u_fragment u))"


section \<open>Parsing\<close>

text \<open>The scheme, lower-cased by the caller, and the rest.\<close>

fun scheme_end :: "nat \<Rightarrow> string \<Rightarrow> nat option" where
  "scheme_end i [] = None"
| "scheme_end i (c # s) =
     (if c = CHR '':'' then Some i
      else if is_alnum c \<and> \<not> is_digit c \<or> (is_digit c \<or> c \<in> set ''+-.'') \<and> i \<noteq> 0 then scheme_end (Suc i) s
      else None)"

definition get_scheme :: "string \<Rightarrow> string + string \<times> string" where
  "get_scheme raw =
     (case scheme_end 0 raw of
        None \<Rightarrow> Inr ([], raw)
      | Some 0 \<Rightarrow> Inl ''missing protocol scheme''
      | Some i \<Rightarrow> Inr (take i raw, drop (Suc i) raw))"

text \<open>\<open>strings.LastIndex\<close> at a one-byte separator: what precedes the last occurrence and what follows it.\<close>

definition last_cut :: "char \<Rightarrow> string \<Rightarrow> (string \<times> string) option" where
  "last_cut c s =
     (if c \<in> set s then Some (rev (tl (dropWhile (\<lambda>x. x \<noteq> c) (rev s))), rev (takeWhile (\<lambda>x. x \<noteq> c) (rev s)))
      else None)"

definition valid_userinfo :: "string \<Rightarrow> bool" where
  "valid_userinfo s \<longleftrightarrow> list_all (\<lambda>c. is_alnum c \<or> c \<in> set ''-._:~!$&()*+,;=%@'' \<or> c = CHR 0x27) s"

definition valid_port :: "string \<Rightarrow> bool" where
  "valid_port p \<longleftrightarrow> list_all is_digit p"

text \<open>
  A host without brackets: what follows its first colon is the port (the last colon for PostgreSQL, whose
  URLs may list several hosts).
\<close>

definition parse_host :: "(string \<Rightarrow> string + string) \<Rightarrow> string \<Rightarrow> string \<Rightarrow> string + string" where
  "parse_host ip_literal scheme host =
     (if CHR ''['' \<in> set host then ip_literal host
      else
        (let port = (if scheme = ''postgresql'' \<or> scheme = ''postgres''
                     then map_option snd (last_cut CHR '':'' host)
                     else (case cut CHR '':'' host of (_, p, found) \<Rightarrow> if found then Some p else None))
         in case port of
              Some p \<Rightarrow> if valid_port p then unescape EncHost host
                        else Inl (''invalid port '' @ quoted (CHR '':'' # p) @ '' after host'')
            | None \<Rightarrow> unescape EncHost host))"

definition parse_userinfo :: "string \<Rightarrow> string + string \<times> string option" where
  "parse_userinfo info =
     (if \<not> valid_userinfo info then Inl ''net/url: invalid userinfo''
      else (case cut CHR '':'' info of
              (name, pass, has_pass) \<Rightarrow>
                bind_r (unescape EncUserPassword name) (\<lambda>n.
                  if has_pass then bind_r (unescape EncUserPassword pass) (\<lambda>p. Inr (n, Some p))
                  else Inr (n, None))))"

definition parse_authority ::
  "(string \<Rightarrow> string + string) \<Rightarrow> string \<Rightarrow> string \<Rightarrow> string + (string \<times> string option) option \<times> string" where
  "parse_authority ip_literal scheme authority =
     (case last_cut CHR ''@'' authority of
        None \<Rightarrow> bind_r (parse_host ip_literal scheme authority) (\<lambda>h. Inr (None, h))
      | Some (info, host) \<Rightarrow>
          bind_r (parse_host ip_literal scheme host) (\<lambda>h.
            bind_r (parse_userinfo info) (\<lambda>user. Inr (Some user, h))))"

definition has_ctl :: "string \<Rightarrow> bool" where
  "has_ctl s \<longleftrightarrow> list_ex (\<lambda>c. of_char c < (32 :: nat) \<or> c = CHR 0x7F) s"

text \<open>The query of what follows the scheme: forced when a question mark ends it and there is no other.\<close>

definition cut_query :: "string \<Rightarrow> url \<Rightarrow> string \<times> url" where
  "cut_query rest u =
     (case cut CHR ''?'' rest of
        (pre, query, found) \<Rightarrow> (pre, u\<lparr>u_force_query := found \<and> query = [], u_raw_query := query\<rparr>))"

definition slashes :: "nat \<Rightarrow> string \<Rightarrow> bool" where
  "slashes n s \<longleftrightarrow> n \<le> length s \<and> list_all (\<lambda>c. c = CHR ''/'') (take n s)"

definition parse_hier :: "(string \<Rightarrow> string + string) \<Rightarrow> string \<Rightarrow> url \<Rightarrow> string + url" where
  "parse_hier ip_literal rest u =
     (if slashes 2 rest \<and> (u_scheme u \<noteq> [] \<or> \<not> slashes 3 rest) then
        (let authority = takeWhile (\<lambda>c. c \<noteq> CHR ''/'') (drop 2 rest);
             path = dropWhile (\<lambda>c. c \<noteq> CHR ''/'') (drop 2 rest)
         in bind_r (parse_authority ip_literal (u_scheme u) authority) (\<lambda>(user, host).
              set_path path (u\<lparr>u_user := user, u_host := host\<rparr>)))
      else set_path rest (if u_scheme u \<noteq> [] \<and> slashes 1 rest then u\<lparr>u_omit_host := True\<rparr> else u))"

definition parse_no_fragment :: "(string \<Rightarrow> string + string) \<Rightarrow> string \<Rightarrow> string + url" where
  "parse_no_fragment ip_literal raw =
     (if has_ctl raw then Inl ''net/url: invalid control character in URL''
      else if raw = ''*'' then Inr (zero_url\<lparr>u_path := ''*''\<rparr>)
      else bind_r (get_scheme raw) (\<lambda>(scheme, r).
        (case cut_query r (zero_url\<lparr>u_scheme := to_lower scheme\<rparr>) of
           (rest, u) \<Rightarrow>
             if \<not> slashes 1 rest \<and> u_scheme u \<noteq> [] then Inr (u\<lparr>u_opaque := rest\<rparr>)
             else if \<not> slashes 1 rest \<and> CHR '':'' \<in> set (takeWhile (\<lambda>c. c \<noteq> CHR ''/'') rest)
             then Inl ''first path segment in URL cannot contain colon''
             else parse_hier ip_literal rest u)))"

definition url_error :: "string \<Rightarrow> string \<Rightarrow> string" where
  "url_error raw err = ''parse '' @ quoted raw @ '': '' @ err"

definition url_Parse :: "(string \<Rightarrow> string + string) \<Rightarrow> string \<Rightarrow> string + url" where
  "url_Parse ip_literal raw =
     (case cut CHR ''#'' raw of
        (u, frag, _) \<Rightarrow>
          (case parse_no_fragment ip_literal u of
             Inl err \<Rightarrow> Inl (url_error u err)
           | Inr parsed \<Rightarrow>
               if frag = [] then Inr parsed
               else (case set_fragment frag parsed of Inl err \<Rightarrow> Inl (url_error raw err) | Inr p \<Rightarrow> Inr p)))"

section \<open>Printing\<close>

definition user_String :: "string \<times> string option \<Rightarrow> string" where
  "user_String ui = escape EncUserPassword (fst ui)
     @ (case snd ui of None \<Rightarrow> [] | Some p \<Rightarrow> CHR '':'' # escape EncUserPassword p)"

definition url_authority :: "url \<Rightarrow> string" where
  "url_authority u =
     (if u_scheme u = [] \<and> u_host u = [] \<and> u_user u = None then []
      else if u_omit_host u \<and> u_host u = [] \<and> u_user u = None then []
      else (if u_host u \<noteq> [] \<or> u_path u \<noteq> [] \<or> u_user u \<noteq> None then ''//'' else [])
        @ (case u_user u of None \<Rightarrow> [] | Some ui \<Rightarrow> user_String ui @ ''@'')
        @ escape EncHost (u_host u))"

definition url_hier :: "url \<Rightarrow> string" where
  "url_hier u =
     (let prefix = (if u_scheme u = [] then [] else u_scheme u @ '':'');
          path = escaped_path u;
          pre = prefix @ url_authority u @ (if path \<noteq> [] \<and> hd path \<noteq> CHR ''/'' \<and> u_host u \<noteq> [] then ''/'' else [])
      in if u_opaque u \<noteq> [] then prefix @ u_opaque u
         else pre
           @ (if pre = [] \<and> CHR '':'' \<in> set (takeWhile (\<lambda>c. c \<noteq> CHR ''/'') path) then ''./'' else [])
           @ path)"

definition url_String :: "url \<Rightarrow> string" where
  "url_String u = url_hier u
     @ (if u_force_query u \<or> u_raw_query u \<noteq> [] then CHR ''?'' # u_raw_query u else [])
     @ (if u_fragment u \<noteq> [] then CHR ''#'' # escaped_fragment u else [])"


section \<open>Resolving a reference\<close>

text \<open>The segments one by one; \<open>first\<close> says that the next one needs no separator.\<close>

fun dot_segments :: "string list \<Rightarrow> string \<Rightarrow> bool \<Rightarrow> string" where
  "dot_segments [] dst first = dst"
| "dot_segments (e # es) dst first =
     (if e = ''.'' then dot_segments es dst False
      else if e = ''..'' then
        (case last_cut CHR ''/'' (tl dst) of
           None \<Rightarrow> dot_segments es ''/'' True
         | Some (pre, _) \<Rightarrow> dot_segments es (CHR ''/'' # pre) first)
      else dot_segments es (dst @ (if first then [] else ''/'') @ e) False)"

definition url_resolve_path :: "string \<Rightarrow> string \<Rightarrow> string" where
  "url_resolve_path base ref =
     (let full = (if ref = [] then base
                  else if hd ref \<noteq> CHR ''/''
                  then (case last_cut CHR ''/'' base of None \<Rightarrow> [] | Some (dir, _) \<Rightarrow> dir @ ''/'') @ ref
                  else ref);
          segs = split_on CHR ''/'' full;
          r = dot_segments segs ''/'' True @ (if last segs \<in> {''.'', ''..''} then ''/'' else [])
      in if full = [] then [] else if slashes 2 r then tl r else r)"

definition or_else :: "'b \<Rightarrow> 'a + 'b \<Rightarrow> 'b" where
  "or_else d r = (case r of Inl _ \<Rightarrow> d | Inr x \<Rightarrow> x)"

definition ResolveReference :: "url \<Rightarrow> url \<Rightarrow> url" where
  "ResolveReference u ref =
     (let r = (if u_scheme ref = [] then ref\<lparr>u_scheme := u_scheme u\<rparr> else ref) in
      if u_scheme ref \<noteq> [] \<or> u_host ref \<noteq> [] \<or> u_user ref \<noteq> None
      then or_else r (set_path (url_resolve_path (escaped_path ref) []) r)
      else if u_opaque ref \<noteq> [] then r\<lparr>u_user := None, u_host := [], u_path := []\<rparr>
      else
        (let r1 = (if u_path ref = [] \<and> \<not> u_force_query ref \<and> u_raw_query ref = []
                   then (if u_fragment ref = []
                         then r\<lparr>u_raw_query := u_raw_query u, u_fragment := u_fragment u, u_raw_fragment := u_raw_fragment u\<rparr>
                         else r\<lparr>u_raw_query := u_raw_query u\<rparr>)
                   else r)
         in if u_path ref = [] \<and> u_opaque u \<noteq> []
            then r1\<lparr>u_opaque := u_opaque u, u_user := None, u_host := [], u_path := []\<rparr>
            else (let r2 = r1\<lparr>u_host := u_host u, u_user := u_user u\<rparr>
                  in or_else r2 (set_path (url_resolve_path (escaped_path u) (escaped_path ref)) r2))))"

section \<open>Queries\<close>

type_synonym url_values = "(string, string list) mapping"

fun join_with :: "string \<Rightarrow> string list \<Rightarrow> string" where
  "join_with sep [] = []"
| "join_with sep [x] = x"
| "join_with sep (x # y # zs) = x @ sep @ join_with sep (y # zs)"

definition value_pairs :: "url_values \<Rightarrow> (string \<times> string) list" where
  "value_pairs m = concat (map (\<lambda>k. map (Pair k) (the (Mapping.lookup m k))) (Mapping.ordered_keys m))"

definition encode_pairs :: "(string \<times> string) list \<Rightarrow> string" where
  "encode_pairs ps = join_with ''&'' (map (\<lambda>(k, v). escape EncQuery k @ ''='' @ escape EncQuery v) ps)"

definition values_Encode :: "url_values \<Rightarrow> string" where
  "values_Encode m = encode_pairs (value_pairs m)"

text \<open>\<open>URL.Query\<close>: malformed pairs are dropped.\<close>

definition parse_pair :: "string \<Rightarrow> (string \<times> string) list" where
  "parse_pair seg =
     (if seg = [] \<or> CHR '';'' \<in> set seg then []
      else (case cut CHR ''='' seg of
              (k, v, _) \<Rightarrow>
                (case unescape EncQuery k of
                   Inl _ \<Rightarrow> []
                 | Inr k' \<Rightarrow> (case unescape EncQuery v of Inl _ \<Rightarrow> [] | Inr v' \<Rightarrow> [(k', v')]))))"

definition parse_query :: "string \<Rightarrow> (string \<times> string) list" where
  "parse_query q = concat (map parse_pair (split_on CHR ''&'' q))"

definition values_Add :: "string \<times> string \<Rightarrow> url_values \<Rightarrow> url_values" where
  "values_Add kv m = Mapping.update (fst kv)
     ((case Mapping.lookup m (fst kv) of None \<Rightarrow> [] | Some vs \<Rightarrow> vs) @ [snd kv]) m"

definition url_Query :: "url \<Rightarrow> url_values" where
  "url_Query u = fold values_Add (parse_query (u_raw_query u)) Mapping.empty"

section \<open>Round trips\<close>

lemma upper_hex_props:
  assumes "d < 16"
  shows "is_hex (upper_hex d)" "hex_val (upper_hex d) = d" "is_alnum (upper_hex d)"
proof -
  have "list_all (\<lambda>d. is_hex (upper_hex d) \<and> hex_val (upper_hex d) = d \<and> is_alnum (upper_hex d)) [0..<16]"
    by code_simp
  then show "is_hex (upper_hex d)" "hex_val (upper_hex d) = d" "is_alnum (upper_hex d)"
    using assms by (auto simp: list_all_iff)
qed

lemma escape_specials: "should_escape m CHR ''%''" "should_escape EncQuery CHR ''+''"
  by (cases m) (simp_all add: should_escape_def is_alnum_def is_digit_def)

lemma alnum_specials:
  assumes "is_alnum c" shows "c \<notin> set ''%&+,;=?#@:/ []~-_.!*$()<>'' \<and> c \<noteq> CHR 0x27 \<and> c \<noteq> CHR 0x22 \<and> c \<noteq> CHR 0x7F"
  using assms by (auto simp: is_alnum_def is_digit_def)

lemma char_digits: "char_of (16 * (of_char c div 16) + of_char c mod 16 :: nat) = c"
  by simp

lemma unescape_escape_char:
  assumes "m \<noteq> EncHost"
  shows "unescape m (escape_char m c @ s) = bind_r (unescape m s) (\<lambda>r. Inr (c # r))"
proof (cases "should_escape m c")
  case True
  have b: "of_char c div 16 < (16 :: nat)" using of_char_mod_256 [of c, where ?'a = nat] by linarith
  note h = upper_hex_props [OF b] upper_hex_props [of "of_char c mod 16"]
  show ?thesis using True assms h char_digits [of c] by (simp add: escape_char_def)
next
  case False
  then have "c \<noteq> CHR ''%'' \<and> \<not> (c = CHR ''+'' \<and> m = EncQuery)" using escape_specials by metis
  with False assms show ?thesis by (auto simp: escape_char_def)
qed

lemma unescape_escape [simp]: "m \<noteq> EncHost \<Longrightarrow> unescape m (escape m s) = Inr s"
  by (induction s) (simp_all add: escape_def unescape_escape_char)

lemma escape_char_set:
  assumes "d \<in> set (escape_char m c)" shows "d = CHR ''%'' \<or> d = CHR ''+'' \<or> is_alnum d \<or> \<not> should_escape m d"
proof -
  have b: "of_char c div 16 < (16 :: nat)" using of_char_mod_256 [of c, where ?'a = nat] by linarith
  then show ?thesis using assms by (auto simp: escape_char_def upper_hex_props split: if_splits)
qed

text \<open>The characters of an escaped component of a query: none of those that structure a URL.\<close>

definition query_char :: "char \<Rightarrow> bool" where
  "query_char c \<longleftrightarrow> is_alnum c \<or> c \<in> set ''%+-_.~''"

lemma escape_query_set: "list_all query_char (escape EncQuery s)"
proof -
  have "query_char d" if "d \<in> set (escape_char EncQuery c)" for c d
    using escape_char_set [OF that] by (auto simp: query_char_def should_escape_def)
  then show ?thesis by (auto simp: list_all_iff escape_def)
qed

lemma query_char_specials:
  "query_char c \<Longrightarrow> c \<noteq> CHR ''&'' \<and> c \<noteq> CHR ''='' \<and> c \<noteq> CHR '';'' \<and> c \<noteq> CHR ''#'' \<and> c \<noteq> CHR ''?''"
  by (auto simp: query_char_def is_alnum_def is_digit_def)

lemma split_on_free: "c \<notin> set s \<Longrightarrow> split_on c s = [s]"
  by (induction s) auto

lemma split_on_append: "c \<notin> set s \<Longrightarrow> split_on c (s @ c # t) = s # split_on c t"
  by (induction s) auto

lemma split_on_nonempty [simp]: "split_on c s \<noteq> []"
  by (induction s) (auto split: list.split)

lemma split_join:
  assumes "\<And>x. x \<in> set xs \<Longrightarrow> c \<notin> set x" and "xs \<noteq> []"
  shows "split_on c (join_with [c] xs) = xs"
  using assms by (induction "[c]" xs rule: join_with.induct) (simp_all add: split_on_free split_on_append)

lemma cut_append: "c \<notin> set s \<Longrightarrow> cut c (s @ c # t) = (s, t, True)"
  by (induction s) (auto simp: cut_def)

lemma cut_free: "c \<notin> set s \<Longrightarrow> cut c s = (s, [], False)"
  by (simp add: cut_def)

lemma parse_pair_escaped:
  "parse_pair (escape EncQuery k @ CHR ''='' # escape EncQuery v) = [(k, v)]"
proof -
  have "\<And>s. CHR '';'' \<notin> set (escape EncQuery s) \<and> CHR ''='' \<notin> set (escape EncQuery s)"
    using escape_query_set query_char_specials by (fastforce simp: list_all_iff)
  then show ?thesis by (simp add: parse_pair_def cut_append)
qed

lemma parse_encode_pairs: "parse_query (encode_pairs ps) = ps"
proof (cases "ps = []")
  case True then show ?thesis by (simp add: encode_pairs_def parse_query_def parse_pair_def)
next
  case False
  have "CHR ''&'' \<notin> set (escape EncQuery s)" for s
    using escape_query_set [of s] query_char_specials by (fastforce simp: list_all_iff)
  then have "split_on CHR ''&'' (encode_pairs ps) = map (\<lambda>(k, v). escape EncQuery k @ CHR ''='' # escape EncQuery v) ps"
    using False unfolding encode_pairs_def by (subst split_join) auto
  then show ?thesis by (simp add: parse_query_def comp_def case_prod_beta parse_pair_escaped)
qed


lemma map_of_value_pairs:
  fixes f :: "'a \<Rightarrow> 'b list"
  shows "map_of (concat (map (\<lambda>k. map (Pair k) (f k)) ks)) k
     = (if k \<in> set ks then (case f k of [] \<Rightarrow> None | v # _ \<Rightarrow> Some v) else None)"
proof (induction ks)
  case (Cons k' ks)
  have "map_of (map (Pair k') vs) k = (if k = k' then (case vs of [] \<Rightarrow> None | v # _ \<Rightarrow> Some v) else None)"
    for vs :: "'b list" by (induction vs) auto
  then show ?case using Cons.IH by (cases "k = k'") (simp_all add: map_add_def split: list.split)
qed simp

text \<open>What a server reads of an encoded query: the first value of each key.\<close>

lemma query_lookup:
  assumes "finite (Mapping.keys m)"
  shows "map_of (parse_query (values_Encode m)) k
    = (case Mapping.lookup m k of Some (v # _) \<Rightarrow> Some v | _ \<Rightarrow> None)"
proof -
  have "k \<in> set (Mapping.ordered_keys m) \<longleftrightarrow> Mapping.lookup m k \<noteq> None"
    using assms unfolding lookup_iff_keys by (simp add: ordered_keys_def)
  then show ?thesis
    by (auto simp: values_Encode_def parse_encode_pairs value_pairs_def map_of_value_pairs split: option.split list.split)
qed

text \<open>The first value of a key, in a parsed query and in the map made of it.\<close>

definition first_value :: "url_values \<Rightarrow> string \<Rightarrow> string option" where
  "first_value m k = (case Mapping.lookup m k of Some (v # _) \<Rightarrow> Some v | _ \<Rightarrow> None)"

lemma first_value_fold:
  "first_value (fold values_Add ps m) k = (case first_value m k of None \<Rightarrow> map_of ps k | Some v \<Rightarrow> Some v)"
proof (induction ps arbitrary: m)
  case (Cons p ps)
  have "first_value (values_Add p m) k = (case first_value m k of None \<Rightarrow> map_of [p] k | Some v \<Rightarrow> Some v)"
    by (cases p) (auto simp: first_value_def values_Add_def lookup_update' split: option.split list.split)
  with Cons show ?case by (cases p) (auto split: option.splits)
qed (simp split: option.split)

lemma first_value_Query: "first_value (url_Query u) k = map_of (parse_query (u_raw_query u)) k"
  by (simp add: url_Query_def first_value_fold) (simp add: first_value_def lookup_empty)

lemma finite_Query: "finite (Mapping.keys (url_Query u))"
proof -
  have "finite (Mapping.keys m) \<Longrightarrow> finite (Mapping.keys (fold values_Add ps m))" for ps m
    by (induction ps arbitrary: m) (simp_all add: values_Add_def)
  then show ?thesis by (simp add: url_Query_def)
qed

end
