(* ===== verification/Http_Client.thy ===== *)
theory Http_Client
  imports Go_Url Http_Handlers
begin

text \<open>
  The client side of \<open>net/http\<close> as the package uses it: requests built from a URL's text, the \<open>HTTPDoer\<close>
  that carries them out, and replies. A doer acts on a state: the far end's, in a model that connects the two.
\<close>

text \<open>A request: its URL, the headers in the order they are set, and the bytes of its body, if it has one.\<close>

record client_request =
  cq_method :: string
  cq_url :: url
  cq_headers :: "(string \<times> string) list"
  cq_body :: "string option"

text \<open>
  A reply: status, the two headers the client reads, the announced length (-1 when unknown), the bytes of the
  body and the error that ends them, if any.
\<close>

record http_reply =
  hr_status :: int
  hr_content_type :: string
  hr_cache_control :: string
  hr_content_length :: int
  hr_body :: string
  hr_body_err :: "gerror option"

type_synonym 's http_doer = "client_request \<Rightarrow> 's \<Rightarrow> http_reply result \<times> 's"

definition remove_empty_port :: "string \<Rightarrow> string" where
  "remove_empty_port h = (if has_suffix_char CHR '':'' h then butlast h else h)"

text \<open>\<open>http.NewRequestWithContext\<close>, for the methods the package sends.\<close>

definition NewRequest :: "(string \<Rightarrow> string + string) \<Rightarrow> string \<Rightarrow> string \<Rightarrow> string option \<Rightarrow> client_request result" where
  "NewRequest ip_literal meth raw body =
     (case url_Parse ip_literal raw of
        Inl err \<Rightarrow> Inl (Opaque err)
      | Inr u \<Rightarrow> Inr \<lparr>cq_method = meth, cq_url = u\<lparr>u_host := remove_empty_port (u_host u)\<rparr>,
          cq_headers = [], cq_body = body\<rparr>)"

text \<open>
  \<open>json.NewDecoder(resp.Body).Decode\<close>: the first value of the body; what follows it is not read. Without one,
  the error that ended the body is reported; a body of white space gives \<open>io.EOF\<close>. The model does not look for
  a syntax error in what came before an error of the transport.
\<close>

definition decode_reply :: "(json \<Rightarrow> json_err + 'a) \<Rightarrow> http_reply \<Rightarrow> 'a result" where
  "decode_reply dec resp =
     (case parse_prefix (hr_body resp) of
        Some (v, _) \<Rightarrow> (case dec v of Inl je \<Rightarrow> Inl (JsonErr je) | Inr a \<Rightarrow> Inr a)
      | None \<Rightarrow>
          Inl (case hr_body_err resp of
                 Some e \<Rightarrow> e
               | None \<Rightarrow> if skip_ws (hr_body resp) = [] then Opaque ''EOF'' else JsonErr Syntax_Error))"

end
