(* ===== verification/Url_Plain.thy ===== *)
theory Url_Plain
  imports Http_Client
begin

text \<open>
  Plain URLs: an \<open>http\<close> or \<open>https\<close> URL whose host is a name with an optional port and whose path has segments
  that need no escape. They parse to what they say, print back, and a reference of plain segments
  is appended to them. The properties of the client speak of base URLs of this kind.
\<close>

definition seg_char :: "char \<Rightarrow> bool" where
  "seg_char c \<longleftrightarrow> is_alnum c \<or> c \<in> set ''-_.~:''"

definition plain_seg :: "string \<Rightarrow> bool" where
  "plain_seg s \<longleftrightarrow> s \<notin> {[], ''.'', ''..''} \<and> list_all seg_char s"

definition path_of :: "string list \<Rightarrow> string" where
  "path_of segs = concat (map (\<lambda>s. CHR ''/'' # s) segs)"

definition host_char :: "char \<Rightarrow> bool" where
  "host_char c \<longleftrightarrow> is_alnum c \<or> c \<in> set ''-.:''"

definition plain_host :: "string \<Rightarrow> bool" where
  "plain_host h \<longleftrightarrow> h \<noteq> [] \<and> hd h \<noteq> CHR '':'' \<and> last h \<noteq> CHR '':''
     \<and> list_all host_char h
     \<and> list_all is_digit (case cut CHR '':'' h of (_, p, _) \<Rightarrow> p)"

definition plain_scheme :: "string \<Rightarrow> bool" where
  "plain_scheme s \<longleftrightarrow> s = ''http'' \<or> s = ''https''"

definition plain_query :: "string \<Rightarrow> bool" where
  "plain_query q \<longleftrightarrow> list_all (\<lambda>c. query_char c \<or> c \<in> set ''&='') q"

definition plain_url :: "string \<Rightarrow> string \<Rightarrow> string list \<Rightarrow> string \<Rightarrow> url" where
  "plain_url scheme host segs query =
     zero_url\<lparr>u_scheme := scheme, u_host := host, u_path := path_of segs, u_raw_query := query\<rparr>"

definition plain_text :: "string \<Rightarrow> string \<Rightarrow> string list \<Rightarrow> string \<Rightarrow> string" where
  "plain_text scheme host segs query =
     scheme @ ''://'' @ host @ path_of segs @ (if query = [] then [] else CHR ''?'' # query)"

section \<open>Characters\<close>

lemma path_of_simps [simp]:
  "path_of [] = []" "path_of (s # segs) = CHR ''/'' # s @ path_of segs" "path_of (xs @ ys) = path_of xs @ path_of ys"
  by (simp_all add: path_of_def)

lemma seg_char_specials:
  assumes "seg_char c" shows "c \<notin> set ''/?#%@[] *'' \<and> \<not> should_escape EncPath c \<and> \<not> has_ctl [c]"
proof -
  have "\<forall>c. seg_char c \<longrightarrow> c \<notin> set ''/?#%@[] *'' \<and> \<not> should_escape EncPath c \<and> \<not> has_ctl [c]"
    by code_simp
  with assms show ?thesis by blast
qed

lemma path_of_set:
  assumes "list_all plain_seg segs" and "c \<in> set (path_of segs)" shows "c = CHR ''/'' \<or> seg_char c"
  using assms by (induction segs) (auto simp: plain_seg_def list_all_iff)

lemma escape_id: "(\<And>c. c \<in> set s \<Longrightarrow> \<not> should_escape m c) \<Longrightarrow> escape m s = s"
  by (induction s) (simp_all add: escape_def escape_char_def)

lemma unescape_id:
  "(\<And>c. c \<in> set s \<Longrightarrow> c \<noteq> CHR ''%'' \<and> \<not> should_escape m c) \<Longrightarrow> m \<noteq> EncQuery \<Longrightarrow> unescape m s = Inr s"
  by (induction s) simp_all

lemma slash_path: "\<not> should_escape EncPath CHR ''/''"
  by (simp add: should_escape_def)

lemma path_of_escape:
  assumes "list_all plain_seg segs"
  shows "escape EncPath (path_of segs) = path_of segs" "unescape EncPath (path_of segs) = Inr (path_of segs)"
proof -
  have *: "c \<noteq> CHR ''%'' \<and> \<not> should_escape EncPath c" if "c \<in> set (path_of segs)" for c
    using path_of_set [OF assms that] seg_char_specials [of c] slash_path by auto
  then show "escape EncPath (path_of segs) = path_of segs" by (intro escape_id) simp
  from * show "unescape EncPath (path_of segs) = Inr (path_of segs)" by (intro unescape_id) simp_all
qed

lemma set_path_plain:
  assumes "list_all plain_seg segs" and "u_raw_path u = []"
  shows "set_path (path_of segs) u = Inr (u\<lparr>u_path := path_of segs\<rparr>)"
  using assms by (simp add: set_path_def path_of_escape)

lemma host_chars:
  assumes "plain_host h" and "c \<in> set h"
  shows "c \<notin> set ''/?#%@[]'' \<and> \<not> should_escape EncHost c \<and> \<not> has_ctl [c]"
proof -
  have "\<forall>c. host_char c \<longrightarrow> c \<notin> set ''/?#%@[]'' \<and> \<not> should_escape EncHost c \<and> \<not> has_ctl [c]"
    by code_simp
  with assms show ?thesis by (auto simp: plain_host_def list_all_iff)
qed

lemma host_escape:
  assumes "plain_host h" shows "escape EncHost h = h" "unescape EncHost h = Inr h"
proof -
  show "escape EncHost h = h" using host_chars [OF assms] by (intro escape_id) blast
  have "c \<noteq> CHR ''%'' \<and> \<not> should_escape EncHost c" if "c \<in> set h" for c
    using host_chars [OF assms that] by simp
  then show "unescape EncHost h = Inr h" by (intro unescape_id) simp_all
qed

lemma remove_empty_port_plain [simp]: "plain_host h \<Longrightarrow> remove_empty_port h = h"
  by (simp add: plain_host_def remove_empty_port_def has_suffix_char_def)


lemma query_chars:
  assumes "plain_query q" and "c \<in> set q" shows "c \<notin> set ''?#'' \<and> \<not> has_ctl [c]"
proof -
  have "\<forall>c. query_char c \<or> c \<in> set ''&='' \<longrightarrow> c \<notin> set ''?#'' \<and> \<not> has_ctl [c]"
    by code_simp
  with assms show ?thesis by (auto simp: plain_query_def list_all_iff)
qed

lemma has_ctl_iff: "has_ctl s \<longleftrightarrow> (\<exists>c \<in> set s. has_ctl [c])"
  by (simp add: has_ctl_def list_ex_iff)

lemma path_of_chars:
  assumes "list_all plain_seg segs" and "c \<in> set (path_of segs)" shows "c \<notin> set ''?#%'' \<and> \<not> has_ctl [c]"
proof -
  have "\<not> has_ctl ''/''" by code_simp
  then show ?thesis using path_of_set [OF assms] seg_char_specials [of c] by auto
qed

lemma scheme_chars: "plain_scheme s \<Longrightarrow> list_all seg_char s"
proof -
  have "list_all seg_char ''http''" "list_all seg_char ''https''" by code_simp+
  then show "plain_scheme s \<Longrightarrow> list_all seg_char s" by (auto simp: plain_scheme_def)
qed

section \<open>Parsing and printing\<close>

lemma scheme_found:
  assumes "plain_scheme s" shows "get_scheme (s @ CHR '':'' # r) = Inr (s, r)" "to_lower s = s"
  using assms by (auto simp: plain_scheme_def get_scheme_def is_alnum_def is_digit_def to_lower_def ascii_lower_def)

lemma cut_absent: "(\<And>x. x \<in> set s \<Longrightarrow> x \<noteq> c) \<Longrightarrow> cut c s = (s, [], False)"
  by (intro cut_free) blast

lemma cut_query_plain:
  assumes "CHR ''?'' \<notin> set p" and "plain_query q" and "u_force_query u = False" and "u_raw_query u = []"
  shows "cut_query (p @ (if q = [] then [] else CHR ''?'' # q)) u = (p, u\<lparr>u_raw_query := q\<rparr>)"
  using assms by (auto simp: cut_query_def cut_free cut_append)

lemma authority_split:
  assumes "plain_host h"
  shows "takeWhile (\<lambda>c. c \<noteq> CHR ''/'') (h @ path_of segs) = h"
    "dropWhile (\<lambda>c. c \<noteq> CHR ''/'') (h @ path_of segs) = path_of segs"
proof -
  have "\<And>c. c \<in> set h \<Longrightarrow> c \<noteq> CHR ''/''" using host_chars [OF assms] by auto
  then show "takeWhile (\<lambda>c. c \<noteq> CHR ''/'') (h @ path_of segs) = h"
    "dropWhile (\<lambda>c. c \<noteq> CHR ''/'') (h @ path_of segs) = path_of segs"
    by (cases segs; simp add: takeWhile_append dropWhile_append)+
qed

lemma parse_authority_plain:
  assumes "plain_host h" and "plain_scheme scheme"
  shows "parse_authority ip_literal scheme h = Inr (None, h)"
proof -
  have "CHR ''@'' \<notin> set h" "CHR ''['' \<notin> set h" using host_chars [OF assms(1)] by auto
  moreover have "valid_port (case cut CHR '':'' h of (_, p, _) \<Rightarrow> p)"
    using assms(1) by (simp add: plain_host_def valid_port_def)
  moreover have "scheme \<noteq> ''postgres'' \<and> scheme \<noteq> ''postgresql''" using assms(2) by (auto simp: plain_scheme_def)
  ultimately show ?thesis using host_escape(2) [OF assms(1)]
    by (simp add: parse_authority_def last_cut_def parse_host_def Let_def split: prod.splits)
qed

lemma path_head: "list_all plain_seg segs \<Longrightarrow> slashes 1 (path_of segs) \<longleftrightarrow> segs \<noteq> []"
  by (cases segs) (simp_all add: slashes_def)

lemma url_Parse_plain:
  assumes "plain_scheme scheme" and "plain_host h" and "list_all plain_seg segs" and "plain_query q"
  shows "url_Parse ip_literal (plain_text scheme h segs q) = Inr (plain_url scheme h segs q)"
proof -
  let ?p = "''//'' @ h @ path_of segs" and ?q = "if q = [] then [] else CHR ''?'' # q"
  let ?t = "plain_text scheme h segs q"
  have t: "?t = scheme @ CHR '':'' # ?p @ ?q" by (simp add: plain_text_def)
  have ctl: "\<not> has_ctl ''://?''" by code_simp
  have set: "c \<in> set scheme \<or> c \<in> set ''://?'' \<or> c \<in> set h \<or> c \<in> set (path_of segs) \<or> c \<in> set q"
    if "c \<in> set ?t" for c
    using that by (auto simp: t split: if_splits)
  have chars: "c \<noteq> CHR ''#'' \<and> \<not> has_ctl [c]" if "c \<in> set ?t" for c
    using set [OF that] scheme_chars [OF assms(1)] seg_char_specials [of c] host_chars [OF assms(2), of c]
      path_of_chars [OF assms(3), of c] query_chars [OF assms(4), of c] ctl has_ctl_iff [of "''://?''"]
    by (auto simp: list_all_iff)
  have "CHR ''#'' \<notin> set ?t" "\<not> has_ctl ?t" using chars has_ctl_iff [of ?t] by blast+
  moreover have "?t \<noteq> ''*''" using assms(1) by (auto simp: t plain_scheme_def)
  moreover have "CHR ''?'' \<notin> set ?p"
    using host_chars [OF assms(2)] path_of_chars [OF assms(3)] by fastforce
  then have "cut_query (?p @ ?q) (zero_url\<lparr>u_scheme := scheme\<rparr>) = (?p, zero_url\<lparr>u_scheme := scheme, u_raw_query := q\<rparr>)"
    using assms(4) by (subst cut_query_plain) (simp_all add: zero_url_def)
  moreover have "slashes 1 ?p" "slashes 2 ?p" "scheme \<noteq> []" using assms(1)
    by (auto simp: slashes_def plain_scheme_def numeral_2_eq_2)
  moreover have "set_path (path_of segs) (zero_url\<lparr>u_scheme := scheme, u_raw_query := q, u_host := h\<rparr>)
      = Inr (plain_url scheme h segs q)"
    using assms(3) by (subst set_path_plain) (simp_all add: plain_url_def zero_url_def)
  ultimately show ?thesis
    using scheme_found [OF assms(1)] parse_authority_plain [OF assms(2,1)] authority_split [OF assms(2)]
    unfolding url_Parse_def parse_no_fragment_def parse_hier_def
    by (simp add: cut_free t zero_url_def plain_url_def numeral_2_eq_2)
qed

lemma url_String_plain:
  assumes "plain_scheme scheme" and "plain_host h" and "list_all plain_seg segs"
  shows "url_String (plain_url scheme h segs q) = plain_text scheme h segs q"
proof -
  have "scheme \<noteq> []" "h \<noteq> []" using assms by (auto simp: plain_scheme_def plain_host_def)
  moreover have "path_of segs = [] \<or> hd (path_of segs) = CHR ''/''" by (cases segs) simp_all
  moreover have "escaped_path (plain_url scheme h segs q) = path_of segs"
    using path_of_escape [OF assms(3)] by (cases segs) (auto simp: escaped_path_def plain_url_def zero_url_def)
  ultimately show ?thesis
    using host_escape(1) [OF assms(2)]
    by (auto simp: url_String_def url_hier_def url_authority_def Let_def plain_url_def zero_url_def plain_text_def)
qed


section \<open>Resolving\<close>

text \<open>A relative reference: the segments without the leading slash, the first without a colon.\<close>

definition plain_ref :: "string list \<Rightarrow> bool" where
  "plain_ref es \<longleftrightarrow> es \<noteq> [] \<and> list_all plain_seg es \<and> CHR '':'' \<notin> set (hd es)"

definition ref_text :: "string list \<Rightarrow> string" where
  "ref_text es = tl (path_of es)"

lemma scheme_end_none: "CHR '':'' \<notin> set (takeWhile (\<lambda>c. c \<noteq> CHR ''/'') s) \<Longrightarrow> scheme_end i s = None"
proof (induction s arbitrary: i)
  case (Cons c s)
  then show ?case by (cases "c = CHR ''/''") (auto simp: is_alnum_def is_digit_def)
qed simp

lemma seg_no_slash: "plain_seg e \<Longrightarrow> CHR ''/'' \<notin> set e"
  using seg_char_specials [of "CHR ''/''"] by (auto simp: plain_seg_def list_all_iff)

lemma ref_text_Cons: "ref_text (e # es) = e @ path_of es"
  by (simp add: ref_text_def)

lemma takeWhile_seg: "CHR ''/'' \<notin> set e \<Longrightarrow> takeWhile (\<lambda>c. c \<noteq> CHR ''/'') (e @ path_of es) = e"
  by (cases es) (auto simp: takeWhile_append)

lemma seg_not_slash: "plain_seg e \<Longrightarrow> \<exists>c cs. e = c # cs \<and> c \<noteq> CHR ''/''"
  using seg_no_slash [of e] by (cases e) (auto simp: plain_seg_def)

lemma url_Parse_ref:
  assumes "plain_ref es"
  shows "url_Parse ip_literal (ref_text es) = Inr (zero_url\<lparr>u_path := ref_text es\<rparr>)"
proof -
  obtain e rest where es: "es = e # rest" and e: "plain_seg e" "CHR '':'' \<notin> set e" and rest: "list_all plain_seg rest"
    using assms by (cases es) (auto simp: plain_ref_def)
  obtain c cs where hd: "e = c # cs" "c \<noteq> CHR ''/''" using seg_not_slash [OF e(1)] by blast
  have t: "ref_text es = e @ path_of rest" by (simp add: es ref_text_Cons)
  have chars: "d \<notin> set ''?#%'' \<and> \<not> has_ctl [d]" if "d \<in> set (ref_text es)" for d
    using that e(1) path_of_chars [OF rest, of d] seg_char_specials [of d] by (auto simp: t plain_seg_def list_all_iff)
  have star: "ref_text es \<noteq> ''*''" using e(1) seg_char_specials [of "CHR ''*''"] by (auto simp: t hd plain_seg_def)
  have "get_scheme (ref_text es) = Inr ([], ref_text es)"
    using scheme_end_none [of "ref_text es" 0] e(2) takeWhile_seg [OF seg_no_slash [OF e(1)], of rest]
    by (simp add: get_scheme_def t)
  moreover have "CHR ''?'' \<notin> set (ref_text es)" "CHR ''#'' \<notin> set (ref_text es)" "\<not> has_ctl (ref_text es)"
    using chars has_ctl_iff [of "ref_text es"] by fastforce+
  moreover have "\<not> slashes 1 (ref_text es)" "\<not> slashes 2 (ref_text es)" using hd by (simp_all add: t slashes_def numeral_2_eq_2)
  moreover have "CHR '':'' \<notin> set (takeWhile (\<lambda>c. c \<noteq> CHR ''/'') (ref_text es))"
    using e(2) takeWhile_seg [OF seg_no_slash [OF e(1)], of rest] by (simp add: t)
  moreover have "\<not> should_escape EncPath d" if "d \<in> set (ref_text es)" for d
    using that e(1) path_of_set [OF rest, of d] slash_path seg_char_specials [of d] by (auto simp: t plain_seg_def list_all_iff)
  then have "escape EncPath (ref_text es) = ref_text es" "unescape EncPath (ref_text es) = Inr (ref_text es)"
    using chars by (auto intro!: escape_id unescape_id)
  ultimately show ?thesis using star
    by (simp add: url_Parse_def parse_no_fragment_def cut_free cut_query_def parse_hier_def set_path_def zero_url_def
        to_lower_def)
qed

lemma dot_segments_plain: "list_all plain_seg es \<Longrightarrow> dot_segments es dst False = dst @ path_of es"
  by (induction es arbitrary: dst) (auto simp: plain_seg_def)

lemma split_path_of: "list_all plain_seg es \<Longrightarrow> es \<noteq> [] \<Longrightarrow> split_on CHR ''/'' (ref_text es) = es"
proof (induction es)
  case (Cons e es)
  then show ?case using seg_no_slash [of e]
    by (cases es) (simp_all add: ref_text_Cons split_on_free split_on_append)
qed simp

lemma path_of_ref: "es \<noteq> [] \<Longrightarrow> path_of es = CHR ''/'' # ref_text es"
  by (cases es) (simp_all add: ref_text_def)

lemma last_plain: "list_all plain_seg es \<Longrightarrow> es \<noteq> [] \<Longrightarrow> last es \<notin> {''.'', ''..''}"
  using last_in_set [of es] by (auto simp: list_all_iff plain_seg_def)

lemma ref_text_hd:
  assumes "list_all plain_seg es" and "es \<noteq> []"
  shows "ref_text es \<noteq> []" "hd (ref_text es) \<noteq> CHR ''/''"
proof -
  obtain e rest where es: "es = e # rest" and e: "plain_seg e" using assms by (cases es) auto
  then show "ref_text es \<noteq> []" "hd (ref_text es) \<noteq> CHR ''/''"
    using seg_not_slash [OF e] by (auto simp: ref_text_Cons)
qed

lemma resolve_from_root:
  assumes "list_all plain_seg es" and "es \<noteq> []"
  shows "url_resolve_path [] (ref_text es) = path_of es"
proof -
  obtain e rest where es: "es = e # rest" and e: "plain_seg e" "list_all plain_seg rest" using assms by (cases es) auto
  have "dot_segments es ''/'' True = path_of es"
    using e dot_segments_plain [OF e(2)] by (simp add: es plain_seg_def)
  moreover have "\<not> slashes 2 (path_of es)"
    using seg_not_slash [OF e(1)] by (auto simp: es slashes_def numeral_2_eq_2)
  ultimately show ?thesis
    using ref_text_hd [OF assms] last_plain [OF assms] split_path_of [OF assms]
    by (simp add: url_resolve_path_def last_cut_def Let_def)
qed

lemma resolve_from_dir:
  assumes "list_all plain_seg es" and "es \<noteq> []" and "list_all plain_seg bs"
  shows "url_resolve_path (path_of bs @ ''/'') (ref_text es) = path_of (bs @ es)"
proof -
  have xs: "list_all plain_seg (bs @ es)" "bs @ es \<noteq> []" using assms by simp_all
  have full: "path_of bs @ CHR ''/'' # ref_text es = CHR ''/'' # ref_text (bs @ es)"
    using path_of_ref [OF assms(2)] path_of_ref [OF xs(2)] by simp
  have "split_on CHR ''/'' (CHR ''/'' # ref_text (bs @ es)) = [] # (bs @ es)"
    using split_path_of [OF xs] by simp
  moreover have "dot_segments ([] # (bs @ es)) ''/'' True = CHR ''/'' # path_of (bs @ es)"
    using dot_segments_plain [OF xs(1)] by simp
  moreover have "slashes 2 (CHR ''/'' # path_of (bs @ es))"
    using path_of_ref [OF xs(2)] by (simp add: slashes_def numeral_2_eq_2)
  moreover have "last_cut CHR ''/'' (path_of bs @ ''/'') = Some (path_of bs, [])"
    by (simp add: last_cut_def)
  ultimately show ?thesis
    using ref_text_hd [OF assms(1,2)] last_plain [OF xs] full xs(2)
    by (simp add: url_resolve_path_def Let_def)
qed

lemma trim_path_of: "es \<noteq> [] \<Longrightarrow> trim_prefix_char CHR ''/'' (path_of es) = ref_text es"
  by (simp add: path_of_ref trim_prefix_char_def)

text \<open>The base with its path made a directory, and the reference resolved against it.\<close>

definition as_dir :: "url \<Rightarrow> url" where
  "as_dir u = (if u_path u \<noteq> [] \<and> \<not> has_suffix_char CHR ''/'' (u_path u) then u\<lparr>u_path := u_path u @ ''/''\<rparr> else u)"

lemma last_path_of: "list_all plain_seg bs \<Longrightarrow> bs \<noteq> [] \<Longrightarrow> \<not> has_suffix_char CHR ''/'' (path_of bs)"
proof (induction bs)
  case (Cons b bs)
  then obtain c cs where "b = c # cs" using seg_not_slash [of b] by auto
  moreover have "CHR ''/'' \<notin> set b" using seg_no_slash Cons.prems by simp
  then have "last b \<noteq> CHR ''/''" using \<open>b = c # cs\<close> last_in_set [of b] by auto
  ultimately show ?case using Cons by (cases "bs = []") (auto simp: has_suffix_char_def path_of_ref)
qed simp

lemma resolve_plain:
  assumes "plain_ref es" and "list_all plain_seg bs"
  shows "ResolveReference (as_dir (plain_url scheme h bs q)) (zero_url\<lparr>u_path := ref_text es\<rparr>)
    = plain_url scheme h (bs @ es) []"
proof -
  have es: "list_all plain_seg es" "es \<noteq> []" using assms(1) by (simp_all add: plain_ref_def)
  have xs: "list_all plain_seg (bs @ es)" using es assms by simp
  let ?b = "as_dir (plain_url scheme h bs q)" and ?r = "zero_url\<lparr>u_path := ref_text es\<rparr>"
  have b: "u_scheme ?b = scheme" "u_host ?b = h" "u_user ?b = None" "u_raw_path ?b = []"
    by (simp_all add: as_dir_def plain_url_def zero_url_def)
  have "c \<in> set (ref_text es) \<Longrightarrow> \<not> should_escape EncPath c" for c
    using path_of_set [OF es(1), of c] slash_path seg_char_specials [of c] by (auto simp: path_of_ref [OF es(2)])
  then have r: "escaped_path ?r = ref_text es"
    using escape_id [of "ref_text es" EncPath] by (simp add: escaped_path_def zero_url_def)
  have p: "url_resolve_path (escaped_path ?b) (ref_text es) = path_of (bs @ es)"
  proof (cases "bs = []")
    case True
    then have "escaped_path ?b = []"
      by (simp add: as_dir_def plain_url_def zero_url_def escaped_path_def escape_def)
    with True resolve_from_root [OF es] show ?thesis by simp
  next
    case False
    then have "u_path ?b = path_of bs @ ''/''"
      using last_path_of [OF assms(2)] path_of_ref [OF False] by (simp add: as_dir_def plain_url_def zero_url_def)
    moreover have "escape EncPath (path_of bs @ ''/'') = path_of bs @ ''/''"
      using path_of_escape(1) [OF assms(2)] slash_path by (simp add: escape_def escape_char_def)
    moreover have "path_of bs @ ''/'' \<noteq> ''*''" using path_of_ref [OF False] by simp
    ultimately have "escaped_path ?b = path_of bs @ ''/''" using b(4) by (simp add: escaped_path_def)
    with resolve_from_dir [OF es assms(2)] show ?thesis by simp
  qed
  have "set_path (path_of (bs @ es)) (zero_url\<lparr>u_path := ref_text es, u_scheme := scheme, u_host := h\<rparr>)
      = Inr (plain_url scheme h (bs @ es) [])"
    using set_path_plain [OF xs] by (simp add: plain_url_def zero_url_def)
  then show ?thesis using ref_text_hd(1) [OF es] b r p
    by (simp add: ResolveReference_def Let_def or_else_def zero_url_def)
qed


lemma plain_query_simps [simp]:
  "plain_query []" "plain_query (s @ t) \<longleftrightarrow> plain_query s \<and> plain_query t" "plain_query (escape EncQuery s)"
  using escape_query_set [of s] by (auto simp: plain_query_def list_all_iff)

lemma plain_query_encode [simp]: "plain_query (values_Encode m)"
proof -
  have join: "\<forall>x \<in> set xs. plain_query x \<Longrightarrow> plain_query (join_with ''&'' xs)" for xs
    by (induction "''&''" xs rule: join_with.induct) (auto simp: plain_query_def)
  have "plain_query ''=''" by (simp add: plain_query_def)
  then have "\<forall>x \<in> set (map (\<lambda>(k, v). escape EncQuery k @ ''='' @ escape EncQuery v) ps). plain_query x" for ps
    by (auto simp del: append_Cons append_Nil)
  then show ?thesis unfolding values_Encode_def encode_pairs_def by (rule join)
qed

end
