(* ===== verification/Challenger.thy ===== *)
theory Challenger
  imports Push_Handler Url_Plain
begin

text \<open>
  The verification handshake of the receiver (\<open>receiver/verification.go\<close>). The table of challenges in
  flight maps a state value to a channel; a channel is a number, and the one value its buffer can hold is in
  \<open>ch_buf\<close>. Calls of \<open>Challenge\<close> run concurrently with each other and with the wrapped sink: \<open>world_step\<close> interleaves
  their atomic parts (those under the mutex, and the choice made by \<open>select\<close>). The state
  drawn from \<open>crypto/rand\<close> and the outcome of the POST are arguments.
\<close>

section \<open>The table\<close>

record challenger =
  ch_pending :: "(string, nat) mapping"
  ch_next :: nat
  ch_buf :: "(nat, string) mapping"

definition NewVerificationChallenger :: challenger where
  "NewVerificationChallenger = \<lparr>ch_pending = Mapping.empty, ch_next = 0, ch_buf = Mapping.empty\<rparr>"

definition register_state :: "string \<Rightarrow> challenger \<Rightarrow> nat result \<times> challenger" where
  "register_state state c =
     (if Mapping.lookup (ch_pending c) state \<noteq> None
      then (Inl (Opaque ''ssf/receiver: verification state already in flight''), c)
      else (Inr (ch_next c), c\<lparr>ch_pending := Mapping.update state (ch_next c) (ch_pending c),
              ch_next := Suc (ch_next c)\<rparr>))"

definition unregister_state :: "string \<Rightarrow> challenger \<Rightarrow> challenger" where
  "unregister_state state c = c\<lparr>ch_pending := Mapping.delete state (ch_pending c)\<rparr>"

section \<open>Intercepting verification SETs\<close>

text \<open>
  The claims are decoded into a struct whose one field is the map of events; a \<open>RawMessage\<close> is kept as the
  document it spells.
\<close>

definition h_events ::
  "string \<Rightarrow> string \<Rightarrow> json \<Rightarrow> (string, json) mapping option \<Rightarrow> json_err + (string, json) mapping option" where
  "h_events k src v m = (if k = ''events'' then dec_map Inr v m else Inr m)"

definition extractVerificationState :: "string \<Rightarrow> string option" where
  "extractVerificationState payload =
     (case unmarshal (\<lambda>v. dec_struct h_events v None) payload of
        Inl _ \<Rightarrow> None
      | Inr None \<Rightarrow> None
      | Inr (Some events) \<Rightarrow>
          (case Mapping.lookup events EventTypeVerification of
             None \<Rightarrow> None
           | Some raw \<Rightarrow>
               (case dec_verification_event raw of
                  Inl _ \<Rightarrow> None
                | Inr ev \<Rightarrow> if vev_state ev = [] then None else Some (vev_state ev))))"

definition intercept :: "string \<Rightarrow> challenger \<Rightarrow> bool \<times> challenger" where
  "intercept payload c =
     (case extractVerificationState payload of
        None \<Rightarrow> (False, c)
      | Some state \<Rightarrow>
          (case Mapping.lookup (ch_pending c) state of
             None \<Rightarrow> (False, c)
           | Some waiter \<Rightarrow>
               (True, c\<lparr>ch_pending := Mapping.delete state (ch_pending c),
                  ch_buf := Mapping.update waiter payload (ch_buf c)\<rparr>)))"

text \<open>The wrapped sink, over the challenger and the state of the downstream sink (which may be nil).\<close>

definition WrapSink :: "'s sink option \<Rightarrow> (challenger \<times> 's) sink" where
  "WrapSink downstream payload cs =
     (case intercept payload (fst cs) of
        (True, c') \<Rightarrow> (None, (c', snd cs))
      | (False, c') \<Rightarrow>
          (case downstream of
             None \<Rightarrow> (None, (c', snd cs))
           | Some sink \<Rightarrow> (case sink payload (snd cs) of (r, s') \<Rightarrow> (r, (c', s')))))"

section \<open>Options\<close>

definition defaultChallengeTimeout :: int where "defaultChallengeTimeout = 30 * second"

definition challengeStateBytes :: nat where "challengeStateBytes = 32"

record challenge_options =
  co_endpoint :: string
  co_stream_id :: string
  co_auth_header :: string
  co_state :: string
  co_timeout :: int

type_synonym challenge_option = "challenge_options \<Rightarrow> challenge_options"

definition WithEndpoint :: "string \<Rightarrow> challenge_option" where "WithEndpoint endpoint o' = o'\<lparr>co_endpoint := endpoint\<rparr>"
definition WithStreamID :: "string \<Rightarrow> challenge_option" where "WithStreamID stream_id o' = o'\<lparr>co_stream_id := stream_id\<rparr>"
definition WithChallengeAuthorizationHeader :: "string \<Rightarrow> challenge_option" where
  "WithChallengeAuthorizationHeader header o' = o'\<lparr>co_auth_header := header\<rparr>"
definition WithState :: "string \<Rightarrow> challenge_option" where "WithState state o' = o'\<lparr>co_state := state\<rparr>"
definition WithTimeout :: "int \<Rightarrow> challenge_option" where "WithTimeout timeout o' = o'\<lparr>co_timeout := timeout\<rparr>"

text \<open>\<open>base64.RawURLEncoding\<close>: no padding, the alphabet for URLs.\<close>

definition b64_char :: "nat \<Rightarrow> char" where
  "b64_char n = (if n < 26 then char_of (65 + n) else if n < 52 then char_of (97 + (n - 26))
     else if n < 62 then char_of (48 + (n - 52)) else if n = 62 then CHR ''-'' else CHR ''_'')"

fun b64_url :: "nat list \<Rightarrow> string" where
  "b64_url [] = []"
| "b64_url [a] = [b64_char (a div 4), b64_char (a mod 4 * 16)]"
| "b64_url [a, b] = [b64_char (a div 4), b64_char (a mod 4 * 16 + b div 16), b64_char (b mod 16 * 4)]"
| "b64_url (a # b # c # rest) =
     [b64_char (a div 4), b64_char (a mod 4 * 16 + b div 16), b64_char (b mod 16 * 4 + c div 64), b64_char (c mod 64)]
       @ b64_url rest"

text \<open>\<open>rand\<close> is what \<open>rand.Read\<close> gives: \<open>challengeStateBytes\<close> bytes, or an error.\<close>

definition generateState :: "nat list result \<Rightarrow> string result" where
  "generateState rand = (case rand of Inl e \<Rightarrow> Inl e | Inr buf \<Rightarrow> Inr (b64_url buf))"

section \<open>Challenge\<close>

text \<open>
  The part before the POST: options, state, registration. \<open>fmt.Errorf\<close> without \<open>%w\<close> makes a plain error.
\<close>

definition challenge_start ::
  "challenge_option list \<Rightarrow> nat list result \<Rightarrow> challenger
     \<Rightarrow> (challenge_options \<times> string \<times> nat) result \<times> challenger" where
  "challenge_start opts rand c =
     (let cfg = fold (\<lambda>opt x. opt x) opts
        \<lparr>co_endpoint = [], co_stream_id = [], co_auth_header = [], co_state = [], co_timeout = 0\<rparr>
      in if co_endpoint cfg = []
         then (Inl (Opaque ''ssf/receiver: verification endpoint required (use receiver.WithEndpoint)''), c)
         else (case (if co_state cfg = [] then generateState rand else Inr (co_state cfg)) of
                 Inl e \<Rightarrow> (Inl (Wrapf ''ssf/receiver: generate verification state: '' e []), c)
               | Inr state \<Rightarrow>
                   (case register_state state c of
                      (Inl e, c') \<Rightarrow> (Inl e, c')
                    | (Inr waiter, c') \<Rightarrow> (Inr (cfg, state, waiter), c'))))"

definition buildVerificationURL :: "(string \<Rightarrow> string + string) \<Rightarrow> string \<Rightarrow> string \<Rightarrow> string result" where
  "buildVerificationURL ip_literal endpoint stream_id =
     (if stream_id = [] then Inr endpoint
      else (case url_Parse ip_literal endpoint of
              Inl e \<Rightarrow> Inl (Wrapf ''ssf/receiver: parse verification endpoint: '' (Opaque e) [])
            | Inr parsed \<Rightarrow>
                Inr (url_String (parsed\<lparr>u_raw_query := values_Encode (Mapping.update ''stream_id'' [stream_id] (url_Query parsed))\<rparr>))))"

record verification_post =
  vp_url :: string
  vp_authorization :: string
  vp_body :: string

text \<open>The outcome of the POST: not built, no response, or a response (code and status line).\<close>

datatype verification_outcome =
    Not_Built gerror
  | No_Response gerror
  | Answered int string

definition postChallenge ::
  "(string \<Rightarrow> string + string) \<Rightarrow> challenge_options \<Rightarrow> string \<Rightarrow> verification_outcome
     \<Rightarrow> gerror option \<times> verification_post list" where
  "postChallenge ip_literal cfg state outcome =
     (case buildVerificationURL ip_literal (co_endpoint cfg) (co_stream_id cfg) of
        Inl e \<Rightarrow> (Some e, [])
      | Inr target \<Rightarrow>
          (let post = \<lparr>vp_url = target, vp_authorization = co_auth_header cfg,
                 vp_body = jprint (enc_verification_request \<lparr>vr_state = state\<rparr>)\<rparr> in
           case outcome of
             Not_Built e \<Rightarrow> (Some (Wrapf ''ssf/receiver: build verification request: '' e []), [])
           | No_Response e \<Rightarrow> (Some (Wrapf ''ssf/receiver: post verification request: '' e []), [post])
           | Answered status line \<Rightarrow>
               (if status < 200 \<or> 300 \<le> status
                then Some (Opaque (''ssf/receiver: verification endpoint returned '' @ line)) else None, [post])))"

text \<open>The URL leads to the same place, names the stream, and keeps what other parameters a server reads from it.\<close>

lemma buildVerificationURL_plain:
  assumes "plain_scheme scheme" and "plain_host h" and "list_all plain_seg es" and "plain_query q" and "i \<noteq> []"
  shows "\<exists>q'. buildVerificationURL ip_literal (plain_text scheme h es q) i = Inr (plain_text scheme h es q') \<and> plain_query q'
    \<and> (\<forall>k. map_of (parse_query q') k = (if k = ''stream_id'' then Some i else map_of (parse_query q) k))"
proof -
  let ?u = "plain_url scheme h es q"
  let ?m = "Mapping.update ''stream_id'' [i] (url_Query ?u)"
  have q: "u_raw_query ?u = q" by (simp add: plain_url_def)
  have "finite (Mapping.keys ?m)" using finite_Query [of ?u] by simp
  from query_lookup [OF this] have "map_of (parse_query (values_Encode ?m)) k = first_value ?m k" for k
    by (simp add: first_value_def)
  moreover have "first_value ?m k = (if k = ''stream_id'' then Some i else first_value (url_Query ?u) k)" for k
    by (simp add: first_value_def lookup_update')
  moreover have "?u\<lparr>u_raw_query := values_Encode ?m\<rparr> = plain_url scheme h es (values_Encode ?m)" by (simp add: plain_url_def)
  ultimately show ?thesis
    using url_Parse_plain [OF assms(1-4)] url_String_plain [OF assms(1-3), of "values_Encode ?m"] assms(5)
    by (intro exI [of _ "values_Encode ?m"]) (auto simp: buildVerificationURL_def first_value_Query q)
qed

text \<open>The wait: \<open>remaining\<close> is the time left until the context's deadline, if it has one.\<close>

definition resolveTimeout :: "int option \<Rightarrow> int \<Rightarrow> int" where
  "resolveTimeout remaining opt_timeout =
     (case remaining of
        Some from_ctx \<Rightarrow>
          if from_ctx \<le> 0 then 1
          else if 0 < opt_timeout then (if opt_timeout < from_ctx then opt_timeout else from_ctx)
          else from_ctx
      | None \<Rightarrow> if 0 < opt_timeout then opt_timeout else defaultChallengeTimeout)"

datatype wait_event = Waiter_Ready | Ctx_Done ctx_err | Timer_Fired

definition wait_result :: "wait_event \<Rightarrow> nat \<Rightarrow> challenger \<Rightarrow> string result option" where
  "wait_result e waiter c =
     (case e of
        Waiter_Ready \<Rightarrow> map_option Inr (Mapping.lookup (ch_buf c) waiter)
      | Ctx_Done err \<Rightarrow> Some (Inl (CtxErr err))
      | Timer_Fired \<Rightarrow> Some (Inl (Wrapf ''ssf/receiver: waiting for verification SET: ''
          (Sentinel ErrVerificationTimeout) [])))"

section \<open>Concurrent calls\<close>

datatype challenge_call =
    Idle
  | Posting challenge_options string nat
  | Waiting string nat
  | Returned string "string result"

record world =
  wo_ch :: challenger
  wo_calls :: "nat \<Rightarrow> challenge_call"
  wo_forwarded :: "string list"

definition empty_world :: world where
  "empty_world = \<lparr>wo_ch = NewVerificationChallenger, wo_calls = (\<lambda>_. Idle), wo_forwarded = []\<rparr>"

text \<open>The deferred \<open>unregister\<close> runs when a call that has registered returns.\<close>

inductive world_step :: "world \<Rightarrow> world \<Rightarrow> bool" where
  start: "wo_calls w i = Idle \<Longrightarrow> challenge_start opts rand (wo_ch w) = (Inr (cfg, state, waiter), c')
    \<Longrightarrow> world_step w (w\<lparr>wo_ch := c', wo_calls := (wo_calls w)(i := Posting cfg state waiter)\<rparr>)"
| refuse: "wo_calls w i = Idle \<Longrightarrow> challenge_start opts rand (wo_ch w) = (Inl e, c')
    \<Longrightarrow> world_step w (w\<lparr>wo_ch := c', wo_calls := (wo_calls w)(i := Returned [] (Inl e))\<rparr>)"
| posted: "wo_calls w i = Posting cfg state waiter \<Longrightarrow> fst (postChallenge f cfg state outcome) = None
    \<Longrightarrow> world_step w (w\<lparr>wo_calls := (wo_calls w)(i := Waiting state waiter)\<rparr>)"
| post_fails: "wo_calls w i = Posting cfg state waiter \<Longrightarrow> fst (postChallenge f cfg state outcome) = Some e
    \<Longrightarrow> world_step w (w\<lparr>wo_ch := unregister_state state (wo_ch w),
          wo_calls := (wo_calls w)(i := Returned state (Inl e))\<rparr>)"
| ends: "wo_calls w i = Waiting state waiter \<Longrightarrow> wait_result ev waiter (wo_ch w) = Some r
    \<Longrightarrow> world_step w (w\<lparr>wo_ch := unregister_state state (wo_ch w),
          wo_calls := (wo_calls w)(i := Returned state r)\<rparr>)"
| arrives: "intercept payload (wo_ch w) = (hit, c')
    \<Longrightarrow> world_step w (w\<lparr>wo_ch := c', wo_forwarded := (if hit then wo_forwarded w else wo_forwarded w @ [payload])\<rparr>)"

inductive world_reachable :: "world \<Rightarrow> bool" where
  init: "world_reachable empty_world"
| step: "world_reachable w \<Longrightarrow> world_step w w' \<Longrightarrow> world_reachable w'"

inductive_cases world_stepE: "world_step w w'"

section \<open>Invariant\<close>

definition holds :: "challenge_call \<Rightarrow> string \<Rightarrow> nat \<Rightarrow> bool" where
  "holds c state waiter \<longleftrightarrow> (\<exists>cfg. c = Posting cfg state waiter) \<or> c = Waiting state waiter"

lemma holds_simps [simp]:
  "\<not> holds Idle st ch" "\<not> holds (Returned x r) st ch"
  "holds (Posting cfg x y) st ch \<longleftrightarrow> x = st \<and> y = ch" "holds (Waiting x y) st ch \<longleftrightarrow> x = st \<and> y = ch"
  by (auto simp: holds_def)

text \<open>A slot leads to a channel of its own, still empty.\<close>

definition table_inv :: "challenger \<Rightarrow> bool" where
  "table_inv c \<longleftrightarrow>
     (\<forall>st ch. Mapping.lookup (ch_pending c) st = Some ch \<longrightarrow> ch < ch_next c \<and> Mapping.lookup (ch_buf c) ch = None)
     \<and> (\<forall>st st' ch. Mapping.lookup (ch_pending c) st = Some ch \<longrightarrow> Mapping.lookup (ch_pending c) st' = Some ch \<longrightarrow> st = st')
     \<and> (\<forall>ch. Mapping.lookup (ch_buf c) ch \<noteq> None \<longrightarrow> ch < ch_next c)"

text \<open>A call's channel is its own and carries only SETs with its state.\<close>

definition call_inv :: "challenger \<Rightarrow> string \<Rightarrow> nat \<Rightarrow> bool" where
  "call_inv c st ch \<longleftrightarrow> ch < ch_next c
     \<and> (\<forall>p. Mapping.lookup (ch_buf c) ch = Some p \<longrightarrow> extractVerificationState p = Some st)
     \<and> (\<forall>st'. Mapping.lookup (ch_pending c) st' = Some ch \<longrightarrow> st' = st)"

definition world_inv :: "world \<Rightarrow> bool" where
  "world_inv w \<longleftrightarrow> table_inv (wo_ch w)
     \<and> (\<forall>i st ch. holds (wo_calls w i) st ch \<longrightarrow> call_inv (wo_ch w) st ch)
     \<and> (\<forall>i j st st' ch. holds (wo_calls w i) st ch \<longrightarrow> holds (wo_calls w j) st' ch \<longrightarrow> i = j)
     \<and> (\<forall>i st p. wo_calls w i = Returned st (Inr p) \<longrightarrow> extractVerificationState p = Some st)"

lemma challenge_start_Inr:
  assumes "challenge_start opts rand c = (Inr (cfg, state, waiter), c')"
  shows "Mapping.lookup (ch_pending c) state = None \<and> waiter = ch_next c
    \<and> c' = c\<lparr>ch_pending := Mapping.update state (ch_next c) (ch_pending c), ch_next := Suc (ch_next c)\<rparr>"
  using assms
  by (auto simp: challenge_start_def register_state_def Let_def
      split: if_split_asm sum.split_asm prod.split_asm)

lemma challenge_start_Inl: "challenge_start opts rand c = (Inl e, c') \<Longrightarrow> c' = c"
  by (auto simp: challenge_start_def register_state_def Let_def
      split: if_split_asm sum.split_asm prod.split_asm)

lemma table_inv_register:
  assumes "table_inv c" and "Mapping.lookup (ch_pending c) st = None"
  shows "table_inv (c\<lparr>ch_pending := Mapping.update st (ch_next c) (ch_pending c), ch_next := Suc (ch_next c)\<rparr>)"
  using assms unfolding table_inv_def
  by (auto simp: mapping_simps less_Suc_eq)

lemma call_inv_register:
  assumes "table_inv c"
  shows "call_inv c st ch \<Longrightarrow>
      call_inv (c\<lparr>ch_pending := Mapping.update x (ch_next c) (ch_pending c), ch_next := Suc (ch_next c)\<rparr>) st ch"
    and "call_inv (c\<lparr>ch_pending := Mapping.update st (ch_next c) (ch_pending c), ch_next := Suc (ch_next c)\<rparr>) st (ch_next c)"
  using assms unfolding call_inv_def table_inv_def
  by (auto simp: mapping_simps split: if_splits)

lemma unregister_inv:
  "table_inv c \<Longrightarrow> table_inv (unregister_state st c)"
  "call_inv c x ch \<Longrightarrow> call_inv (unregister_state st c) x ch"
  by (auto simp: table_inv_def call_inv_def unregister_state_def mapping_simps split: if_splits)

lemma intercept_cases:
  assumes "intercept payload c = (hit, c')"
  shows "(c' = c \<and> \<not> hit) \<or> (\<exists>state waiter. hit \<and> extractVerificationState payload = Some state
    \<and> Mapping.lookup (ch_pending c) state = Some waiter
    \<and> c' = c\<lparr>ch_pending := Mapping.delete state (ch_pending c), ch_buf := Mapping.update waiter payload (ch_buf c)\<rparr>)"
proof (cases "extractVerificationState payload")
  case (Some state)
  then show ?thesis using assms
    by (cases "Mapping.lookup (ch_pending c) state") (simp_all add: intercept_def)
qed (use assms in \<open>simp add: intercept_def\<close>)

lemma intercept_inv:
  assumes "intercept payload c = (hit, c')"
  shows "table_inv c \<Longrightarrow> table_inv c'" and "call_inv c st ch \<Longrightarrow> call_inv c' st ch"
proof -
  consider "c' = c" | state waiter where "extractVerificationState payload = Some state"
      "Mapping.lookup (ch_pending c) state = Some waiter"
      "c' = c\<lparr>ch_pending := Mapping.delete state (ch_pending c), ch_buf := Mapping.update waiter payload (ch_buf c)\<rparr>"
    using intercept_cases [OF assms] by blast
  note cases = this
  show "table_inv c'" if "table_inv c"
    using cases
  proof cases
    case 2
    with that show ?thesis unfolding table_inv_def by (auto simp: mapping_simps split: if_splits)
  qed (use that in simp)
  show "call_inv c' st ch" if "call_inv c st ch"
    using cases
  proof cases
    case 2
    with that show ?thesis unfolding call_inv_def by (auto simp: mapping_simps split: if_splits)
  qed (use that in simp)
qed

lemma wait_result_inv:
  assumes "wait_result ev waiter c = Some (Inr p)" and "call_inv c st waiter"
  shows "extractVerificationState p = Some st"
  using assms by (auto simp: wait_result_def call_inv_def split: wait_event.split_asm)

lemma world_inv_holds: "world_inv w \<Longrightarrow> holds (wo_calls w i) st ch \<Longrightarrow> call_inv (wo_ch w) st ch"
  unfolding world_inv_def by blast

lemma world_inv_table: "world_inv w \<Longrightarrow> table_inv (wo_ch w)"
  unfolding world_inv_def by blast

lemma world_inv_returned: "world_inv w \<Longrightarrow> wo_calls w i = Returned st (Inr p) \<Longrightarrow> extractVerificationState p = Some st"
  unfolding world_inv_def by blast

lemma world_invI:
  assumes "table_inv c"
    and "\<And>i st ch. holds (f i) st ch \<longrightarrow> call_inv c st ch"
    and "\<And>i j st st' ch. holds (f i) st ch \<longrightarrow> holds (f j) st' ch \<longrightarrow> i = j"
    and "\<And>i st p. f i = Returned st (Inr p) \<longrightarrow> extractVerificationState p = Some st"
  shows "world_inv (w\<lparr>wo_ch := c, wo_calls := f\<rparr>)"
proof -
  have "wo_ch (w\<lparr>wo_ch := c, wo_calls := f\<rparr>) = c" "wo_calls (w\<lparr>wo_ch := c, wo_calls := f\<rparr>) = f" by simp_all
  then show ?thesis unfolding world_inv_def using assms by metis
qed

lemma world_inv_unique: "world_inv w \<Longrightarrow> holds (wo_calls w i) st ch \<Longrightarrow> holds (wo_calls w j) st' ch \<Longrightarrow> i = j"
  unfolding world_inv_def by blast

text \<open>A call that goes on with the channel it has, or returns, on a table where nothing got worse.\<close>

lemma world_inv_update:
  assumes "world_inv w" and "table_inv c'"
    and "\<And>st ch. call_inv (wo_ch w) st ch \<Longrightarrow> call_inv c' st ch"
    and "\<And>st ch. holds new st ch \<Longrightarrow> holds (wo_calls w i) st ch"
    and "\<And>st p. new = Returned st (Inr p) \<Longrightarrow> extractVerificationState p = Some st"
  shows "world_inv (w\<lparr>wo_ch := c', wo_calls := (wo_calls w)(i := new)\<rparr>)"
proof -
  let ?calls = "(wo_calls w)(i := new)"
  have sub: "holds (?calls k) st ch \<Longrightarrow> holds (wo_calls w k) st ch" for k st ch
    using assms(4) by (cases "k = i") simp_all
  have "holds (?calls k) st ch \<longrightarrow> call_inv c' st ch" for k st ch
    using sub assms(1,3) unfolding world_inv_def by blast
  moreover have "holds (?calls k) st ch \<longrightarrow> holds (?calls j) st' ch \<longrightarrow> k = j" for k j st st' ch
    using sub assms(1) unfolding world_inv_def by blast
  moreover have "?calls k = Returned st (Inr p) \<longrightarrow> extractVerificationState p = Some st" for k st p
    using world_inv_returned [OF assms(1), of k st p] assms(5) [of st p] by (metis fun_upd_apply)
  ultimately show ?thesis using assms(2)
    by - (rule world_invI, blast+)
qed

lemma world_inv_start:
  assumes "world_inv w" and "wo_calls w i = Idle"
    and "challenge_start opts rand (wo_ch w) = (Inr (cfg, state, waiter), c')"
  shows "world_inv (w\<lparr>wo_ch := c', wo_calls := (wo_calls w)(i := Posting cfg state waiter)\<rparr>)"
proof -
  from challenge_start_Inr [OF assms(3)] have c': "Mapping.lookup (ch_pending (wo_ch w)) state = None"
      "waiter = ch_next (wo_ch w)" "c' = (wo_ch w)\<lparr>ch_pending := Mapping.update state (ch_next (wo_ch w))
        (ch_pending (wo_ch w)), ch_next := Suc (ch_next (wo_ch w))\<rparr>" by simp_all
  note t = world_inv_table [OF assms(1)]
  have new: "table_inv c'" "call_inv c' state waiter" "\<And>st ch. call_inv (wo_ch w) st ch \<Longrightarrow> call_inv c' st ch"
    unfolding c'(2,3) by (rule table_inv_register [OF t c'(1)], rule call_inv_register(2) [OF t], rule call_inv_register(1) [OF t])
  have fresh: "\<not> holds (wo_calls w j) st waiter" for j st
    using world_inv_holds [OF assms(1)] c'(2) unfolding call_inv_def by blast
  let ?calls = "(wo_calls w)(i := Posting cfg state waiter)"
  have "holds (?calls k) st ch \<longrightarrow> call_inv c' st ch" for k st ch
    using world_inv_holds [OF assms(1), of k st ch] new(2,3) by (cases "k = i") auto
  moreover have "holds (?calls k) st ch \<longrightarrow> holds (?calls j) st' ch \<longrightarrow> k = j" for k j st st' ch
  proof (intro impI)
    assume *: "holds (?calls k) st ch" "holds (?calls j) st' ch"
    show "k = j"
    proof (cases "ch = waiter")
      case True
      then show ?thesis using * fresh by (metis fun_upd_apply)
    next
      case False
      then have "holds (wo_calls w k) st ch" "holds (wo_calls w j) st' ch" using * by (auto split: if_split_asm)
      then show ?thesis using world_inv_unique [OF assms(1)] by blast
    qed
  qed
  moreover have "?calls k = Returned st (Inr p) \<longrightarrow> extractVerificationState p = Some st" for k st p
    using world_inv_returned [OF assms(1), of k st p] by simp
  ultimately show ?thesis using new(1)
    by - (rule world_invI, blast+)
qed

lemma world_inv_step:
  assumes "world_step w w'" and "world_inv w"
  shows "world_inv w'"
  using assms
proof cases
  case (start i opts rand cfg state waiter c')
  with assms(2) world_inv_start show ?thesis by blast
next
  case (refuse i opts rand e c')
  then have "c' = wo_ch w" using challenge_start_Inl by blast
  then show ?thesis unfolding refuse(1)
    by (intro world_inv_update assms(2)) (simp_all add: world_inv_table [OF assms(2)])
next
  case (posted i cfg state waiter f outcome)
  have "world_inv (w\<lparr>wo_ch := wo_ch w, wo_calls := (wo_calls w)(i := Waiting state waiter)\<rparr>)"
    by (intro world_inv_update assms(2)) (simp_all add: world_inv_table [OF assms(2)] posted(2))
  then show ?thesis unfolding posted(1) by simp
next
  case (post_fails i cfg state waiter f outcome e)
  show ?thesis unfolding post_fails(1)
    by (intro world_inv_update assms(2)) (simp_all add: world_inv_table [OF assms(2)] unregister_inv)
next
  case (ends i state waiter ev r)
  have "call_inv (wo_ch w) state waiter" using world_inv_holds [OF assms(2), of i] ends(2) by simp
  then have "extractVerificationState p = Some state" if "r = Inr p" for p
    using wait_result_inv ends(3) that by blast
  then show ?thesis unfolding ends(1)
    by (intro world_inv_update assms(2)) (simp_all add: world_inv_table [OF assms(2)] unregister_inv)
next
  case (arrives payload hit c')
  with assms(2) show ?thesis
    unfolding arrives(1) world_inv_def by (simp add: intercept_inv [OF arrives(2)])
qed

lemma world_inv_reachable: "world_reachable w \<Longrightarrow> world_inv w"
proof (induction rule: world_reachable.induct)
  case init
  then show ?case
    by (simp add: empty_world_def NewVerificationChallenger_def world_inv_def table_inv_def)
next
  case (step w w')
  then show ?case by (blast intro: world_inv_step)
qed

section \<open>Properties\<close>

text \<open>
  Claim C36: In every interleaving of concurrent challenges and arriving SETs, a challenge that
  returns a payload returns a verification SET carrying its own state; no channel serves two calls; and whenever a
  SET is handed over, the channel it goes to is empty, so that the sink never blocks.
\<close>

theorem challenge_sound:
  assumes "world_reachable w"
  shows "(\<forall>i st p. wo_calls w i = Returned st (Inr p) \<longrightarrow> extractVerificationState p = Some st)
    \<and> (\<forall>i j st st' ch. holds (wo_calls w i) st ch \<longrightarrow> holds (wo_calls w j) st' ch \<longrightarrow> i = j)
    \<and> (\<forall>st ch. Mapping.lookup (ch_pending (wo_ch w)) st = Some ch \<longrightarrow> Mapping.lookup (ch_buf (wo_ch w)) ch = None)"
  using world_inv_reachable [OF assms] unfolding world_inv_def table_inv_def by blast

text \<open>
  Claim C37: The wrapped sink keeps back exactly the verification SETs whose state is in flight:
  such a SET is given to its waiter, does not reach the downstream sink, and frees its slot, so that a second copy is passed
  on; every other payload is handed downstream unchanged, with the downstream error.
\<close>

theorem wrap_sink_exact:
  assumes "downstream = Some sink"
  shows "(\<forall>state waiter. extractVerificationState payload = Some state \<longrightarrow>
        Mapping.lookup (ch_pending c) state = Some waiter \<longrightarrow>
        (\<exists>c'. WrapSink downstream payload (c, s) = (None, (c', s)) \<and> Mapping.lookup (ch_buf c') waiter = Some payload
          \<and> (\<forall>t. WrapSink downstream payload (c', t) = (fst (sink payload t), (c', snd (sink payload t))))))
    \<and> ((\<forall>state. extractVerificationState payload = Some state \<longrightarrow> Mapping.lookup (ch_pending c) state = None) \<longrightarrow>
        WrapSink downstream payload (c, s) = (fst (sink payload s), (c, snd (sink payload s))))"
  using assms
  by (auto simp: WrapSink_def intercept_def mapping_simps case_prod_beta split: option.split)

text \<open>
  Claim C38: The deferred \<open>unregister\<close> deletes by state, not by channel. When a challenge has its
  SET in its channel and another challenge has registered the same state since, the return of the first removes the slot of
  the second: the SET of the second is then forwarded downstream, and the second can only time out.
\<close>

theorem deferred_unregister_race:
  assumes "wo_calls w i = Waiting st a" and "Mapping.lookup (ch_buf (wo_ch w)) a = Some p"
    and "wo_calls w j = Waiting st b" and "i \<noteq> j" and "extractVerificationState q = Some st"
  shows "\<exists>w'. world_step w w' \<and> wo_calls w' i = Returned st (Inr p) \<and> wo_calls w' j = Waiting st b
    \<and> intercept q (wo_ch w') = (False, wo_ch w')"
proof -
  have r: "wait_result Waiter_Ready a (wo_ch w) = Some (Inr p)" using assms(2) by (simp add: wait_result_def)
  show ?thesis
    using assms(3-5) world_step.ends [OF assms(1) r]
    by (intro exI conjI) (assumption, simp_all add: intercept_def unregister_state_def mapping_simps)
qed

section \<open>An example\<close>

definition verification_payload :: "string \<Rightarrow> string" where
  "verification_payload state = jprint (mk_obj [(quote ''events'',
     mk_obj [(quote EventTypeVerification, mk_obj [(quote ''state'', jstring state)])])])"

lemma extract_payload:
  assumes "state \<noteq> []" shows "extractVerificationState (verification_payload state) = Some state"
proof -
  let ?ev = "mk_obj [(quote ''state'', jstring state)]"
  let ?claims = "mk_obj [(quote ''events'', mk_obj [(quote EventTypeVerification, ?ev)])]"
  have fold: "fold_case ''events'' = ''events''" "fold_case ''state'' = ''state''"
    by (simp_all add: fold_case.simps ascii_lower_def)
  have "dec_map Inr (mk_obj [(quote EventTypeVerification, ?ev)]) None
      = Inr (Some (Mapping.update EventTypeVerification ?ev Mapping.empty))"
    by (simp add: dec_map_def mk_obj_def)
  then have "dec_struct h_events ?claims None = Inr (Some (Mapping.update EventTypeVerification ?ev Mapping.empty))"
    by (simp add: dec_struct_mk_obj dec_pairs_Cons fold h_events_def)
  moreover have "dec_verification_event ?ev = Inr \<lparr>vev_state = state\<rparr>"
    by (simp add: dec_verification_event_def dec_struct_mk_obj dec_pairs_Cons fold h_state_def)
  moreover have "parse (jprint ?claims) = Some ?claims" by (rule parse_jprint) simp
  ultimately show ?thesis using assms
    by (simp add: extractVerificationState_def verification_payload_def unmarshal_def mapping_simps)
qed

lemma extract_sample: "extractVerificationState (verification_payload ''s'') = Some ''s''"
  by (rule extract_payload) simp

text \<open>
  Two calls with the pinned state \<open>s\<close>: the first has its SET in channel 0 when the second registers.
\<close>

definition sample_opts :: "challenge_option list" where
  "sample_opts = [WithEndpoint ''https://t.example/verify'', WithState ''s'']"

definition sample_cfg :: challenge_options where
  "sample_cfg = \<lparr>co_endpoint = ''https://t.example/verify'', co_stream_id = [], co_auth_header = [], co_state = ''s'', co_timeout = 0\<rparr>"

lemma sample_start:
  "Mapping.lookup (ch_pending c) ''s'' = None \<Longrightarrow>
     challenge_start sample_opts (Inr []) c = (Inr (sample_cfg, ''s'', ch_next c),
       c\<lparr>ch_pending := Mapping.update ''s'' (ch_next c) (ch_pending c), ch_next := Suc (ch_next c)\<rparr>)"
  by (simp add: challenge_start_def sample_opts_def sample_cfg_def WithEndpoint_def WithState_def register_state_def)

lemma sample_posted: "fst (postChallenge Inr sample_cfg ''s'' (Answered 200 ''200 OK'')) = None"
  by (simp add: postChallenge_def buildVerificationURL_def sample_cfg_def)

definition race_world :: world where
  "race_world = \<lparr>wo_ch = \<lparr>ch_pending = Mapping.update ''s'' 1 Mapping.empty, ch_next = 2,
       ch_buf = Mapping.update 0 (verification_payload ''s'') Mapping.empty\<rparr>,
     wo_calls = (\<lambda>_. Idle)(0 := Waiting ''s'' 0, 1 := Waiting ''s'' 1), wo_forwarded = []\<rparr>"

lemma race_reachable: "world_reachable race_world"
proof -
  let ?c1 = "\<lparr>ch_pending = Mapping.update ''s'' 0 Mapping.empty, ch_next = 1, ch_buf = Mapping.empty\<rparr>"
  let ?c2 = "\<lparr>ch_pending = Mapping.delete ''s'' (Mapping.update ''s'' 0 Mapping.empty), ch_next = 1,
      ch_buf = Mapping.update 0 (verification_payload ''s'') Mapping.empty\<rparr>"
  have del: "Mapping.update ''s'' 1 (Mapping.delete ''s'' (Mapping.update ''s'' 0 Mapping.empty))
      = Mapping.update ''s'' (1 :: nat) Mapping.empty"
    by (rule mapping_ext) (simp add: mapping_simps)
  have empty: "wo_ch empty_world = NewVerificationChallenger" "wo_calls empty_world 0 = Idle"
    "ch_pending NewVerificationChallenger = Mapping.empty" "ch_next NewVerificationChallenger = 0"
    by (simp_all add: empty_world_def NewVerificationChallenger_def)
  have start: "challenge_start sample_opts (Inr []) (wo_ch empty_world) = (Inr (sample_cfg, ''s'', 0), ?c1)"
    using sample_start [of NewVerificationChallenger] empty by (simp add: NewVerificationChallenger_def)
  let ?w1 = "empty_world\<lparr>wo_ch := ?c1, wo_calls := (wo_calls empty_world)(0 := Posting sample_cfg ''s'' 0)\<rparr>"
  have w1: "world_reachable ?w1" by (rule world_reachable.step [OF world_reachable.init world_step.start [OF empty(2) start]])
  let ?w2 = "?w1\<lparr>wo_calls := (wo_calls ?w1)(0 := Waiting ''s'' 0)\<rparr>"
  have "wo_calls ?w1 0 = Posting sample_cfg ''s'' 0" by simp
  then have w2: "world_reachable ?w2"
    by (rule world_reachable.step [OF w1 world_step.posted [OF _ sample_posted]])
  have "intercept (verification_payload ''s'') (wo_ch ?w2) = (True, ?c2)"
    by (simp add: intercept_def extract_sample mapping_simps)
  from world_reachable.step [OF w2 world_step.arrives [OF this]]
  have w3: "world_reachable (?w2\<lparr>wo_ch := ?c2\<rparr>)" by (simp add: empty_world_def)
  let ?w3 = "?w2\<lparr>wo_ch := ?c2\<rparr>"
  have idle: "wo_calls ?w3 1 = Idle" by (simp add: empty_world_def)
  have "challenge_start sample_opts (Inr []) (wo_ch ?w3) = (Inr (sample_cfg, ''s'', 1), wo_ch race_world)"
    using sample_start [of ?c2] del by (simp add: mapping_simps race_world_def)
  from world_reachable.step [OF w3 world_step.start [OF idle this]]
  have w4: "world_reachable (?w3\<lparr>wo_ch := wo_ch race_world, wo_calls := (wo_calls ?w3)(1 := Posting sample_cfg ''s'' 1)\<rparr>)" .
  let ?w4 = "?w3\<lparr>wo_ch := wo_ch race_world, wo_calls := (wo_calls ?w3)(1 := Posting sample_cfg ''s'' 1)\<rparr>"
  have "wo_calls ?w4 1 = Posting sample_cfg ''s'' 1" by simp
  from world_reachable.step [OF w4 world_step.posted [OF this sample_posted]]
  have "world_reachable (?w4\<lparr>wo_calls := (wo_calls ?w4)(1 := Waiting ''s'' 1)\<rparr>)" .
  moreover have "?w4\<lparr>wo_calls := (wo_calls ?w4)(1 := Waiting ''s'' 1)\<rparr> = race_world"
    by (simp add: race_world_def empty_world_def)
  ultimately show ?thesis by simp
qed

theorem challenge_sound_witness:
  "Mapping.lookup (ch_pending (wo_ch race_world)) ''s'' = Some 1 \<and> Mapping.lookup (ch_buf (wo_ch race_world)) 1 = None"
  using challenge_sound [OF race_reachable] by (simp add: race_world_def mapping_simps)

theorem wrap_sink_exact_witness:
  "WrapSink (Some list_sink) (verification_payload ''s'') (NewVerificationChallenger, [])
     = (None, (NewVerificationChallenger, [verification_payload ''s'']))"
  using wrap_sink_exact [of "Some list_sink" list_sink "verification_payload ''s''" NewVerificationChallenger "[]"]
  by (simp add: list_sink_def NewVerificationChallenger_def mapping_simps)

theorem deferred_unregister_race_witness:
  "\<exists>w. world_reachable w \<and> wo_calls w 1 = Waiting ''s'' 1
     \<and> intercept (verification_payload ''s'') (wo_ch w) = (False, wo_ch w)"
proof -
  have "wo_calls race_world 0 = Waiting ''s'' 0" "wo_calls race_world 1 = Waiting ''s'' 1"
    "Mapping.lookup (ch_buf (wo_ch race_world)) 0 = Some (verification_payload ''s'')"
    by (simp_all add: race_world_def mapping_simps)
  with deferred_unregister_race [OF _ _ _ _ extract_sample, of race_world 0 0 _ 1 1] race_reachable
  show ?thesis using world_reachable.step by (metis zero_neq_one)
qed

end
