(* ===== verification/Go_Mime.thy ===== *)
theory Go_Mime
  imports Prelude
begin

text \<open>
  \<open>mime.ParseMediaType\<close> as far as the client uses it: the media type, or nothing when the type or a
  parameter is malformed. The values of parameters are read and compared, not returned.
\<close>

text \<open>A token of RFC 2045: printable ASCII without the special characters.\<close>

definition is_token_char :: "char \<Rightarrow> bool" where
  "is_token_char c \<longleftrightarrow> (32 :: nat) < of_char c \<and> (of_char c :: nat) < 127
     \<and> c \<notin> set ''()<>@,;:/[]?='' \<and> c \<noteq> CHR 0x22 \<and> c \<noteq> CHR 0x5C"

definition consume_token :: "string \<Rightarrow> string \<times> string" where
  "consume_token s = (takeWhile is_token_char s, dropWhile is_token_char s)"

text \<open>
  The body of a quoted string: its value and what follows the closing quote. A backslash escapes only a
  special character; a line break or the end of the input makes it malformed.
\<close>

definition is_tspecial :: "char \<Rightarrow> bool" where
  "is_tspecial c \<longleftrightarrow> c \<in> set ''()<>@,;:/[]?='' \<or> c = CHR 0x22 \<or> c = CHR 0x5C"

fun consume_quoted :: "string \<Rightarrow> (string \<times> string) option" where
  "consume_quoted [] = None"
| "consume_quoted (c # s) =
     (if c = CHR 0x22 then Some ([], s)
      else if c = CHR 0x5C \<and> s \<noteq> [] \<and> is_tspecial (hd s)
      then map_option (\<lambda>(v, r). (hd s # v, r)) (consume_quoted (tl s))
      else if c = CHR 0x0D \<or> c = CHR 0x0A then None
      else map_option (\<lambda>(v, r). (c # v, r)) (consume_quoted s))"

definition consume_value :: "string \<Rightarrow> (string \<times> string) option" where
  "consume_value s =
     (case s of
        [] \<Rightarrow> None
      | c # t \<Rightarrow> if c = CHR 0x22 then consume_quoted t
          else (case consume_token s of (v, r) \<Rightarrow> if v = [] then None else Some (v, r)))"

definition consume_media_param :: "string \<Rightarrow> (string \<times> string \<times> string) option" where
  "consume_media_param s =
     (case trim_left s of
        [] \<Rightarrow> None
      | c # t \<Rightarrow>
          if c \<noteq> CHR '';'' then None
          else (case consume_token (trim_left t) of
                  (param, r) \<Rightarrow>
                    if param = [] then None
                    else (case trim_left r of
                            [] \<Rightarrow> None
                          | d # u \<Rightarrow>
                              if d \<noteq> CHR ''='' then None
                              else map_option (\<lambda>(v, r'). (to_lower param, v, r')) (consume_value (trim_left u)))))"

text \<open>The parameters, with those seen; every one consumes input, so its length bounds their number.\<close>

fun media_params_ok :: "nat \<Rightarrow> string \<Rightarrow> (string \<times> string) list \<Rightarrow> bool" where
  "media_params_ok 0 s seen \<longleftrightarrow> trim_left s = []"
| "media_params_ok (Suc n) s seen \<longleftrightarrow>
     (trim_left s = []
      \<or> (case consume_media_param s of
           None \<Rightarrow> trim_space s = '';''
         | Some (k, v, r) \<Rightarrow>
             (case map_of seen k of Some v' \<Rightarrow> v = v' | None \<Rightarrow> True) \<and> media_params_ok n r ((k, v) # seen)))"

definition media_type_ok :: "string \<Rightarrow> bool" where
  "media_type_ok s \<longleftrightarrow>
     (case consume_token s of
        (typ, r) \<Rightarrow> typ \<noteq> [] \<and>
          (case r of
             [] \<Rightarrow> True
           | c # t \<Rightarrow> c = CHR ''/'' \<and> (case consume_token t of (sub, r') \<Rightarrow> sub \<noteq> [] \<and> r' = [])))"

definition parse_media_type :: "string \<Rightarrow> string option" where
  "parse_media_type v =
     (let base = (case cut CHR '';'' v of (before, _, _) \<Rightarrow> before);
          mediatype = trim_space (to_lower base);
          params = drop (length base) v
      in if media_type_ok mediatype \<and> media_params_ok (length params) params [] then Some mediatype else None)"

end
