(* ===== verification/Client_Errors.thy ===== *)
theory Client_Errors
  imports Go_Mime Http_Client Handler_Props
begin

text \<open>
  Errors of the client (\<open>client/errors.go\<close>): how a response that is not 2xx becomes an error value, and how
  the errors of a transmitter come out of it at the other end.
\<close>

definition maxErrorBodyBytes :: nat where "maxErrorBodyBytes = 262144"

definition problemDetailsMediaType :: string where "problemDetailsMediaType = ''application/problem+json''"

definition isProblemDetails :: "string \<Rightarrow> bool" where
  "isProblemDetails content_type \<longleftrightarrow>
     content_type \<noteq> [] \<and> parse_media_type content_type = Some problemDetailsMediaType"

definition parseProblemDetails :: "string \<Rightarrow> problem_details option" where
  "parseProblemDetails body =
     (if body = [] then None
      else (case problem_UnmarshalJSON body of Inl _ \<Rightarrow> None | Inr pd \<Rightarrow> Some pd))"

definition mapStatusToSentinel :: "int \<Rightarrow> sentinel option" where
  "mapStatusToSentinel status =
     (if status = 401 then Some ErrUnauthorized
      else if status = 404 then Some ErrStreamNotFound
      else if status = 501 then Some ErrNotImplemented
      else None)"

text \<open>The body is read up to the limit; an error that comes before it is reported.\<close>

definition ParseHTTPError :: "http_reply \<Rightarrow> gerror option" where
  "ParseHTTPError resp =
     (if 200 \<le> hr_status resp \<and> hr_status resp < 300 then None
      else (case (if length (hr_body resp) < maxErrorBodyBytes then hr_body_err resp else None) of
              Some e \<Rightarrow> Some (Wrapf (''ssf: read error response body (status '' @ itoa (hr_status resp) @ ''): '') e [])
            | None \<Rightarrow>
                (let body = take maxErrorBodyBytes (hr_body resp);
                     http_err = HTTPErr \<lparr>he_status = hr_status resp, he_body = body,
                       he_problem = (if isProblemDetails (hr_content_type resp) then parseProblemDetails body else None)\<rparr>
                 in case mapStatusToSentinel (hr_status resp) of
                      Some s \<Rightarrow> Some (Joined [http_err, Sentinel s])
                    | None \<Rightarrow> Some http_err)))"

section \<open>The two ends agree\<close>

text \<open>A response of the transmitter as the client gets it.\<close>

definition reply_of :: "http_response \<Rightarrow> http_reply" where
  "reply_of r = \<lparr>hr_status = rs_status r,
     hr_content_type = (case map_of (rs_headers r) ''Content-Type'' of None \<Rightarrow> [] | Some v \<Rightarrow> v),
     hr_cache_control = (case map_of (rs_headers r) ''Cache-Control'' of None \<Rightarrow> [] | Some v \<Rightarrow> v),
     hr_content_length = int (length (rs_body r)), hr_body = rs_body r, hr_body_err = None\<rparr>"

lemma problem_type_parses: "isProblemDetails contentTypeProblem"
  by code_simp

lemma problem_body:
  assumes "pd_extensions p = []" and "int64 (pd_status p)"
  shows "\<exists>b. rs_body (problem_response hs p) = b \<and> b \<noteq> [] \<and> problem_UnmarshalJSON b = Inr p"
proof -
  have e: "ext_pairs_ok []" by (simp add: ext_pairs_ok_def)
  let ?b = "jprint (mk_obj (reg_pairs p @ []))"
  have m: "marshal_problem p = Some ?b" using marshal_ok(2) [OF e] assms(1) by simp
  have u: "unmarshal_problem ?b = Inr p" using unmarshal_obj [OF e assms(2)] assms(1) by simp
  obtain cs where b: "?b = CHR ''{'' # cs" by (simp add: mk_obj_def)
  then have "skip_ws ?b = ?b" by (simp add: skip_ws_def is_ws_def)
  with u have "problem_UnmarshalJSON ?b = Inr p" by (simp add: unmarshal_problem_def split: option.split_asm)
  then show ?thesis using m b by (auto simp: problem_response_def)
qed

text \<open>The status a transmitter's error is reported with.\<close>

definition problem_status :: "gerror \<Rightarrow> int" where
  "problem_status err =
     (if as_validation err \<noteq> None then 400
      else if errors_is err ErrUnauthorized then 401
      else if errors_is err ErrStreamNotFound then 404
      else if errors_is err ErrInvalidConfig then 400
      else if errors_is err ErrNotImplemented then 501
      else 500)"

lemma problem_status_cases: "problem_status err \<in> {400, 401, 404, 500, 501}"
  by (simp add: problem_status_def)

lemma writeProblem_form:
  "\<exists>p. writeProblem err = problem_response [] p \<and> pd_extensions p = [] \<and> pd_status p = problem_status err
     \<and> (as_validation err = None \<longrightarrow> \<not> errors_is err ErrUnauthorized \<longrightarrow> pd_detail p = trim_space (error_text err))"
  by (auto simp: writeProblem_def problem_status_def writeProblemStatus_def writeAuthProblem_def Default401Handler_def
      zero_problem_def split: option.split)

lemma reply_of_problem [simp]:
  "hr_status (reply_of (problem_response [] p)) = pd_status p"
  "hr_content_type (reply_of (problem_response [] p)) = contentTypeProblem"
  "hr_body (reply_of (problem_response hs p)) = rs_body (problem_response hs p)"
  "hr_body_err (reply_of r) = None"
  by (simp_all add: reply_of_def problem_response_def)

lemma ParseHTTPError_problem:
  assumes "hr_status resp < 200 \<or> 300 \<le> hr_status resp" and "isProblemDetails (hr_content_type resp)"
    and "hr_body resp \<noteq> []" and "length (hr_body resp) \<le> maxErrorBodyBytes" and "hr_body_err resp = None"
    and "problem_UnmarshalJSON (hr_body resp) = Inr p"
  shows "ParseHTTPError resp =
    (let he = HTTPErr \<lparr>he_status = hr_status resp, he_body = hr_body resp, he_problem = Some p\<rparr>
     in case mapStatusToSentinel (hr_status resp) of Some s \<Rightarrow> Some (Joined [he, Sentinel s]) | None \<Rightarrow> Some he)"
proof -
  have st: "\<not> (200 \<le> hr_status resp \<and> hr_status resp < 300)" using assms(1) by auto
  have pd: "parseProblemDetails (hr_body resp) = Some p" using assms(3,6) by (simp add: parseProblemDetails_def)
  have none: "(if length (hr_body resp) < maxErrorBodyBytes then hr_body_err resp else None) = None"
    using assms(5) by simp
  show ?thesis
    unfolding ParseHTTPError_def if_not_P [OF st] none option.case take_all [OF assms(4)] if_P [OF assms(2)] Let_def pd ..
qed


lemma sample_error_length: "length (rs_body (writeProblem (Sentinel ErrStreamNotFound))) \<le> maxErrorBodyBytes"
proof -
  let ?p = "zero_problem\<lparr>pd_type := ''about:blank'', pd_title := ''Stream Not Found'', pd_status := 404, pd_detail := ''stream not found''\<rparr>"
  have "writeProblem (Sentinel ErrStreamNotFound) = problem_response [] ?p"
    by (simp add: writeProblem_def writeProblemStatus_def sentinel_text_def unauthorizedProblemType_def trim_space_def
        is_space_def)
  moreover have "marshal_problem ?p = Some (jprint (mk_obj (reg_pairs ?p @ [])))"
    by (rule marshal_ok) (simp_all add: ext_pairs_ok_def zero_problem_def)
  moreover have "length (jprint (mk_obj (reg_pairs ?p @ []))) \<le> maxErrorBodyBytes"
    by (simp add: reg_pairs_def om_defs zero_problem_def mk_obj_def quote.simps esc_char_def line_sep_def par_sep_def
        html_char_def maxErrorBodyBytes_def itoa_def show_nat.simps)
  ultimately show ?thesis by (simp add: problem_response_def)
qed


end
