(* ===== verification/Client.thy ===== *)
theory Client
  imports Client_Errors Wire_Roundtrip Url_Plain
begin

text \<open>
  The HTTP client (\<open>client/client.go\<close>): its configuration, the construction of requests, the exchange and
  the eleven methods. The doer is part of the client and acts on a state that is passed along; a method maps
  its arguments and that state to a result and a state. Pointers that may be nil are options.
\<close>

section \<open>Configuration\<close>

record endpoint_paths =
  ep_config :: string
  ep_status :: string
  ep_add_subject :: string
  ep_remove_subject :: string
  ep_verify :: string
  ep_poll :: string

definition DefaultConfigPath :: string where "DefaultConfigPath = ''/streams''"
definition ClientStatusPath :: string where "ClientStatusPath = ''/streams/status''"
definition ClientAddSubjectPath :: string where "ClientAddSubjectPath = ''/streams/subjects:add''"
definition ClientRemoveSubjectPath :: string where "ClientRemoveSubjectPath = ''/streams/subjects:remove''"
definition DefaultVerifyPath :: string where "DefaultVerifyPath = ''/streams/verify''"
definition ClientPollPath :: string where "ClientPollPath = ''/streams/poll''"

definition default_endpoints :: endpoint_paths where
  "default_endpoints = \<lparr>ep_config = DefaultConfigPath, ep_status = ClientStatusPath,
     ep_add_subject = ClientAddSubjectPath, ep_remove_subject = ClientRemoveSubjectPath,
     ep_verify = DefaultVerifyPath, ep_poll = ClientPollPath\<rparr>"

definition acceptHeader :: string where "acceptHeader = ''application/json, application/problem+json''"

definition jsonContentType :: string where "jsonContentType = ''application/json; charset=utf-8''"

text \<open>While options are applied the doer may be nil; a constructed client has one.\<close>

record 'd http_client =
  hc_base :: url
  hc_doer :: 'd
  hc_authz :: string
  hc_paths :: endpoint_paths

type_synonym 's client_option = "'s http_doer option http_client \<Rightarrow> 's http_doer option http_client"

definition WithHTTPDoer :: "'s http_doer option \<Rightarrow> 's client_option" where
  "WithHTTPDoer doer c = c\<lparr>hc_doer := doer\<rparr>"

definition WithAuthorizationHeader :: "string \<Rightarrow> 's client_option" where
  "WithAuthorizationHeader header c = c\<lparr>hc_authz := header\<rparr>"

definition or_default :: "string \<Rightarrow> string \<Rightarrow> string" where
  "or_default p d = (if p \<noteq> [] then p else d)"

definition WithEndpoints :: "endpoint_paths \<Rightarrow> 's client_option" where
  "WithEndpoints paths c = c\<lparr>hc_paths :=
     \<lparr>ep_config = or_default (ep_config paths) (ep_config (hc_paths c)),
      ep_status = or_default (ep_status paths) (ep_status (hc_paths c)),
      ep_add_subject = or_default (ep_add_subject paths) (ep_add_subject (hc_paths c)),
      ep_remove_subject = or_default (ep_remove_subject paths) (ep_remove_subject (hc_paths c)),
      ep_verify = or_default (ep_verify paths) (ep_verify (hc_paths c)),
      ep_poll = or_default (ep_poll paths) (ep_poll (hc_paths c))\<rparr>\<rparr>"

definition invalid :: "string \<Rightarrow> string \<Rightarrow> string \<Rightarrow> gerror" where
  "invalid rule field reason = ValidationErr \<lparr>ve_rule = rule, ve_field = field, ve_reason = reason\<rparr>"

definition NewClient ::
  "(string \<Rightarrow> string + string) \<Rightarrow> 's http_doer \<Rightarrow> string \<Rightarrow> 's client_option list \<Rightarrow> 's http_doer http_client result" where
  "NewClient ip_literal default_client baseURL opts =
     (if baseURL = [] then Inl (invalid ''baseURL non-empty'' ''baseURL'' ''baseURL is required'')
      else (case url_Parse ip_literal baseURL of
              Inl err \<Rightarrow> Inl (invalid ''baseURL parses'' ''baseURL'' err)
            | Inr parsed \<Rightarrow>
                if u_scheme parsed = [] \<or> u_host parsed = []
                then Inl (invalid ''baseURL absolute'' ''baseURL'' ''baseURL must be an absolute URL with a host'')
                else if u_scheme parsed \<noteq> ''http'' \<and> u_scheme parsed \<noteq> ''https''
                then Inl (invalid ''baseURL scheme'' ''baseURL''
                  (''baseURL scheme must be http or https, got '' @ quoted (u_scheme parsed)))
                else (let c = fold (\<lambda>opt c. opt c) opts
                        \<lparr>hc_base = parsed, hc_doer = Some default_client, hc_authz = [], hc_paths = default_endpoints\<rparr>
                      in case hc_doer c of
                           None \<Rightarrow> Inl (invalid ''doer non-nil'' ''doer''
                             ''WithHTTPDoer was passed nil; use http.DefaultClient or omit the option'')
                         | Some d \<Rightarrow> Inr \<lparr>hc_base = hc_base c, hc_doer = d, hc_authz = hc_authz c, hc_paths = hc_paths c\<rparr>)))"

section \<open>Requests\<close>

definition resolvePath :: "(string \<Rightarrow> string + string) \<Rightarrow> url \<Rightarrow> string \<Rightarrow> url result" where
  "resolvePath ip_literal baseURL path =
     (if path = [] then Inl (invalid ''endpoint path non-empty'' ''path''
        ''endpoint path is empty; ensure WithEndpoints leaves no required field blank'')
      else
        (let base = (if u_path baseURL \<noteq> [] \<and> \<not> has_suffix_char CHR ''/'' (u_path baseURL)
                     then baseURL\<lparr>u_path := u_path baseURL @ ''/''\<rparr> else baseURL)
         in case url_Parse ip_literal (trim_prefix_char CHR ''/'' path) of
              Inl err \<Rightarrow> Inl (Wrapf (''ssf/client: parse endpoint path '' @ quoted path @ '': '') (Opaque err) [])
            | Inr ref \<Rightarrow> Inr (ResolveReference base ref)))"

text \<open>The body is absent, fails to marshal, or is a document.\<close>

definition newRequest ::
  "(string \<Rightarrow> string + string) \<Rightarrow> 'd http_client \<Rightarrow> string \<Rightarrow> string \<Rightarrow> url_values \<Rightarrow> json option option
     \<Rightarrow> client_request result" where
  "newRequest ip_literal c meth path query body =
     bind_r (resolvePath ip_literal (hc_base c) path) (\<lambda>u.
       let endpoint = (if query \<noteq> Mapping.empty then u\<lparr>u_raw_query := values_Encode query\<rparr> else u) in
       bind_r (case body of
                 None \<Rightarrow> Inr None
               | Some None \<Rightarrow> Inl (Wrapf ''ssf/client: marshal request body: '' (Opaque ''json: error calling MarshalJSON'') [])
               | Some (Some j) \<Rightarrow> Inr (Some (jprint j))) (\<lambda>buf.
         case NewRequest ip_literal meth (url_String endpoint) buf of
           Inl e \<Rightarrow> Inl (Wrapf ''ssf/client: build request: '' e [])
         | Inr req \<Rightarrow> Inr (req\<lparr>cq_headers := [(''Accept'', acceptHeader)]
             @ (if body \<noteq> None then [(''Content-Type'', jsonContentType)] else [])
             @ (if hc_authz c \<noteq> [] then [(''Authorization'', hc_authz c)] else [])\<rparr>)))"

section \<open>The exchange\<close>

text \<open>\<open>out\<close> is the zero value to decode into, with its decoder when the caller wants the body.\<close>

type_synonym 'a target = "'a \<times> (json \<Rightarrow> json_err + 'a) option"

definition read_reply :: "string \<Rightarrow> 'a target \<Rightarrow> http_reply \<Rightarrow> 'a result" where
  "read_reply what out resp =
     (if hr_status resp < 200 \<or> 300 \<le> hr_status resp
      then (case ParseHTTPError resp of Some e \<Rightarrow> Inl e | None \<Rightarrow> Inr (fst out))
      else (case snd out of
              None \<Rightarrow> Inr (fst out)
            | Some dec \<Rightarrow>
                if hr_status resp = 204 \<or> hr_content_length resp = 0 then Inr (fst out)
                else (case decode_reply dec resp of
                        Inl e \<Rightarrow> Inl (Wrapf (''ssf/client: decode '' @ what @ '' response: '') e [])
                      | Inr a \<Rightarrow> Inr a)))"

definition client_do :: "'s http_doer http_client \<Rightarrow> client_request \<Rightarrow> 'a target \<Rightarrow> 's \<Rightarrow> 'a result \<times> 's" where
  "client_do c req out s =
     (let what = cq_method req @ '' '' @ u_path (cq_url req) in
      case hc_doer c req s of
        (Inl e, s') \<Rightarrow> (Inl (Wrapf (''ssf/client: http '' @ what @ '': '') e []), s')
      | (Inr resp, s') \<Rightarrow> (read_reply what out resp, s'))"

definition client_call ::
  "(string \<Rightarrow> string + string) \<Rightarrow> 's http_doer http_client \<Rightarrow> string \<Rightarrow> string \<Rightarrow> url_values \<Rightarrow> json option option
     \<Rightarrow> 'a target \<Rightarrow> 's \<Rightarrow> 'a result \<times> 's" where
  "client_call ip_literal c meth path query body out s =
     (case newRequest ip_literal c meth path query body of
        Inl e \<Rightarrow> (Inl e, s)
      | Inr req \<Rightarrow> client_do c req out s)"

section \<open>The methods\<close>

abbreviation by_stream :: "string \<Rightarrow> url_values" where
  "by_stream i \<equiv> Mapping.update ''stream_id'' [i] Mapping.empty"

definition config_target :: "delivery_registry \<Rightarrow> stream_config target" where
  "config_target reg = (zero_config, Some (dec_config reg))"

definition client_GetConfig ::
  "(string \<Rightarrow> string + string) \<Rightarrow> delivery_registry \<Rightarrow> 's http_doer http_client \<Rightarrow> string \<Rightarrow> 's \<Rightarrow> stream_config result \<times> 's" where
  "client_GetConfig ip_literal reg c stream_id s =
     client_call ip_literal c ''GET'' (ep_config (hc_paths c)) (by_stream stream_id) None (config_target reg) s"


text \<open>The envelope of a list; a \<open>null\<close> entry is a nil pointer.\<close>

record list_config_response =
  lc_streams :: "stream_config option list"
  lc_next_page_token :: string

fun dec_config_list :: "delivery_registry \<Rightarrow> (string \<times> json) list \<Rightarrow> json_err + stream_config option list" where
  "dec_config_list reg [] = Inr []"
| "dec_config_list reg ((_, v) # vs) =
     bind_r (case v of JNull \<Rightarrow> Inr None | _ \<Rightarrow> bind_r (dec_config reg v) (\<lambda>c. Inr (Some c))) (\<lambda>c.
       bind_r (dec_config_list reg vs) (\<lambda>cs. Inr (c # cs)))"

definition dec_streams :: "delivery_registry \<Rightarrow> json \<Rightarrow> json_err + stream_config option list" where
  "dec_streams reg v =
     (case v of JNull \<Rightarrow> Inr [] | JArr vs \<Rightarrow> dec_config_list reg vs | _ \<Rightarrow> Inl Type_Error)"

definition h_list ::
  "delivery_registry \<Rightarrow> string \<Rightarrow> string \<Rightarrow> json \<Rightarrow> list_config_response \<Rightarrow> json_err + list_config_response" where
  "h_list reg k src v r =
     (if k = ''streams'' then bind_r (dec_streams reg v) (\<lambda>cs. Inr (r\<lparr>lc_streams := cs\<rparr>))
      else if k = ''next_page_token''
      then bind_r (dec_str v (lc_next_page_token r)) (\<lambda>t. Inr (r\<lparr>lc_next_page_token := t\<rparr>))
      else Inr r)"

definition list_target :: "delivery_registry \<Rightarrow> list_config_response target" where
  "list_target reg =
     (let zero = \<lparr>lc_streams = [], lc_next_page_token = []\<rparr> in (zero, Some (\<lambda>v. dec_struct (h_list reg) v zero)))"

definition client_ListConfig ::
  "(string \<Rightarrow> string + string) \<Rightarrow> delivery_registry \<Rightarrow> 's http_doer http_client \<Rightarrow> string \<Rightarrow> 's
     \<Rightarrow> (stream_config option list \<times> string) result \<times> 's" where
  "client_ListConfig ip_literal reg c page_token s =
     (let q = (if page_token \<noteq> [] then Mapping.update ''page_token'' [page_token] Mapping.empty else Mapping.empty) in
      case client_call ip_literal c ''GET'' (ep_config (hc_paths c)) q None (list_target reg) s of
        (Inl e, s') \<Rightarrow> (Inl e, s')
      | (Inr out, s') \<Rightarrow> (Inr (lc_streams out, lc_next_page_token out), s'))"

definition nil_cfg :: gerror where "nil_cfg = invalid ''cfg non-nil'' ''cfg'' ''cfg is required''"

definition nil_body :: gerror where "nil_body = invalid ''body non-nil'' ''body'' ''body is required''"

definition client_CreateConfig ::
  "(string \<Rightarrow> string + string) \<Rightarrow> delivery_registry \<Rightarrow> 's http_doer http_client \<Rightarrow> stream_config option \<Rightarrow> 's
     \<Rightarrow> stream_config result \<times> 's" where
  "client_CreateConfig ip_literal reg c cfg s =
     (case cfg of
        None \<Rightarrow> (Inl nil_cfg, s)
      | Some g \<Rightarrow> client_call ip_literal c ''POST'' (ep_config (hc_paths c)) Mapping.empty (Some (enc_config g))
          (config_target reg) s)"

definition client_UpdateConfig ::
  "(string \<Rightarrow> string + string) \<Rightarrow> delivery_registry \<Rightarrow> 's http_doer http_client \<Rightarrow> stream_config option \<Rightarrow> 's
     \<Rightarrow> stream_config result \<times> 's" where
  "client_UpdateConfig ip_literal reg c cfg s =
     (case cfg of
        None \<Rightarrow> (Inl nil_cfg, s)
      | Some g \<Rightarrow>
          if sc_stream_id g = []
          then (Inl (invalid ''cfg.StreamID non-empty'' ''stream_id''
                  ''cfg.StreamID is required to identify the target stream''), s)
          else client_call ip_literal c ''PATCH'' (ep_config (hc_paths c)) (by_stream (sc_stream_id g)) (Some (enc_config g))
            (config_target reg) s)"

definition client_DeleteConfig ::
  "(string \<Rightarrow> string + string) \<Rightarrow> 's http_doer http_client \<Rightarrow> string \<Rightarrow> 's \<Rightarrow> unit result \<times> 's" where
  "client_DeleteConfig ip_literal c stream_id s =
     client_call ip_literal c ''DELETE'' (ep_config (hc_paths c)) (by_stream stream_id) None ((), None) s"

definition status_target :: "status_response target" where
  "status_target = (\<lparr>sr_status = [], sr_reason = [], sr_subject = []\<rparr>, Some dec_status_response)"

definition client_GetStatus ::
  "(string \<Rightarrow> string + string) \<Rightarrow> 's http_doer http_client \<Rightarrow> string \<Rightarrow> string \<Rightarrow> 's \<Rightarrow> status_response result \<times> 's" where
  "client_GetStatus ip_literal c stream_id subject s =
     client_call ip_literal c ''GET'' (ep_status (hc_paths c))
       (if subject \<noteq> [] then Mapping.update ''subject'' [subject] (by_stream stream_id) else by_stream stream_id)
       None status_target s"

text \<open>The methods that post a body differ in the path, the encoding and the target.\<close>

definition client_post ::
  "(string \<Rightarrow> string + string) \<Rightarrow> 's http_doer http_client \<Rightarrow> string \<Rightarrow> ('b \<Rightarrow> json option) \<Rightarrow> 'a target
     \<Rightarrow> string \<Rightarrow> 'b option \<Rightarrow> 's \<Rightarrow> 'a result \<times> 's" where
  "client_post ip_literal c path enc out stream_id body s =
     (case body of
        None \<Rightarrow> (Inl nil_body, s)
      | Some b \<Rightarrow> client_call ip_literal c ''POST'' path (by_stream stream_id) (Some (enc b)) out s)"

definition client_UpdateStatus ::
  "(string \<Rightarrow> string + string) \<Rightarrow> 's http_doer http_client \<Rightarrow> string \<Rightarrow> status_update_request option \<Rightarrow> 's
     \<Rightarrow> status_response result \<times> 's" where
  "client_UpdateStatus ip_literal c =
     client_post ip_literal c (ep_status (hc_paths c)) enc_status_update status_target"

definition client_AddSubject ::
  "(string \<Rightarrow> string + string) \<Rightarrow> ('sid \<Rightarrow> string option) \<Rightarrow> 's http_doer http_client \<Rightarrow> string
     \<Rightarrow> 'sid add_subject_request option \<Rightarrow> 's \<Rightarrow> unit result \<times> 's" where
  "client_AddSubject ip_literal sid_marshal c =
     client_post ip_literal c (ep_add_subject (hc_paths c)) (enc_add_subject sid_marshal) ((), None)"

definition client_RemoveSubject ::
  "(string \<Rightarrow> string + string) \<Rightarrow> ('sid \<Rightarrow> string option) \<Rightarrow> 's http_doer http_client \<Rightarrow> string
     \<Rightarrow> 'sid remove_subject_request option \<Rightarrow> 's \<Rightarrow> unit result \<times> 's" where
  "client_RemoveSubject ip_literal sid_marshal c =
     client_post ip_literal c (ep_remove_subject (hc_paths c)) (enc_remove_subject sid_marshal) ((), None)"

definition client_Verify ::
  "(string \<Rightarrow> string + string) \<Rightarrow> 's http_doer http_client \<Rightarrow> string \<Rightarrow> verification_request option \<Rightarrow> 's
     \<Rightarrow> unit result \<times> 's" where
  "client_Verify ip_literal c =
     client_post ip_literal c (ep_verify (hc_paths c)) (\<lambda>r. Some (enc_verification_request r)) ((), None)"

definition client_PollEvents ::
  "(string \<Rightarrow> string + string) \<Rightarrow> 's http_doer http_client \<Rightarrow> string \<Rightarrow> poll_request option \<Rightarrow> 's
     \<Rightarrow> poll_response result \<times> 's" where
  "client_PollEvents ip_literal c =
     client_post ip_literal c (ep_poll (hc_paths c)) (\<lambda>r. Some (enc_poll_request r))
       (\<lparr>pr_sets = None, pr_more_available = None\<rparr>, Some dec_poll_response)"

text \<open>
  The interface \<open>Client\<close> has the eleven methods of \<open>Transmitter\<close>, so both are one record type, and \<open>httpClient\<close>
  implements both: the assertions \<open>var _ Client = (*httpClient)(nil)\<close> and \<open>_ transmitter.Transmitter = (*httpClient)(nil)\<close>. The
  pointers of the interface are never nil here, those of a list apart.
\<close>

type_synonym ('sid, 's) client_api = "('sid, 's) transmitter"

definition client_Transmitter ::
  "(string \<Rightarrow> string + string) \<Rightarrow> delivery_registry \<Rightarrow> ('sid \<Rightarrow> string option) \<Rightarrow> 's http_doer http_client
     \<Rightarrow> ('sid, 's) client_api" where
  "client_Transmitter ip_literal reg sm c =
     \<lparr>tm_GetConfig = client_GetConfig ip_literal reg c,
      tm_ListConfig = client_ListConfig ip_literal reg c,
      tm_CreateConfig = (\<lambda>cfg. client_CreateConfig ip_literal reg c (Some cfg)),
      tm_UpdateConfig = (\<lambda>cfg. client_UpdateConfig ip_literal reg c (Some cfg)),
      tm_DeleteConfig = client_DeleteConfig ip_literal c,
      tm_GetStatus = client_GetStatus ip_literal c,
      tm_UpdateStatus = (\<lambda>i r. client_UpdateStatus ip_literal c i (Some r)),
      tm_AddSubject = (\<lambda>i r. client_AddSubject ip_literal sm c i (Some r)),
      tm_RemoveSubject = (\<lambda>i r. client_RemoveSubject ip_literal sm c i (Some r)),
      tm_Verify = (\<lambda>i r. client_Verify ip_literal c i (Some r)),
      tm_PollEvents = (\<lambda>i r. client_PollEvents ip_literal c i (Some r))\<rparr>"

lemma client_Transmitter_simps [simp]:
  "tm_GetConfig (client_Transmitter ip reg sm c) = client_GetConfig ip reg c"
  "tm_ListConfig (client_Transmitter ip reg sm c) = client_ListConfig ip reg c"
  "tm_CreateConfig (client_Transmitter ip reg sm c) g = client_CreateConfig ip reg c (Some g)"
  "tm_UpdateConfig (client_Transmitter ip reg sm c) g = client_UpdateConfig ip reg c (Some g)"
  "tm_DeleteConfig (client_Transmitter ip reg sm c) = client_DeleteConfig ip c"
  "tm_GetStatus (client_Transmitter ip reg sm c) = client_GetStatus ip c"
  "tm_UpdateStatus (client_Transmitter ip reg sm c) i u = client_UpdateStatus ip c i (Some u)"
  "tm_AddSubject (client_Transmitter ip reg sm c) i a = client_AddSubject ip sm c i (Some a)"
  "tm_RemoveSubject (client_Transmitter ip reg sm c) i d = client_RemoveSubject ip sm c i (Some d)"
  "tm_Verify (client_Transmitter ip reg sm c) i v = client_Verify ip c i (Some v)"
  "tm_PollEvents (client_Transmitter ip reg sm c) i p = client_PollEvents ip c i (Some p)"
  by (simp_all add: client_Transmitter_def)


section \<open>Where requests go\<close>

lemma resolvePath_plain:
  assumes "plain_ref es" and "list_all plain_seg bs" and "path = path_of es \<or> path = ref_text es"
  shows "resolvePath ip_literal (plain_url scheme h bs q) path = Inr (plain_url scheme h (bs @ es) [])"
proof -
  have es: "list_all plain_seg es" "es \<noteq> []" using assms(1) by (simp_all add: plain_ref_def)
  have "trim_prefix_char CHR ''/'' path = ref_text es"
    using assms(3) trim_path_of [OF es(2)] ref_text_hd [OF es] by (auto simp: trim_prefix_char_def split: list.split)
  moreover have "path \<noteq> []" using assms(3) path_of_ref [OF es(2)] ref_text_hd [OF es] by auto
  ultimately show ?thesis
    using resolve_plain [OF assms(1,2), of scheme h q] url_Parse_ref [OF assms(1)]
    by (simp add: resolvePath_def as_dir_def Let_def)
qed

definition request_headers :: "string \<Rightarrow> bool \<Rightarrow> (string \<times> string) list" where
  "request_headers authz has_body = [(''Accept'', acceptHeader)]
     @ (if has_body then [(''Content-Type'', jsonContentType)] else [])
     @ (if authz \<noteq> [] then [(''Authorization'', authz)] else [])"

lemma newRequest_plain:
  assumes "plain_scheme scheme" and "plain_host h" and "list_all plain_seg bs" and "plain_ref es"
    and "hc_base c = plain_url scheme h bs q" and "path = path_of es \<or> path = ref_text es" and "body \<noteq> Some None"
  shows "newRequest ip_literal c meth path query body
    = Inr \<lparr>cq_method = meth,
        cq_url = plain_url scheme h (bs @ es) (if query = Mapping.empty then [] else values_Encode query),
        cq_headers = request_headers (hc_authz c) (body \<noteq> None),
        cq_body = map_option jprint (Option.bind body (\<lambda>b. b))\<rparr>"
proof -
  have segs: "list_all plain_seg (bs @ es)" using assms(3,4) by (simp add: plain_ref_def)
  let ?q = "if query = Mapping.empty then [] else values_Encode query"
  have "(if query \<noteq> Mapping.empty then (plain_url scheme h (bs @ es) [])\<lparr>u_raw_query := values_Encode query\<rparr>
      else plain_url scheme h (bs @ es) []) = plain_url scheme h (bs @ es) ?q"
    by (simp add: plain_url_def zero_url_def)
  moreover have "NewRequest ip_literal meth (url_String (plain_url scheme h (bs @ es) ?q)) buf
      = Inr \<lparr>cq_method = meth, cq_url = plain_url scheme h (bs @ es) ?q, cq_headers = [], cq_body = buf\<rparr>" for buf
    using assms(2) url_Parse_plain [OF assms(1,2) segs, of ?q] url_String_plain [OF assms(1,2) segs, of ?q]
    by (simp add: NewRequest_def) (simp add: plain_url_def)
  ultimately show ?thesis
    using assms(7) resolvePath_plain [OF assms(4,3,6), of ip_literal scheme h q]
    by (auto simp: newRequest_def Let_def assms(5) request_headers_def split: option.split)
qed


text \<open>The options of the package, and what they leave alone.\<close>

definition client_opt :: "'s client_option \<Rightarrow> bool" where
  "client_opt opt \<longleftrightarrow> (\<exists>d. opt = WithHTTPDoer d) \<or> (\<exists>a. opt = WithAuthorizationHeader a) \<or> (\<exists>p. opt = WithEndpoints p)"

lemma fold_client_opts:
  assumes "list_all client_opt opts" shows "hc_base (fold (\<lambda>opt c. opt c) opts c) = hc_base c"
  using assms
  by (induction opts arbitrary: c) (auto simp: client_opt_def WithHTTPDoer_def WithAuthorizationHeader_def WithEndpoints_def)

lemma NewClient_base:
  assumes "plain_scheme scheme" and "plain_host h" and "list_all plain_seg bs" and "list_all client_opt opts"
    and "NewClient ip_literal default_client (plain_text scheme h bs []) opts = Inr c"
  shows "hc_base c = plain_url scheme h bs []"
  using assms(5) url_Parse_plain [OF assms(1-3), of "[]" ip_literal] fold_client_opts [OF assms(4)]
  by (auto simp: NewClient_def Let_def split: if_splits option.splits)

text \<open>
  Claim C22: A request goes where the client was pointed. For a client made for a base URL of plain
  segments, with any of the package's options, a request for an endpoint, with or without the leading slash, is
  sent to the host of the base, with the endpoint's segments appended to those of the base; a server reads from
  its query exactly the values that were passed, whatever bytes they have; and the credentials are sent exactly when
  they are configured.
\<close>

theorem requests_reach_endpoint:
  assumes "plain_scheme scheme" and "plain_host h" and "list_all plain_seg bs" and "list_all client_opt opts"
    and "NewClient ip_literal default_client (plain_text scheme h bs []) opts = Inr c"
    and "plain_ref es" and "path = path_of es \<or> path = ref_text es" and "body \<noteq> Some None"
    and "finite (Mapping.keys query)"
  shows "\<exists>req. newRequest ip_literal c meth path query body = Inr req
    \<and> cq_method req = meth \<and> u_scheme (cq_url req) = scheme \<and> u_host (cq_url req) = h
    \<and> u_path (cq_url req) = path_of (bs @ es)
    \<and> (\<forall>k. map_of (parse_query (u_raw_query (cq_url req))) k
         = (case Mapping.lookup query k of Some (v # _) \<Rightarrow> Some v | _ \<Rightarrow> None))
    \<and> map_of (cq_headers req) ''Authorization'' = (if hc_authz c = [] then None else Some (hc_authz c))"
proof -
  note req = newRequest_plain [OF assms(1-3,6) NewClient_base [OF assms(1-5)] assms(7,8), of ip_literal meth query]
  let ?q = "if query = Mapping.empty then [] else values_Encode query"
  have "map_of (parse_query ?q) k = (case Mapping.lookup query k of Some (v # _) \<Rightarrow> Some v | _ \<Rightarrow> None)" for k
    using query_lookup [OF assms(9), of k] by (auto simp: lookup_empty parse_query_def parse_pair_def)
  moreover have "map_of (request_headers (hc_authz c) b) ''Authorization'' = (if hc_authz c = [] then None else Some (hc_authz c))" for b
    by (simp add: request_headers_def)
  ultimately show ?thesis unfolding req by (simp add: plain_url_def)
qed

definition sample_client :: "unit http_doer http_client" where
  "sample_client = \<lparr>hc_base = plain_url ''https'' ''t.example'' [''ssf''] [], hc_doer = (\<lambda>_ s. (Inl (CtxErr Canceled), s)),
     hc_authz = ''Bearer x'', hc_paths = default_endpoints\<rparr>"

theorem requests_reach_endpoint_witness:
  "\<exists>req. newRequest Inr sample_client ''GET'' ''/streams'' (by_stream ''a b&c'') None = Inr req
     \<and> u_path (cq_url req) = ''/ssf/streams'' \<and> map_of (parse_query (u_raw_query (cq_url req))) ''stream_id'' = Some ''a b&c''"
proof -
  let ?text = "plain_text ''https'' ''t.example'' [''ssf''] []"
  have p: "plain_scheme ''https''" "plain_host ''t.example''" "list_all plain_seg [''ssf'']" "plain_ref [''streams'']"
    by code_simp+
  have opts: "list_all client_opt [WithAuthorizationHeader ''Bearer x'']" by (auto simp: client_opt_def)
  have "NewClient Inr (\<lambda>_ s. (Inl (CtxErr Canceled), s)) ?text [WithAuthorizationHeader ''Bearer x''] = Inr sample_client"
    using url_Parse_plain [OF p(1-3), of "[]" Inr]
    by (simp add: NewClient_def WithAuthorizationHeader_def sample_client_def Let_def plain_text_def)
      (simp add: plain_url_def)
  from requests_reach_endpoint [OF p(1-3) opts this p(4), of "''/streams''" None "by_stream ''a b&c''" "''GET''"]
  show ?thesis by (auto simp: lookup_update')
qed

section \<open>Two paths that go elsewhere\<close>

text \<open>
  A custom endpoint path whose first segment has a colon, the form the default subject endpoints have one
  level deeper, is read as an absolute URL: the base is lost and the request has no host.
\<close>

theorem colon_path_loses_base:
  "\<exists>u. resolvePath ip_literal base ''/subjects:add'' = Inr u \<and> u_host u = [] \<and> u_scheme u = ''subjects'' \<and> u_opaque u = ''add''"
proof -
  have "url_Parse ip_literal ''subjects:add'' = Inr (zero_url\<lparr>u_scheme := ''subjects'', u_opaque := ''add''\<rparr>)"
    by code_simp
  then show ?thesis
    by (simp add: resolvePath_def trim_prefix_char_def ResolveReference_def zero_url_def Let_def set_path_def
        url_resolve_path_def escaped_path_def escape_def or_else_def)
qed

text \<open>An escaped slash in the path of the base is sent as a separator: the raw form is dropped with the suffix.\<close>

theorem base_escape_lost:
  "(case url_Parse Inr ''https://h/tenant%2F1'' of
      Inl _ \<Rightarrow> False
    | Inr base \<Rightarrow> url_String base = ''https://h/tenant%2F1''
        \<and> map_sum (\<lambda>e. ()) url_String (resolvePath Inr base ''/streams'') = Inr ''https://h/tenant/1/streams'')"
  by code_simp

end
