(* ===== verification/Wire_Messages.thy ===== *)
theory Wire_Messages
  imports Client
begin

text \<open>
  Round trips of the remaining documents: status and its updates, subjects, verification, poll requests and
  responses, lists and the transmitter's metadata. Each is stated as one fact: the document is well-formed JSON
  and its decoder returns a given value.
\<close>

definition carries :: "json option \<Rightarrow> (json \<Rightarrow> json_err + 'a) \<Rightarrow> 'a \<Rightarrow> bool" where
  "carries doc dec a \<longleftrightarrow> (\<exists>j. doc = Some j \<and> wf_json j \<and> dec j = Inr a)"

lemma carriesI [intro]: "wf_json j \<Longrightarrow> dec j = Inr a \<Longrightarrow> carries (Some j) dec a"
  by (simp add: carries_def)

lemma carries_mk_obj:
  "wf_pairs ms \<Longrightarrow> dec_pairs h ms a = Inr b \<Longrightarrow> carries (Some (mk_obj ms)) (\<lambda>v. dec_struct h v a) b"
  by (simp add: carries_def dec_struct_mk_obj)

lemma carries_config: "config_ok reg c \<Longrightarrow> carries (enc_config c) (dec_config reg) (norm_config c)"
  by (erule config_encodes) (auto simp: carries_def)

declare fold_case.simps [simp del]

section \<open>Status\<close>

lemma carries_status:
  assumes "raw_ok (sr_subject r)"
  shows "carries (enc_status_response r) dec_status_response r"
proof -
  let ?a = "\<lparr>sr_status = sr_status r, sr_reason = sr_reason r, sr_subject = []\<rparr>"
  obtain ms where ms: "om_raw ''subject'' (sr_subject r) = Some ms" "wf_pairs ms"
    "dec_pairs h_status_response ms ?a = Inr (?a\<lparr>sr_subject := sr_subject r\<rparr>)"
    by (rule dec_om_raw [OF assms, of h_status_response "''subject''" ?a "\<lambda>s. ?a\<lparr>sr_subject := s\<rparr>"])
      (simp_all add: h_status_response_def fold_names)
  have "dec_pairs h_status_response ([(quote ''status'', jstring (sr_status r))] @ om_str ''reason'' (sr_reason r) @ ms)
      \<lparr>sr_status = [], sr_reason = [], sr_subject = []\<rparr> = Inr r"
    using ms(3) by (cases r; cases "sr_reason r = []") (simp_all add: dec_pairs_append om_str_def h_status_response_def fold_names)
  then show ?thesis using ms(1,2)
    by (simp add: carries_def enc_status_response_def dec_status_response_def dec_struct_mk_obj)
qed

lemma carries_status_update:
  assumes "raw_ok (su_subject r)"
  shows "carries (enc_status_update r) dec_status_update r"
proof -
  let ?a = "\<lparr>su_status = su_status r, su_reason = su_reason r, su_subject = []\<rparr>"
  obtain ms where ms: "om_raw ''subject'' (su_subject r) = Some ms" "wf_pairs ms"
    "dec_pairs h_status_update ms ?a = Inr (?a\<lparr>su_subject := su_subject r\<rparr>)"
    by (rule dec_om_raw [OF assms, of h_status_update "''subject''" ?a "\<lambda>s. ?a\<lparr>su_subject := s\<rparr>"])
      (simp_all add: h_status_update_def fold_names)
  have "dec_pairs h_status_update ([(quote ''status'', jstring (su_status r))] @ om_str ''reason'' (su_reason r) @ ms)
      \<lparr>su_status = [], su_reason = [], su_subject = []\<rparr> = Inr r"
    using ms(3) by (cases r; cases "su_reason r = []") (simp_all add: dec_pairs_append om_str_def h_status_update_def fold_names)
  then show ?thesis using ms(1,2)
    by (simp add: carries_def enc_status_update_def dec_status_update_def dec_struct_mk_obj)
qed

section \<open>Subjects and verification\<close>

text \<open>An identifier survives when its marshalled form is compact JSON that parses back to it.\<close>

definition sid_ok :: "(string \<Rightarrow> 'sid result) \<Rightarrow> ('sid \<Rightarrow> string option) \<Rightarrow> 'sid option \<Rightarrow> bool" where
  "sid_ok sid_parse sid_marshal s \<longleftrightarrow>
     (case s of
        None \<Rightarrow> False
      | Some x \<Rightarrow> (case sid_marshal x of
                    None \<Rightarrow> False
                  | Some raw \<Rightarrow> raw \<noteq> [] \<and> raw_ok raw \<and> sid_parse raw = Inr x))"

lemma sid_ok_json:
  assumes "sid_ok sid_parse sid_marshal s"
  obtains x j where "s = Some x" and "enc_subject sid_marshal s = Some j" and "wf_json j" and "sid_parse (jprint j) = Inr x"
proof -
  obtain x raw where x: "s = Some x" "sid_marshal x = Some raw" and raw: "raw \<noteq> []" "raw_ok raw" "sid_parse raw = Inr x"
    using assms by (auto simp: sid_ok_def split: option.splits)
  obtain j where "raw_json raw = Some j" "wf_json j" "jprint j = raw" using raw_ok_json [OF raw(2,1)] by blast
  with x raw(3) show thesis by (intro that [of x j]) (simp_all add: enc_subject_def)
qed

text \<open>For requests whose decoders are not struct decoders, what the server reads of the bytes.\<close>

definition body_read :: "json option \<Rightarrow> (string \<Rightarrow> 'a result) \<Rightarrow> 'a \<Rightarrow> bool" where
  "body_read doc dec a \<longleftrightarrow> (\<exists>j. doc = Some j \<and> wf_json j \<and> dec (jprint j) = Inr a)"

lemma carries_body_read: "carries doc dec a \<Longrightarrow> body_read doc (\<lambda>d. of_json (unmarshal dec d)) a"
  by (auto simp: carries_def body_read_def unmarshal_def of_json_def)

lemma body_read_add_subject:
  assumes "sid_ok sid_parse sid_marshal (as_subject r)"
  shows "body_read (enc_add_subject sid_marshal r) (unmarshal_add_subject sid_parse) r"
proof -
  obtain x j where x: "as_subject r = Some x" "enc_subject sid_marshal (as_subject r) = Some j" "wf_json j"
    "sid_parse (jprint j) = Inr x" by (rule sid_ok_json [OF assms])
  let ?ms = "[(quote ''subject'', j)] @ om_bool_ptr ''verified'' (as_verified r)"
  have "dec_pairs h_add_subject ?ms ([], None) = Inr (jprint j, as_verified r)"
    by (auto simp: om_bool_ptr_def h_add_subject_def fold_names split: option.split)
  then have "unmarshal (\<lambda>v. dec_struct h_add_subject v ([], None)) (jprint (mk_obj ?ms)) = Inr (jprint j, as_verified r)"
    using x(3) by (simp add: unmarshal_def dec_struct_mk_obj)
  then show ?thesis using x
    by (cases r) (simp add: body_read_def enc_add_subject_def unmarshal_add_subject_def of_json_def)
qed

lemma body_read_remove_subject:
  assumes "sid_ok sid_parse sid_marshal (rs_subject r)"
  shows "body_read (enc_remove_subject sid_marshal r) (unmarshal_remove_subject sid_parse) r"
proof -
  obtain x j where x: "rs_subject r = Some x" "enc_subject sid_marshal (rs_subject r) = Some j" "wf_json j"
    "sid_parse (jprint j) = Inr x" by (rule sid_ok_json [OF assms])
  have "unmarshal (\<lambda>v. dec_struct h_remove_subject v []) (jprint (mk_obj [(quote ''subject'', j)])) = Inr (jprint j)"
    using x(3) by (simp add: unmarshal_def dec_struct_mk_obj h_remove_subject_def fold_names)
  then show ?thesis using x
    by (cases r) (simp add: body_read_def enc_remove_subject_def unmarshal_remove_subject_def of_json_def)
qed

lemma carries_verification: "carries (Some (enc_verification_request r)) dec_verification_request r"
proof (rule carriesI)
  show "wf_json (enc_verification_request r)" by (simp add: enc_verification_request_def)
  show "dec_verification_request (enc_verification_request r) = Inr r"
    by (cases r) (simp add: enc_verification_request_def dec_verification_request_def dec_struct_mk_obj om_str_def h_state_def fold_names)
qed


section \<open>Maps\<close>

lemma dec_map_members_mk:
  assumes "\<forall>p \<in> set ps. d (f (snd p)) = Inr (snd p)"
  shows "dec_map_members d (map (\<lambda>(k, v). (quote k, jprint (f v), f v)) ps) m = Inr (fold (\<lambda>(k, v). Mapping.update k v) ps m)"
  using assms by (induction ps arbitrary: m) auto

lemma fold_update_lookup:
  assumes "distinct ks"
  shows "Mapping.lookup (fold (\<lambda>k. Mapping.update k (g k)) ks m) k = (if k \<in> set ks then Some (g k) else Mapping.lookup m k)"
  using assms by (induction ks arbitrary: m) (auto simp: lookup_update')

lemma dec_map_jmap:
  assumes "finite (Mapping.keys m)" and "\<And>k v. Mapping.lookup m k = Some v \<Longrightarrow> d (f v) = Inr v"
  shows "dec_map d (jmap f m) None = Inr (Some m)"
proof -
  let ?ks = "Mapping.ordered_keys m" and ?g = "\<lambda>k. the (Mapping.lookup m k)"
  have ks: "set ?ks = Mapping.keys m" "distinct ?ks" using assms(1) by (simp_all add: ordered_keys_def)
  have "\<forall>p \<in> set (map (\<lambda>k. (k, ?g k)) ?ks). d (f (snd p)) = Inr (snd p)"
    using ks(1) assms(2) by (auto simp: keys_dom_lookup)
  then have "dec_map_members d (map (\<lambda>(k, v). (quote k, jprint (f v), f v)) (map (\<lambda>k. (k, ?g k)) ?ks)) Mapping.empty
      = Inr (fold (\<lambda>(k, v). Mapping.update k v) (map (\<lambda>k. (k, ?g k)) ?ks) Mapping.empty)"
    by (rule dec_map_members_mk)
  moreover have "fold (\<lambda>(k, v). Mapping.update k v) (map (\<lambda>k. (k, ?g k)) ?ks) Mapping.empty = m"
  proof (rule mapping_ext)
    fix k show "Mapping.lookup (fold (\<lambda>(k, v). Mapping.update k v) (map (\<lambda>k. (k, ?g k)) ?ks) Mapping.empty) k = Mapping.lookup m k"
      using fold_update_lookup [OF ks(2), of ?g Mapping.empty k] ks(1)
      by (auto simp: fold_map comp_def lookup_empty keys_dom_lookup)
  qed
  ultimately show ?thesis by (simp add: dec_map_def jmap_def mk_obj_def comp_def)
qed

lemma dec_map_null: "dec_map d JNull old = Inr None"
  by (simp add: dec_map_def)

section \<open>Polling\<close>

definition norm_poll_request :: "poll_request \<Rightarrow> poll_request" where
  "norm_poll_request r = r\<lparr>pq_ack := norm_strs (pq_ack r),
     pq_set_errs := (case pq_set_errs r of None \<Rightarrow> None
       | Some m \<Rightarrow> if Mapping.ordered_keys m = [] then None else Some m)\<rparr>"

definition poll_request_ok :: "poll_request \<Rightarrow> bool" where
  "poll_request_ok r \<longleftrightarrow> (case pq_set_errs r of None \<Rightarrow> True | Some m \<Rightarrow> finite (Mapping.keys m))
     \<and> (case pq_max_events r of None \<Rightarrow> True | Some i \<Rightarrow> int64 i)"

lemma dec_set_err_enc: "dec_set_err (enc_set_err e) = Inr e"
  by (cases e) (simp add: dec_set_err_def enc_set_err_def dec_struct_mk_obj om_str_def h_set_err_def fold_names)

lemma wf_set_err: "wf_json (enc_set_err e)"
  by (simp add: enc_set_err_def)

lemma carries_poll_request:
  assumes "poll_request_ok r"
  shows "carries (Some (enc_poll_request r)) dec_poll_request (norm_poll_request r)"
proof -
  let ?z = "\<lparr>pq_ack = None, pq_set_errs = None, pq_max_events = None, pq_return_immediately = None\<rparr>"
  let ?n = "norm_poll_request r"
  have a: "dec_pairs h_poll_request (om_strs ''ack'' (pq_ack r)) ?z = Inr (?z\<lparr>pq_ack := pq_ack ?n\<rparr>)"
    by (simp add: om_strs_def norm_poll_request_def norm_strs_def h_poll_request_def fold_names split: option.split)
  have b: "dec_pairs h_poll_request (om_set_errs (pq_set_errs r)) (?z\<lparr>pq_ack := x\<rparr>)
      = Inr (?z\<lparr>pq_ack := x, pq_set_errs := pq_set_errs ?n\<rparr>)" for x
    using assms dec_map_jmap [of _ dec_set_err enc_set_err] dec_set_err_enc
    by (auto simp: om_set_errs_def norm_poll_request_def poll_request_ok_def h_poll_request_def fold_names split: option.splits)
  have c: "dec_pairs h_poll_request (om_int_ptr ''maxEvents'' (pq_max_events r)) (?z\<lparr>pq_ack := x, pq_set_errs := y\<rparr>)
      = Inr (?z\<lparr>pq_ack := x, pq_set_errs := y, pq_max_events := pq_max_events r\<rparr>)" for x y
    using assms by (auto simp: om_int_ptr_def poll_request_ok_def h_poll_request_def fold_names split: option.splits)
  have d: "dec_pairs h_poll_request (om_bool_ptr ''returnImmediately'' (pq_return_immediately r))
        (?z\<lparr>pq_ack := x, pq_set_errs := y, pq_max_events := w\<rparr>)
      = Inr (?z\<lparr>pq_ack := x, pq_set_errs := y, pq_max_events := w, pq_return_immediately := pq_return_immediately r\<rparr>)" for x y w
    by (auto simp: om_bool_ptr_def h_poll_request_def fold_names split: option.splits)
  have "?z\<lparr>pq_ack := pq_ack ?n, pq_set_errs := pq_set_errs ?n, pq_max_events := pq_max_events r,
      pq_return_immediately := pq_return_immediately r\<rparr> = ?n"
    by (cases r) (simp add: norm_poll_request_def)
  with a b c d have "dec_poll_request (enc_poll_request r) = Inr ?n"
    by (simp add: dec_poll_request_def enc_poll_request_def dec_struct_mk_obj dec_pairs_append)
  moreover have "wf_json (enc_poll_request r)"
    by (auto simp: enc_poll_request_def om_set_errs_def wf_set_err intro: wf_jmap split: option.split)
  ultimately show ?thesis by blast
qed

definition poll_response_ok :: "poll_response \<Rightarrow> bool" where
  "poll_response_ok r \<longleftrightarrow> (case pr_sets r of None \<Rightarrow> True | Some m \<Rightarrow> finite (Mapping.keys m))"

lemma carries_poll_response:
  assumes "poll_response_ok r"
  shows "carries (Some (enc_poll_response r)) dec_poll_response r"
proof -
  have "dec_map (\<lambda>x. dec_str x []) (case pr_sets r of None \<Rightarrow> JNull | Some m \<Rightarrow> jmap jstring m) None = Inr (pr_sets r)"
    using assms dec_map_jmap [of _ "\<lambda>x. dec_str x []" jstring]
    by (cases "pr_sets r") (simp_all add: poll_response_ok_def dec_map_null)
  then have "dec_poll_response (enc_poll_response r) = Inr r"
    by (cases r; cases "pr_more_available r")
      (simp_all add: enc_poll_response_def dec_poll_response_def dec_struct_mk_obj om_bool_ptr_def h_poll_response_def fold_names)
  moreover have "wf_json (enc_poll_response r)"
    by (auto simp: enc_poll_response_def intro: wf_jmap split: option.split)
  ultimately show ?thesis by blast
qed


section \<open>Lists of configurations\<close>

lemma those_map_Some: "(\<And>x. x \<in> set xs \<Longrightarrow> f x = Some (g x)) \<Longrightarrow> those (map f xs) = Some (map g xs)"
  by (induction xs) simp_all

abbreviation list_ok :: "delivery_registry \<Rightarrow> stream_config option list \<Rightarrow> bool" where
  "list_ok reg cs \<equiv> list_all (\<lambda>c. case c of None \<Rightarrow> True | Some g \<Rightarrow> config_ok reg g) cs"

lemma carries_list:
  assumes "list_ok reg cs"
  shows "carries (enc_list cs next_token) (the (snd (list_target reg)))
    \<lparr>lc_streams = map (map_option norm_config) cs, lc_next_page_token = next_token\<rparr>"
proof -
  define enc where "enc c = (case c of None \<Rightarrow> JNull | Some g \<Rightarrow> the (enc_config g))" for c
  have enc: "enc_config g = Some (enc c)" "wf_json (enc c)" "dec_config reg (enc c) = Inr (norm_config g)" "enc c \<noteq> JNull"
    if "c \<in> set cs" and "c = Some g" for c g
    using carries_config [of reg g] assms that
    by (auto simp: carries_def enc_def list_all_iff enc_config_def mk_obj_def split: option.splits)
  have wf: "wf_json (enc c)" if "c \<in> set cs" for c using enc(2) [OF that] by (cases c) (simp_all add: enc_def)
  have "those (map (\<lambda>c. case c of None \<Rightarrow> Some JNull | Some g \<Rightarrow> enc_config g) cs) = Some (map enc cs)"
    by (rule those_map_Some) (use enc(1) in \<open>auto simp: enc_def split: option.split\<close>)
  then have doc: "enc_list cs next_token
      = Some (mk_obj ([(quote ''streams'', mk_arr (map enc cs))] @ om_str ''next_page_token'' next_token))"
    by (simp add: enc_list_def)
  have "dec_config_list reg (map (\<lambda>v. (jprint v, v)) (map enc xs)) = Inr (map (map_option norm_config) xs)"
    if "set xs \<subseteq> set cs" for xs
    using that
  proof (induction xs)
    case (Cons x xs)
    then show ?case
    proof (cases x)
      case None
      then show ?thesis using Cons by (simp add: enc_def)
    next
      case (Some g)
      then show ?thesis using Cons enc(3,4) [of x g] by (cases "enc x") simp_all
    qed
  qed simp
  then have "dec_streams reg (mk_arr (map enc cs)) = Inr (map (map_option norm_config) cs)"
    by (simp add: dec_streams_def mk_arr_def)
  moreover have "fold_case ''streams'' = ''streams''" "fold_case ''next_page_token'' = ''next_page_token''" by code_simp+
  ultimately have "dec_pairs (h_list reg) ([(quote ''streams'', mk_arr (map enc cs))] @ om_str ''next_page_token'' next_token)
      \<lparr>lc_streams = [], lc_next_page_token = []\<rparr>
      = Inr \<lparr>lc_streams = map (map_option norm_config) cs, lc_next_page_token = next_token\<rparr>"
    by (simp add: om_str_def h_list_def)
  then show ?thesis using doc wf by (auto simp: carries_def dec_struct_mk_obj list_target_def Let_def)
qed

section \<open>Metadata\<close>

definition metadata_ok :: "transmitter_config \<Rightarrow> bool" where
  "metadata_ok c \<longleftrightarrow> raw_ok (tc_authorization_schemes c)"

definition norm_metadata :: "transmitter_config \<Rightarrow> transmitter_config" where
  "norm_metadata c = c\<lparr>tc_critical_subject_members := norm_strs (tc_critical_subject_members c)\<rparr>"

lemma metadata_names:
  "fold_case ''issuer'' = ''issuer''" "fold_case ''jwks_uri'' = ''jwks_uri''"
  "fold_case ''delivery_methods_supported'' = ''delivery_methods_supported''"
  "fold_case ''configuration_endpoint'' = ''configuration_endpoint''" "fold_case ''status_endpoint'' = ''status_endpoint''"
  "fold_case ''add_subject_endpoint'' = ''add_subject_endpoint''"
  "fold_case ''remove_subject_endpoint'' = ''remove_subject_endpoint''"
  "fold_case ''verification_endpoint'' = ''verification_endpoint''"
  "fold_case ''critical_subject_members'' = ''critical_subject_members''" "fold_case ''spec_version'' = ''spec_version''"
  "fold_case ''authorization_schemes'' = ''authorization_schemes''"
  by code_simp+

lemma metadata_segments:
  "h_transmitter_config ''issuer'' src (jstring s) a = Inr (a\<lparr>tc_issuer := s\<rparr>)"
  "h_transmitter_config ''delivery_methods_supported'' src (case xs of None \<Rightarrow> JNull | Some ys \<Rightarrow> jstrings ys) a
     = Inr (a\<lparr>tc_delivery_methods_supported := xs\<rparr>)"
  "tc_jwks_uri a = [] \<Longrightarrow> dec_pairs h_transmitter_config (om_str ''jwks_uri'' s) a = Inr (a\<lparr>tc_jwks_uri := s\<rparr>)"
  "tc_configuration_endpoint a = [] \<Longrightarrow> dec_pairs h_transmitter_config (om_str ''configuration_endpoint'' s) a
     = Inr (a\<lparr>tc_configuration_endpoint := s\<rparr>)"
  "tc_status_endpoint a = [] \<Longrightarrow> dec_pairs h_transmitter_config (om_str ''status_endpoint'' s) a
     = Inr (a\<lparr>tc_status_endpoint := s\<rparr>)"
  "tc_add_subject_endpoint a = [] \<Longrightarrow> dec_pairs h_transmitter_config (om_str ''add_subject_endpoint'' s) a
     = Inr (a\<lparr>tc_add_subject_endpoint := s\<rparr>)"
  "tc_remove_subject_endpoint a = [] \<Longrightarrow> dec_pairs h_transmitter_config (om_str ''remove_subject_endpoint'' s) a
     = Inr (a\<lparr>tc_remove_subject_endpoint := s\<rparr>)"
  "tc_verification_endpoint a = [] \<Longrightarrow> dec_pairs h_transmitter_config (om_str ''verification_endpoint'' s) a
     = Inr (a\<lparr>tc_verification_endpoint := s\<rparr>)"
  "tc_critical_subject_members a = None \<Longrightarrow> dec_pairs h_transmitter_config (om_strs ''critical_subject_members'' xs) a
     = Inr (a\<lparr>tc_critical_subject_members := norm_strs xs\<rparr>)"
  "tc_spec_version a = [] \<Longrightarrow> dec_pairs h_transmitter_config (om_str ''spec_version'' s) a
     = Inr (a\<lparr>tc_spec_version := s\<rparr>)"
  by (cases a; simp add: om_defs norm_strs_def h_transmitter_config_def metadata_names dec_strs_def [of JNull] split: option.splits)+

lemma carries_metadata:
  assumes "metadata_ok c"
  shows "carries (enc_transmitter_config c) dec_transmitter_config (norm_metadata c)"
proof -
  let ?h = h_transmitter_config and ?a = "(norm_metadata c)\<lparr>tc_authorization_schemes := []\<rparr>"
  have raw: "raw_ok (tc_authorization_schemes c)" using assms by (simp add: metadata_ok_def)
  obtain ms where ms: "om_raw ''authorization_schemes'' (tc_authorization_schemes c) = Some ms" "wf_pairs ms"
    "dec_pairs ?h ms ?a = Inr (?a\<lparr>tc_authorization_schemes := tc_authorization_schemes c\<rparr>)"
    by (rule dec_om_raw [OF raw, of ?h "''authorization_schemes''" ?a "\<lambda>s. ?a\<lparr>tc_authorization_schemes := s\<rparr>"])
      (simp_all add: h_transmitter_config_def metadata_names)
  let ?f = "[(quote ''issuer'', jstring (tc_issuer c))] @ om_str ''jwks_uri'' (tc_jwks_uri c)
         @ [(quote ''delivery_methods_supported'',
              case tc_delivery_methods_supported c of None \<Rightarrow> JNull | Some xs \<Rightarrow> jstrings xs)]
         @ om_str ''configuration_endpoint'' (tc_configuration_endpoint c)
         @ om_str ''status_endpoint'' (tc_status_endpoint c)
         @ om_str ''add_subject_endpoint'' (tc_add_subject_endpoint c)
         @ om_str ''remove_subject_endpoint'' (tc_remove_subject_endpoint c)
         @ om_str ''verification_endpoint'' (tc_verification_endpoint c)
         @ om_strs ''critical_subject_members'' (tc_critical_subject_members c)
         @ om_str ''spec_version'' (tc_spec_version c) @ ms"
  have "dec_pairs ?h ?f zero_transmitter_config = Inr (norm_metadata c)"
    using ms(3) by (cases c) (simp add: dec_pairs_append zero_transmitter_config_def metadata_names metadata_segments norm_metadata_def)
  moreover have "wf_json (mk_obj ?f)" using ms(2) by (simp split: option.split)
  ultimately show ?thesis using ms(1)
    by (simp add: carries_def enc_transmitter_config_def dec_transmitter_config_def dec_struct_mk_obj)
qed

end
