(* ===== verification/Loopback.thy ===== *)
theory Loopback
  imports Wire_Messages
begin

text \<open>
  The client against the library's own handlers. A doer serves each request with the mux of a transmitter, as
  \<open>net/http\<close> would carry it, and hands the response back; then a call of the client is a call of the transmitter,
  and so is every sequence of calls.
\<close>

section \<open>The connection\<close>

text \<open>The request a server sees, and the doer that passes requests to the routes of a mux.\<close>

definition server_request :: "client_request \<Rightarrow> http_request" where
  "server_request req = \<lparr>rq_method = cq_method req, rq_path = u_path (cq_url req),
     rq_query = parse_query (u_raw_query (cq_url req)),
     rq_body = (case cq_body req of None \<Rightarrow> [] | Some b \<Rightarrow> b), rq_body_err = None\<rparr>"

definition loopback :: "(string \<times> 's handler) list \<Rightarrow> 's http_doer" where
  "loopback routes req s = (case serve_mux routes (server_request req) s of (resp, s') \<Rightarrow> (Inr (reply_of resp), s'))"

definition endpoints_of :: "mux_config \<Rightarrow> endpoint_paths" where
  "endpoints_of m = \<lparr>ep_config = mc_streams m, ep_status = mc_status m, ep_add_subject = mc_add_subject m,
     ep_remove_subject = mc_remove_subject m, ep_verify = mc_verification m, ep_poll = mc_poll m\<rparr>"

definition mux_paths :: "mux_config \<Rightarrow> string list" where
  "mux_paths m = [mc_streams m, mc_status m, mc_add_subject m, mc_remove_subject m, mc_verification m, mc_poll m]"

definition served_by :: "'s http_doer http_client \<Rightarrow> ('sid, 's) service \<Rightarrow> auth_func \<Rightarrow> mux_config \<Rightarrow> bool" where
  "served_by c sv auth m \<longleftrightarrow>
     (\<exists>scheme h q. plain_scheme scheme \<and> plain_host h \<and> hc_base c = plain_url scheme h [] q)
     \<and> hc_doer c = loopback (mux_routes sv (Some auth) m) \<and> hc_paths c = endpoints_of m
     \<and> (\<forall>rq. \<exists>scope. auth rq = Inr scope)
     \<and> distinct (mux_paths m) \<and> (\<forall>p \<in> set (mux_paths m). \<exists>es. plain_ref es \<and> p = path_of es)"

lemma mux_routes_path:
  assumes "distinct (mux_paths m)"
  shows "map_of (mux_routes sv auth m) (mc_streams m) = Some (ConfigHandler (sv_registry sv) (sv_transmitter sv) auth)"
    "map_of (mux_routes sv auth m) (mc_status m) = Some (StatusHandler (sv_transmitter sv) auth)"
    "map_of (mux_routes sv auth m) (mc_add_subject m) = Some (AddSubjectHandler (sv_sid_parse sv) (sv_transmitter sv) auth)"
    "map_of (mux_routes sv auth m) (mc_remove_subject m) = Some (RemoveSubjectHandler (sv_sid_parse sv) (sv_transmitter sv) auth)"
    "map_of (mux_routes sv auth m) (mc_verification m) = Some (VerificationHandler (sv_transmitter sv) auth)"
    "map_of (mux_routes sv auth m) (mc_poll m) = Some (PollHandler (sv_transmitter sv) auth)"
proof -
  have "distinct (map fst (mux_routes sv auth m))" using assms by (simp add: mux_routes_def Let_def mux_paths_def)
  note * = map_of_is_SomeI [OF this]
  show "map_of (mux_routes sv auth m) (mc_streams m) = Some (ConfigHandler (sv_registry sv) (sv_transmitter sv) auth)"
    "map_of (mux_routes sv auth m) (mc_status m) = Some (StatusHandler (sv_transmitter sv) auth)"
    "map_of (mux_routes sv auth m) (mc_add_subject m) = Some (AddSubjectHandler (sv_sid_parse sv) (sv_transmitter sv) auth)"
    "map_of (mux_routes sv auth m) (mc_remove_subject m) = Some (RemoveSubjectHandler (sv_sid_parse sv) (sv_transmitter sv) auth)"
    "map_of (mux_routes sv auth m) (mc_verification m) = Some (VerificationHandler (sv_transmitter sv) auth)"
    "map_of (mux_routes sv auth m) (mc_poll m) = Some (PollHandler (sv_transmitter sv) auth)"
    by (rule *, simp add: mux_routes_def Let_def)+
qed

text \<open>What the server makes of a query and a body.\<close>

definition served :: "string \<Rightarrow> string \<Rightarrow> url_values \<Rightarrow> string \<Rightarrow> http_request" where
  "served meth path query body = \<lparr>rq_method = meth, rq_path = path,
     rq_query = parse_query (if query = Mapping.empty then [] else values_Encode query),
     rq_body = body, rq_body_err = None\<rparr>"

lemma served_simps [simp]:
  "rq_method (served meth path query body) = meth" "rq_body (served meth path query body) = body"
  "rq_body_err (served meth path query body) = None"
  by (simp_all add: served_def)

lemma query_served:
  assumes "finite (Mapping.keys query)"
  shows "query_get (served meth path query body) k = (case Mapping.lookup query k of Some (v # _) \<Rightarrow> v | _ \<Rightarrow> [])"
  using query_lookup [OF assms, of k]
  by (auto simp: query_get_def served_def lookup_empty parse_query_def parse_pair_def split: option.splits list.splits)

lemma runAuth_connected: "served_by c sv auth m \<Longrightarrow> runAuth (Some auth) rq = None"
  by (auto simp: served_by_def runAuth_def split: sum.split) (metis sum.distinct(1))

lemma client_call_connected:
  assumes "served_by c sv auth m" and "path \<in> set (mux_paths m)" and "body \<noteq> Some None"
    and "map_of (mux_routes sv (Some auth) m) path = Some h"
  shows "client_call ip_literal c meth path query body out s
    = (case h (served meth path query (case body of Some (Some j) \<Rightarrow> jprint j | _ \<Rightarrow> [])) s of
         (resp, s') \<Rightarrow> (read_reply (meth @ '' '' @ path) out (reply_of resp), s'))"
proof -
  obtain scheme host q where base: "plain_scheme scheme" "plain_host host" "hc_base c = plain_url scheme host [] q"
    and doer: "hc_doer c = loopback (mux_routes sv (Some auth) m)"
    using assms(1) by (auto simp: served_by_def)
  obtain es where es: "plain_ref es" "path = path_of es" using assms(1,2) by (auto simp: served_by_def)
  let ?q = "if query = Mapping.empty then [] else values_Encode query"
  let ?r = "\<lparr>cq_method = meth, cq_url = plain_url scheme host es ?q,
        cq_headers = request_headers (hc_authz c) (body \<noteq> None), cq_body = map_option jprint (Option.bind body (\<lambda>b. b))\<rparr>"
  have req: "newRequest ip_literal c meth path query body = Inr ?r"
    using newRequest_plain [OF base(1,2) _ es(1) base(3), where path = path] es(2) assms(3) by simp
  have "server_request ?r = served meth path query (case body of Some (Some j) \<Rightarrow> jprint j | _ \<Rightarrow> [])"
    using assms(3) by (auto simp: server_request_def served_def plain_url_def zero_url_def es(2) split: option.split)
  moreover have "rq_path (served meth path query b) = path" for b by (simp add: served_def)
  moreover have "u_path (plain_url scheme host es ?q) = path" by (simp add: plain_url_def es(2))
  ultimately show ?thesis
    using assms(4) by (simp add: client_call_def req client_do_def Let_def doer loopback_def serve_mux_def split: prod.split)
qed

section \<open>Responses read back\<close>

definition client_error :: "gerror \<Rightarrow> gerror" where
  "client_error e = the (ParseHTTPError (reply_of (writeProblem e)))"

lemma read_problem [simp]: "read_reply what out (reply_of (writeProblem e)) = Inl (client_error e)"
proof -
  have st: "hr_status (reply_of (writeProblem e)) = problem_status e"
    using writeProblem_form [of e] by auto
  have "\<exists>x. ParseHTTPError (reply_of (writeProblem e)) = Some x"
    using problem_status_cases [of e] by (auto simp: ParseHTTPError_def st Let_def split: option.split)
  then show ?thesis
    using problem_status_cases [of e] by (auto simp: read_reply_def st client_error_def)
qed

lemma read_document:
  assumes "carries doc dec a" and "status = 200 \<or> status = 201"
  shows "read_reply what (z, Some dec) (reply_of (writeJSON status doc)) = Inr a"
proof -
  obtain j where j: "doc = Some j" "wf_json j" "dec j = Inr a" using assms(1) by (auto simp: carries_def)
  have "parse_prefix (jprint j) = Some (j, [])" using parse_prefix_jprint [OF j(2), of "[]"] by simp
  moreover have "jprint j \<noteq> []" using jprint_nonempty [OF j(2)] by auto
  ultimately show ?thesis using assms(2) j(3)
    by (auto simp: j(1) read_reply_def reply_of_def writeJSON_def decode_reply_def)
qed

lemma read_empty [simp]:
  "read_reply what (z, None) (reply_of (writeEmptyJSON 200)) = Inr z"
  "read_reply what (z, None) (reply_of \<lparr>rs_status = 204, rs_headers = [], rs_body = []\<rparr>) = Inr z"
  by (simp_all add: read_reply_def reply_of_def writeEmptyJSON_def)

lemma with_body_served:
  assumes "body_read doc dec a" and "length (jprint (the doc)) \<le> maxBody"
  shows "with_body dec (served meth path query (jprint (the doc))) s f = f a"
proof -
  obtain j where j: "doc = Some j" "wf_json j" "dec (jprint j) = Inr a" using assms(1) by (auto simp: body_read_def)
  have "jprint j \<noteq> []" using jprint_nonempty [OF j(2)] by auto
  then show ?thesis using assms(2) j by (simp add: with_body_def decodeJSONBody_def)
qed


section \<open>Calls\<close>

text \<open>The methods of the interface and their results as data.\<close>

datatype 'sid call =
    Get_Config string
  | List_Config string
  | Create_Config stream_config
  | Update_Config stream_config
  | Delete_Config string
  | Get_Status string string
  | Update_Status string status_update_request
  | Add_Subject string "'sid add_subject_request"
  | Remove_Subject string "'sid remove_subject_request"
  | Verify_Stream string verification_request
  | Poll_Events string poll_request

datatype answer =
    Config_Answer stream_config
  | List_Answer "stream_config option list" string
  | Status_Answer status_response
  | Done_Answer
  | Poll_Answer poll_response

definition tagged :: "('a \<Rightarrow> answer) \<Rightarrow> 'a result \<times> 's \<Rightarrow> answer result \<times> 's" where
  "tagged f r = (map_sum (\<lambda>e. e) f (fst r), snd r)"

fun direct_call :: "('sid, 's) transmitter \<Rightarrow> 'sid call \<Rightarrow> 's \<Rightarrow> answer result \<times> 's" where
  "direct_call t (Get_Config i) s = tagged Config_Answer (tm_GetConfig t i s)"
| "direct_call t (List_Config tok) s = tagged (\<lambda>(cs, n). List_Answer cs n) (tm_ListConfig t tok s)"
| "direct_call t (Create_Config g) s = tagged Config_Answer (tm_CreateConfig t g s)"
| "direct_call t (Update_Config g) s = tagged Config_Answer (tm_UpdateConfig t g s)"
| "direct_call t (Delete_Config i) s = tagged (\<lambda>_. Done_Answer) (tm_DeleteConfig t i s)"
| "direct_call t (Get_Status i j) s = tagged Status_Answer (tm_GetStatus t i j s)"
| "direct_call t (Update_Status i r) s = tagged Status_Answer (tm_UpdateStatus t i r s)"
| "direct_call t (Add_Subject i r) s = tagged (\<lambda>_. Done_Answer) (tm_AddSubject t i r s)"
| "direct_call t (Remove_Subject i r) s = tagged (\<lambda>_. Done_Answer) (tm_RemoveSubject t i r s)"
| "direct_call t (Verify_Stream i r) s = tagged (\<lambda>_. Done_Answer) (tm_Verify t i r s)"
| "direct_call t (Poll_Events i r) s = tagged Poll_Answer (tm_PollEvents t i r s)"

abbreviation remote_call ::
  "(string \<Rightarrow> string + string) \<Rightarrow> delivery_registry \<Rightarrow> ('sid \<Rightarrow> string option) \<Rightarrow> 's http_doer http_client
     \<Rightarrow> 'sid call \<Rightarrow> 's \<Rightarrow> answer result \<times> 's" where
  "remote_call ip reg sm c \<equiv> direct_call (client_Transmitter ip reg sm c)"

text \<open>What arrives of a call and of an answer: empty lists of a configuration or of acks become nil.\<close>

fun sent_call :: "'sid call \<Rightarrow> 'sid call" where
  "sent_call (Create_Config g) = Create_Config (norm_config g)"
| "sent_call (Update_Config g) = Update_Config (norm_config g)"
| "sent_call (Poll_Events i r) = Poll_Events i (norm_poll_request r)"
| "sent_call c = c"

fun sent_answer :: "answer \<Rightarrow> answer" where
  "sent_answer (Config_Answer g) = Config_Answer (norm_config g)"
| "sent_answer (List_Answer gs n) = List_Answer (map (map_option norm_config) gs) n"
| "sent_answer a = a"

text \<open>A body that the server accepts.\<close>

definition fits :: "json option \<Rightarrow> bool" where
  "fits doc \<longleftrightarrow> length (jprint (the doc)) \<le> maxBody"

fun call_ok :: "('sid, 's) service \<Rightarrow> ('sid \<Rightarrow> string option) \<Rightarrow> 'sid call \<Rightarrow> bool" where
  "call_ok sv sm (Get_Config i) = (i \<noteq> [])"
| "call_ok sv sm (List_Config tok) = True"
| "call_ok sv sm (Create_Config g) = (config_ok (sv_registry sv) g \<and> fits (enc_config g))"
| "call_ok sv sm (Update_Config g) = (sc_stream_id g \<noteq> [] \<and> config_ok (sv_registry sv) g \<and> fits (enc_config g))"
| "call_ok sv sm (Delete_Config i) = (i \<noteq> [])"
| "call_ok sv sm (Get_Status i j) = (i \<noteq> [] \<and> (j = [] \<or> parse j \<noteq> None))"
| "call_ok sv sm (Update_Status i r) = (i \<noteq> [] \<and> raw_ok (su_subject r) \<and> fits (enc_status_update r))"
| "call_ok sv sm (Add_Subject i r) = (i \<noteq> [] \<and> sid_ok (sv_sid_parse sv) sm (as_subject r) \<and> fits (enc_add_subject sm r))"
| "call_ok sv sm (Remove_Subject i r) = (i \<noteq> [] \<and> sid_ok (sv_sid_parse sv) sm (rs_subject r) \<and> fits (enc_remove_subject sm r))"
| "call_ok sv sm (Verify_Stream i r) = (i \<noteq> [] \<and> fits (Some (enc_verification_request r)))"
| "call_ok sv sm (Poll_Events i r) = (i \<noteq> [] \<and> poll_request_ok r \<and> fits (Some (enc_poll_request r)))"

fun answer_ok :: "delivery_registry \<Rightarrow> answer \<Rightarrow> bool" where
  "answer_ok reg (Config_Answer g) = config_ok reg g"
| "answer_ok reg (List_Answer gs n) = list_ok reg gs"
| "answer_ok reg (Status_Answer r) = raw_ok (sr_subject r)"
| "answer_ok reg Done_Answer = True"
| "answer_ok reg (Poll_Answer r) = poll_response_ok r"

definition result_ok :: "delivery_registry \<Rightarrow> answer result \<Rightarrow> bool" where
  "result_ok reg r \<longleftrightarrow> (case r of Inl _ \<Rightarrow> True | Inr a \<Rightarrow> answer_ok reg a)"

text \<open>What the client makes of an answer of the transmitter.\<close>

definition transported :: "answer result \<times> 's \<Rightarrow> answer result \<times> 's" where
  "transported r = (map_sum client_error sent_answer (fst r), snd r)"

lemma tagged_simps [simp]: "tagged f (Inl e, s) = (Inl e, s)" "tagged f (Inr a, s) = (Inr (f a), s)"
  by (simp_all add: tagged_def)

lemma transported_simps [simp]:
  "transported (Inl e, s) = (Inl (client_error e), s)" "transported (Inr a, s) = (Inr (sent_answer a), s)"
  by (simp_all add: transported_def)

lemma result_ok_simps [simp]: "result_ok reg (Inr a) \<longleftrightarrow> answer_ok reg a" "result_ok reg (Inl e)"
  by (simp_all add: result_ok_def)

text \<open>A handler's reply, read by the client.\<close>

lemma read_reply_result:
  assumes "\<And>a. fst r = Inr a \<Longrightarrow> read_reply what out (reply_of (ok a)) = Inr (g a)"
  shows "(case reply ok r of (resp, s') \<Rightarrow> (read_reply what out (reply_of resp), s')) = (map_sum client_error g (fst r), snd r)"
  using assms by (cases r) (auto simp: reply_def split: sum.split)

lemma query_by_stream [simp]:
  "query_get (served meth path (by_stream i) body) ''stream_id'' = i"
  "query_get (served meth path (by_stream i) body) ''subject'' = []"
  by (simp_all add: query_served lookup_update' lookup_empty)


lemma query_empty [simp]: "query_get (served meth path Mapping.empty body) k = []"
  by (simp add: query_served lookup_empty)

lemma endpoints:
  "served_by c sv auth m \<Longrightarrow> ep_config (hc_paths c) = mc_streams m"
  "served_by c sv auth m \<Longrightarrow> ep_status (hc_paths c) = mc_status m"
  "served_by c sv auth m \<Longrightarrow> ep_add_subject (hc_paths c) = mc_add_subject m"
  "served_by c sv auth m \<Longrightarrow> ep_remove_subject (hc_paths c) = mc_remove_subject m"
  "served_by c sv auth m \<Longrightarrow> ep_verify (hc_paths c) = mc_verification m"
  "served_by c sv auth m \<Longrightarrow> ep_poll (hc_paths c) = mc_poll m"
  by (simp_all add: served_by_def endpoints_of_def)

text \<open>One rule per endpoint: the exchange is the handler on the served request.\<close>

lemma call_endpoint:
  assumes "served_by c sv auth m" and "body \<noteq> Some None"
  defines "served_body \<equiv> (case body of Some (Some j) \<Rightarrow> jprint j | _ \<Rightarrow> [])"
  defines "exchange \<equiv> \<lambda>h path query meth out s. case h (served meth path query served_body) s of
      (resp, s') \<Rightarrow> (read_reply (meth @ '' '' @ path) out (reply_of resp), s')"
  shows "client_call ip c meth (mc_streams m) query body out s
      = exchange (ConfigHandler (sv_registry sv) (sv_transmitter sv) (Some auth)) (mc_streams m) query meth out s"
    "client_call ip c meth (mc_status m) query body out s
      = exchange (StatusHandler (sv_transmitter sv) (Some auth)) (mc_status m) query meth out s"
    "client_call ip c meth (mc_add_subject m) query body out s
      = exchange (AddSubjectHandler (sv_sid_parse sv) (sv_transmitter sv) (Some auth)) (mc_add_subject m) query meth out s"
    "client_call ip c meth (mc_remove_subject m) query body out s
      = exchange (RemoveSubjectHandler (sv_sid_parse sv) (sv_transmitter sv) (Some auth)) (mc_remove_subject m) query meth out s"
    "client_call ip c meth (mc_verification m) query body out s
      = exchange (VerificationHandler (sv_transmitter sv) (Some auth)) (mc_verification m) query meth out s"
    "client_call ip c meth (mc_poll m) query body out s
      = exchange (PollHandler (sv_transmitter sv) (Some auth)) (mc_poll m) query meth out s"
proof -
  have "distinct (mux_paths m)" using assms(1) by (simp add: served_by_def)
  note paths = mux_routes_path [OF this, of sv "Some auth"]
  note call = client_call_connected [OF assms(1) _ assms(2), folded served_body_def]
  show "client_call ip c meth (mc_streams m) query body out s
      = exchange (ConfigHandler (sv_registry sv) (sv_transmitter sv) (Some auth)) (mc_streams m) query meth out s"
    using call [OF _ paths(1)] by (simp add: exchange_def mux_paths_def)
  show "client_call ip c meth (mc_status m) query body out s
      = exchange (StatusHandler (sv_transmitter sv) (Some auth)) (mc_status m) query meth out s"
    using call [OF _ paths(2)] by (simp add: exchange_def mux_paths_def)
  show "client_call ip c meth (mc_add_subject m) query body out s
      = exchange (AddSubjectHandler (sv_sid_parse sv) (sv_transmitter sv) (Some auth)) (mc_add_subject m) query meth out s"
    using call [OF _ paths(3)] by (simp add: exchange_def mux_paths_def)
  show "client_call ip c meth (mc_remove_subject m) query body out s
      = exchange (RemoveSubjectHandler (sv_sid_parse sv) (sv_transmitter sv) (Some auth)) (mc_remove_subject m) query meth out s"
    using call [OF _ paths(4)] by (simp add: exchange_def mux_paths_def)
  show "client_call ip c meth (mc_verification m) query body out s
      = exchange (VerificationHandler (sv_transmitter sv) (Some auth)) (mc_verification m) query meth out s"
    using call [OF _ paths(5)] by (simp add: exchange_def mux_paths_def)
  show "client_call ip c meth (mc_poll m) query body out s
      = exchange (PollHandler (sv_transmitter sv) (Some auth)) (mc_poll m) query meth out s"
    using call [OF _ paths(6)] by (simp add: exchange_def mux_paths_def)
qed

lemma read_config:
  assumes "config_ok reg g" and "status = 200 \<or> status = 201"
  shows "read_reply what (config_target reg) (reply_of (writeJSON status (enc_config g))) = Inr (norm_config g)"
  unfolding config_target_def using carries_config [OF assms(1)] assms(2) by (rule read_document)

lemma read_status:
  assumes "raw_ok (sr_subject r)"
  shows "read_reply what status_target (reply_of (writeJSON 200 (enc_status_response r))) = Inr r"
  unfolding status_target_def using carries_status [OF assms] by (rule read_document) simp

text \<open>A method that posts a body: the server calls its method on what it read.\<close>

lemma post_connected:
  assumes "served_by c sv auth m" and "i \<noteq> []" and "body_read (enc b) dec b'" and "fits (enc b)"
    and "\<And>a. fst (call i b' s) = Inr a \<Longrightarrow> read_reply (''POST '' @ path) out (reply_of (ok a)) = Inr (g a)"
  shows "(case post_handler dec call ok (Some auth) (served ''POST'' path (by_stream i) (jprint (the (enc b)))) s of
      (resp, s') \<Rightarrow> (read_reply (''POST '' @ path) out (reply_of resp), s'))
    = (map_sum client_error g (fst (call i b' s)), snd (call i b' s))"
proof -
  have "with_body dec (served ''POST'' path (by_stream i) (jprint (the (enc b)))) s (\<lambda>req. reply ok (call i req s))
      = reply ok (call i b' s)"
    using assms(3,4) by (intro with_body_served) (simp_all add: fits_def)
  then show ?thesis
    using assms(2) runAuth_connected [OF assms(1)] read_reply_result [of "call i b' s" "''POST '' @ path" out ok g] assms(5)
    by (simp add: post_handler_def Let_def)
qed


section \<open>A call through the client is a call\<close>

lemma tagged_transport:
  assumes "\<And>a. sent_answer (f a) = f' (g a)"
  shows "tagged f' (map_sum client_error g (fst r), snd r) = transported (tagged f r)"
  using assms by (cases "fst r") (simp_all add: tagged_def transported_def)

lemma tagged_ok: "result_ok reg (fst (tagged f r)) \<Longrightarrow> fst r = Inr a \<Longrightarrow> answer_ok reg (f a)"
  by (simp add: tagged_def)

lemma remote_config_reads:
  assumes "served_by c sv auth m"
  shows "i \<noteq> [] \<Longrightarrow> (\<And>a. fst (tm_GetConfig (sv_transmitter sv) i s) = Inr a \<Longrightarrow> config_ok (sv_registry sv) a) \<Longrightarrow>
      client_GetConfig ip (sv_registry sv) c i s
      = (map_sum client_error norm_config (fst (tm_GetConfig (sv_transmitter sv) i s)), snd (tm_GetConfig (sv_transmitter sv) i s))"
    "i \<noteq> [] \<Longrightarrow> client_DeleteConfig ip c i s
      = (map_sum client_error (\<lambda>u. u) (fst (tm_DeleteConfig (sv_transmitter sv) i s)), snd (tm_DeleteConfig (sv_transmitter sv) i s))"
proof -
  note h = call_endpoint(1) [OF assms, of None] runAuth_connected [OF assms] endpoints [OF assms]
  show "client_GetConfig ip (sv_registry sv) c i s
      = (map_sum client_error norm_config (fst (tm_GetConfig (sv_transmitter sv) i s)), snd (tm_GetConfig (sv_transmitter sv) i s))"
    if "i \<noteq> []" and "\<And>a. fst (tm_GetConfig (sv_transmitter sv) i s) = Inr a \<Longrightarrow> config_ok (sv_registry sv) a"
    using that read_reply_result [of "tm_GetConfig (sv_transmitter sv) i s"
        "''GET '' @ mc_streams m" "config_target (sv_registry sv)" "\<lambda>c. writeJSON 200 (enc_config c)" norm_config]
    by (simp add: client_GetConfig_def h ConfigHandler_def handleGetConfig_def read_config)
  show "client_DeleteConfig ip c i s
      = (map_sum client_error (\<lambda>u. u) (fst (tm_DeleteConfig (sv_transmitter sv) i s)), snd (tm_DeleteConfig (sv_transmitter sv) i s))"
    if "i \<noteq> []"
    using that read_reply_result [of "tm_DeleteConfig (sv_transmitter sv) i s"
        "''DELETE '' @ mc_streams m" "((), None)" "\<lambda>_. \<lparr>rs_status = 204, rs_headers = [], rs_body = []\<rparr>" "\<lambda>u. u"]
    by (simp add: client_DeleteConfig_def h ConfigHandler_def handleDeleteConfig_def)
qed

lemma remote_list:
  assumes "served_by c sv auth m"
    and "\<And>cs n. fst (tm_ListConfig (sv_transmitter sv) tok s) = Inr (cs, n) \<Longrightarrow> list_ok (sv_registry sv) cs"
  shows "client_ListConfig ip (sv_registry sv) c tok s
    = (map_sum client_error (\<lambda>(cs, n). (map (map_option norm_config) cs, n)) (fst (tm_ListConfig (sv_transmitter sv) tok s)),
       snd (tm_ListConfig (sv_transmitter sv) tok s))"
proof -
  let ?r = "tm_ListConfig (sv_transmitter sv) tok s" and ?what = "''GET '' @ mc_streams m"
  let ?q = "if tok \<noteq> [] then Mapping.update ''page_token'' [tok] Mapping.empty else Mapping.empty"
  let ?g = "\<lambda>(cs, n). \<lparr>lc_streams = map (map_option norm_config) cs, lc_next_page_token = n\<rparr>"
  have q: "query_get (served ''GET'' p ?q b) ''stream_id'' = []" "query_get (served ''GET'' p ?q b) ''page_token'' = tok" for p b
    by (simp_all add: query_served lookup_update' lookup_empty)
  have "read_reply ?what (list_target (sv_registry sv)) (reply_of (writeJSON 200 (enc_list (fst a) (snd a)))) = Inr (?g a)"
    if "fst ?r = Inr a" for a
    using carries_list [of "sv_registry sv" "fst a" "snd a"] assms(2) [of "fst a" "snd a"] that
      read_document [of "enc_list (fst a) (snd a)" "the (snd (list_target (sv_registry sv)))" "?g a" 200 ?what
        "fst (list_target (sv_registry sv))"]
    by (simp add: list_target_def Let_def case_prod_beta)
  then have "client_call ip c ''GET'' (mc_streams m) ?q None (list_target (sv_registry sv)) s
      = (map_sum client_error ?g (fst ?r), snd ?r)"
    using q runAuth_connected [OF assms(1)]
      read_reply_result [of ?r ?what "list_target (sv_registry sv)" "\<lambda>(cs, n). writeJSON 200 (enc_list cs n)" ?g]
    by (simp add: call_endpoint(1) [OF assms(1), of None] ConfigHandler_def handleListConfig_def case_prod_beta)
  then show ?thesis
    by (cases "fst ?r") (simp_all add: client_ListConfig_def Let_def case_prod_beta endpoints [OF assms(1)])
qed

lemma remote_config_writes:
  assumes "served_by c sv auth m" and "config_ok (sv_registry sv) g" and "fits (enc_config g)"
  shows "(\<And>a. fst (tm_CreateConfig (sv_transmitter sv) (norm_config g) s) = Inr a \<Longrightarrow> config_ok (sv_registry sv) a) \<Longrightarrow>
      client_CreateConfig ip (sv_registry sv) c (Some g) s
      = (map_sum client_error norm_config (fst (tm_CreateConfig (sv_transmitter sv) (norm_config g) s)),
         snd (tm_CreateConfig (sv_transmitter sv) (norm_config g) s))"
    "sc_stream_id g \<noteq> [] \<Longrightarrow>
      (\<And>a. fst (tm_UpdateConfig (sv_transmitter sv) (norm_config g) s) = Inr a \<Longrightarrow> config_ok (sv_registry sv) a) \<Longrightarrow>
      client_UpdateConfig ip (sv_registry sv) c (Some g) s
      = (map_sum client_error norm_config (fst (tm_UpdateConfig (sv_transmitter sv) (norm_config g) s)),
         snd (tm_UpdateConfig (sv_transmitter sv) (norm_config g) s))"
proof -
  have body: "body_read (enc_config g) (unmarshal_config (sv_registry sv)) (norm_config g)"
    using carries_body_read [OF carries_config [OF assms(2)]] by (simp add: unmarshal_config_def [abs_def])
  obtain j where j: "enc_config g = Some j" using body by (auto simp: body_read_def)
  have read: "with_body (unmarshal_config (sv_registry sv)) (served meth path q (jprint j)) s f = f (norm_config g)" for meth path q f
    using with_body_served [OF body] assms(3) by (simp add: fits_def j)
  note h = call_endpoint(1) [OF assms(1), of "Some (Some j)"] runAuth_connected [OF assms(1)] endpoints [OF assms(1)]
  show "client_CreateConfig ip (sv_registry sv) c (Some g) s
      = (map_sum client_error norm_config (fst (tm_CreateConfig (sv_transmitter sv) (norm_config g) s)),
         snd (tm_CreateConfig (sv_transmitter sv) (norm_config g) s))"
    if "\<And>a. fst (tm_CreateConfig (sv_transmitter sv) (norm_config g) s) = Inr a \<Longrightarrow> config_ok (sv_registry sv) a"
    using that read_reply_result [of "tm_CreateConfig (sv_transmitter sv) (norm_config g) s"
        "''POST '' @ mc_streams m" "config_target (sv_registry sv)" "\<lambda>c. writeJSON 201 (enc_config c)" norm_config]
    by (simp add: client_CreateConfig_def h j ConfigHandler_def handleCreateConfig_def read read_config)
  have i: "(norm_config g)\<lparr>sc_stream_id := sc_stream_id g\<rparr> = norm_config g" by (simp add: norm_config_def)
  show "client_UpdateConfig ip (sv_registry sv) c (Some g) s
      = (map_sum client_error norm_config (fst (tm_UpdateConfig (sv_transmitter sv) (norm_config g) s)),
         snd (tm_UpdateConfig (sv_transmitter sv) (norm_config g) s))"
    if "sc_stream_id g \<noteq> []"
      and "\<And>a. fst (tm_UpdateConfig (sv_transmitter sv) (norm_config g) s) = Inr a \<Longrightarrow> config_ok (sv_registry sv) a"
    using that read_reply_result [of "tm_UpdateConfig (sv_transmitter sv) (norm_config g) s"
        "''PATCH '' @ mc_streams m" "config_target (sv_registry sv)" "\<lambda>c. writeJSON 200 (enc_config c)" norm_config]
    by (simp add: client_UpdateConfig_def h j i ConfigHandler_def handleUpdateConfig_def read read_config)
qed


lemma remote_get_status:
  assumes "served_by c sv auth m" and "i \<noteq> []" and "j = [] \<or> parse j \<noteq> None"
    and "\<And>a. fst (tm_GetStatus (sv_transmitter sv) i j s) = Inr a \<Longrightarrow> raw_ok (sr_subject a)"
  shows "client_GetStatus ip c i j s
    = (map_sum client_error (\<lambda>r. r) (fst (tm_GetStatus (sv_transmitter sv) i j s)), snd (tm_GetStatus (sv_transmitter sv) i j s))"
proof -
  let ?q = "if j \<noteq> [] then Mapping.update ''subject'' [j] (by_stream i) else by_stream i"
  let ?r = "tm_GetStatus (sv_transmitter sv) i j s"
  have "query_get (served ''GET'' p ?q b) ''stream_id'' = i" "query_get (served ''GET'' p ?q b) ''subject'' = j" for p b
    by (simp_all add: query_served lookup_update' lookup_empty)
  moreover have ok: "(j \<noteq> [] \<and> parse j = None) = False" using assms(3) by blast
  ultimately show ?thesis
    using assms(2,4) runAuth_connected [OF assms(1)]
      read_reply_result [of ?r "''GET '' @ mc_status m" status_target "\<lambda>r. writeJSON 200 (enc_status_response r)" "\<lambda>r. r"]
    by (simp add: client_GetStatus_def call_endpoint(2) [OF assms(1), of None] endpoints [OF assms(1)] StatusHandler_def
        handleGetStatus_def read_status ok del: query_by_stream)
qed

lemma remote_update_status:
  assumes "served_by c sv auth m" and "i \<noteq> []" and "raw_ok (su_subject r)" and "fits (enc_status_update r)"
    and "\<And>a. fst (tm_UpdateStatus (sv_transmitter sv) i r s) = Inr a \<Longrightarrow> raw_ok (sr_subject a)"
  shows "client_UpdateStatus ip c i (Some r) s
    = (map_sum client_error (\<lambda>r. r) (fst (tm_UpdateStatus (sv_transmitter sv) i r s)), snd (tm_UpdateStatus (sv_transmitter sv) i r s))"
proof -
  have body: "body_read (enc_status_update r) (\<lambda>d. of_json (unmarshal dec_status_update d)) r"
    by (rule carries_body_read [OF carries_status_update [OF assms(3)]])
  obtain j where j: "enc_status_update r = Some j" using body by (auto simp: body_read_def)
  have "with_body (\<lambda>d. of_json (unmarshal dec_status_update d)) (served ''POST'' p q (jprint j)) s f = f r" for p q f
    using with_body_served [OF body] assms(4) by (simp add: fits_def j)
  then show ?thesis
    using assms(2,5) runAuth_connected [OF assms(1)]
      read_reply_result [of "tm_UpdateStatus (sv_transmitter sv) i r s" "''POST '' @ mc_status m" status_target
        "\<lambda>r. writeJSON 200 (enc_status_response r)" "\<lambda>r. r"]
    by (simp add: client_UpdateStatus_def client_post_def j call_endpoint(2) [OF assms(1), of "Some (Some j)"]
        endpoints [OF assms(1)] StatusHandler_def handleUpdateStatus_def read_status)
qed

lemma remote_posts:
  assumes "served_by c sv auth m" and "i \<noteq> []"
  defines "t \<equiv> sv_transmitter sv"
  shows "sid_ok (sv_sid_parse sv) sm (as_subject a) \<Longrightarrow> fits (enc_add_subject sm a) \<Longrightarrow>
      client_AddSubject ip sm c i (Some a) s = (map_sum client_error (\<lambda>u. u) (fst (tm_AddSubject t i a s)), snd (tm_AddSubject t i a s))"
    "sid_ok (sv_sid_parse sv) sm (rs_subject d) \<Longrightarrow> fits (enc_remove_subject sm d) \<Longrightarrow>
      client_RemoveSubject ip sm c i (Some d) s
      = (map_sum client_error (\<lambda>u. u) (fst (tm_RemoveSubject t i d s)), snd (tm_RemoveSubject t i d s))"
    "fits (Some (enc_verification_request v)) \<Longrightarrow>
      client_Verify ip c i (Some v) s = (map_sum client_error (\<lambda>u. u) (fst (tm_Verify t i v s)), snd (tm_Verify t i v s))"
    "poll_request_ok p \<Longrightarrow> fits (Some (enc_poll_request p)) \<Longrightarrow>
      (\<And>x. fst (tm_PollEvents t i (norm_poll_request p) s) = Inr x \<Longrightarrow> poll_response_ok x) \<Longrightarrow>
      client_PollEvents ip c i (Some p) s
      = (map_sum client_error (\<lambda>u. u) (fst (tm_PollEvents t i (norm_poll_request p) s)), snd (tm_PollEvents t i (norm_poll_request p) s))"
proof -
  note post = post_connected [OF assms(1,2)] and e = endpoints [OF assms(1)]
  have doc: "body_read doc dec x \<Longrightarrow> \<exists>j. doc = Some j" for doc :: "json option" and dec :: "string \<Rightarrow> 'x result" and x
    by (auto simp: body_read_def)
  show "client_AddSubject ip sm c i (Some a) s = (map_sum client_error (\<lambda>u. u) (fst (tm_AddSubject t i a s)), snd (tm_AddSubject t i a s))"
    if "sid_ok (sv_sid_parse sv) sm (as_subject a)" and "fits (enc_add_subject sm a)"
  proof -
    have b: "body_read (enc_add_subject sm a) (unmarshal_add_subject (sv_sid_parse sv)) a"
      using that(1) by (rule body_read_add_subject)
    then obtain j where j: "enc_add_subject sm a = Some j" by (auto simp: body_read_def)
    show ?thesis
      using post [of "enc_add_subject sm", OF b that(2), of "tm_AddSubject t" s "mc_add_subject m" "((), None)" "\<lambda>_. writeEmptyJSON 200" "\<lambda>u. u"]
      by (simp add: client_AddSubject_def client_post_def j call_endpoint(3) [OF assms(1), of "Some (Some j)"] e
          AddSubjectHandler_def t_def)
  qed
  show "client_RemoveSubject ip sm c i (Some d) s
      = (map_sum client_error (\<lambda>u. u) (fst (tm_RemoveSubject t i d s)), snd (tm_RemoveSubject t i d s))"
    if "sid_ok (sv_sid_parse sv) sm (rs_subject d)" and "fits (enc_remove_subject sm d)"
  proof -
    have b: "body_read (enc_remove_subject sm d) (unmarshal_remove_subject (sv_sid_parse sv)) d"
      using that(1) by (rule body_read_remove_subject)
    then obtain j where j: "enc_remove_subject sm d = Some j" by (auto simp: body_read_def)
    show ?thesis
      using post [of "enc_remove_subject sm", OF b that(2), of "tm_RemoveSubject t" s "mc_remove_subject m" "((), None)" "\<lambda>_. writeEmptyJSON 200" "\<lambda>u. u"]
      by (simp add: client_RemoveSubject_def client_post_def j call_endpoint(4) [OF assms(1), of "Some (Some j)"] e
          RemoveSubjectHandler_def t_def)
  qed
  show "client_Verify ip c i (Some v) s = (map_sum client_error (\<lambda>u. u) (fst (tm_Verify t i v s)), snd (tm_Verify t i v s))"
    if "fits (Some (enc_verification_request v))"
    using post [of "\<lambda>r. Some (enc_verification_request r)", OF carries_body_read [OF carries_verification] that, of "tm_Verify t" s
        "mc_verification m" "((), None)" "\<lambda>_. writeEmptyJSON 200" "\<lambda>u. u"]
    by (simp add: client_Verify_def client_post_def call_endpoint(5) [OF assms(1), of "Some (Some (enc_verification_request v))"] e
        VerificationHandler_def t_def)
  have read: "read_reply what (\<lparr>pr_sets = None, pr_more_available = None\<rparr>, Some dec_poll_response)
      (reply_of (writeJSON 200 (Some (enc_poll_response x)))) = Inr x" if "poll_response_ok x" for what x
    using carries_poll_response [OF that] by (rule read_document) simp
  show "client_PollEvents ip c i (Some p) s
      = (map_sum client_error (\<lambda>u. u) (fst (tm_PollEvents t i (norm_poll_request p) s)), snd (tm_PollEvents t i (norm_poll_request p) s))"
    if "poll_request_ok p" and "fits (Some (enc_poll_request p))"
      and "\<And>x. fst (tm_PollEvents t i (norm_poll_request p) s) = Inr x \<Longrightarrow> poll_response_ok x"
    using post [of "\<lambda>r. Some (enc_poll_request r)", OF carries_body_read [OF carries_poll_request [OF that(1)]] that(2), of "tm_PollEvents t" s
        "mc_poll m" "(\<lparr>pr_sets = None, pr_more_available = None\<rparr>, Some dec_poll_response)"
        "\<lambda>r. writeJSON 200 (Some (enc_poll_response r))" "\<lambda>u. u"] that(3) read
    by (simp add: client_PollEvents_def client_post_def call_endpoint(6) [OF assms(1), of "Some (Some (enc_poll_request p))"] e
        PollHandler_def t_def)
qed


lemma remote_call_step:
  assumes "served_by c sv auth m" and "call_ok sv sm k"
    and "result_ok (sv_registry sv) (fst (direct_call (sv_transmitter sv) (sent_call k) s))"
  shows "remote_call ip (sv_registry sv) sm c k s = transported (direct_call (sv_transmitter sv) (sent_call k) s)"
proof (cases k)
  case (Get_Config i)
  with assms(2,3) have "client_GetConfig ip (sv_registry sv) c i s
      = (map_sum client_error norm_config (fst (tm_GetConfig (sv_transmitter sv) i s)), snd (tm_GetConfig (sv_transmitter sv) i s))"
    by (intro remote_config_reads(1) [OF assms(1)]) (auto dest: tagged_ok)
  then show ?thesis by (simp add: Get_Config tagged_transport)
next
  case (List_Config tok)
  have "list_ok (sv_registry sv) cs" if "fst (tm_ListConfig (sv_transmitter sv) tok s) = Inr (cs, n)" for cs n
    using tagged_ok [OF assms(3) [unfolded List_Config sent_call.simps direct_call.simps] that]
    by simp
  then show ?thesis
    using remote_list [OF assms(1), of tok s ip]
    by (simp add: List_Config, intro tagged_transport) (auto simp: comp_def)
next
  case (Create_Config g)
  with assms(2,3) have "client_CreateConfig ip (sv_registry sv) c (Some g) s
      = (map_sum client_error norm_config (fst (tm_CreateConfig (sv_transmitter sv) (norm_config g) s)),
         snd (tm_CreateConfig (sv_transmitter sv) (norm_config g) s))"
    by (intro remote_config_writes(1) [OF assms(1)]) (auto dest: tagged_ok)
  then show ?thesis by (simp add: Create_Config tagged_transport)
next
  case (Update_Config g)
  with assms(2,3) have "client_UpdateConfig ip (sv_registry sv) c (Some g) s
      = (map_sum client_error norm_config (fst (tm_UpdateConfig (sv_transmitter sv) (norm_config g) s)),
         snd (tm_UpdateConfig (sv_transmitter sv) (norm_config g) s))"
    by (intro remote_config_writes(2) [OF assms(1)]) (auto dest: tagged_ok)
  then show ?thesis by (simp add: Update_Config tagged_transport)
next
  case (Delete_Config i)
  with assms(2) show ?thesis
    using remote_config_reads(2) [OF assms(1), of i ip s] by (simp add: tagged_transport)
next
  case (Get_Status i j)
  with assms(2,3) have "client_GetStatus ip c i j s
      = (map_sum client_error (\<lambda>r. r) (fst (tm_GetStatus (sv_transmitter sv) i j s)), snd (tm_GetStatus (sv_transmitter sv) i j s))"
    by (intro remote_get_status [OF assms(1)]) (auto dest: tagged_ok)
  then show ?thesis by (simp add: Get_Status tagged_transport)
next
  case (Update_Status i r)
  with assms(2,3) have "client_UpdateStatus ip c i (Some r) s
      = (map_sum client_error (\<lambda>r. r) (fst (tm_UpdateStatus (sv_transmitter sv) i r s)), snd (tm_UpdateStatus (sv_transmitter sv) i r s))"
    by (intro remote_update_status [OF assms(1)]) (auto dest: tagged_ok)
  then show ?thesis by (simp add: Update_Status tagged_transport)
next
  case (Add_Subject i r)
  with assms(2) show ?thesis
    using remote_posts(1) [OF assms(1), of i sm r ip s] by (simp add: tagged_transport)
next
  case (Remove_Subject i r)
  with assms(2) show ?thesis
    using remote_posts(2) [OF assms(1), of i sm r ip s] by (simp add: tagged_transport)
next
  case (Verify_Stream i r)
  with assms(2) show ?thesis
    using remote_posts(3) [OF assms(1), of i r ip s] by (simp add: tagged_transport)
next
  case (Poll_Events i r)
  with assms(2,3) have "client_PollEvents ip c i (Some r) s
      = (map_sum client_error (\<lambda>r. r) (fst (tm_PollEvents (sv_transmitter sv) i (norm_poll_request r) s)),
         snd (tm_PollEvents (sv_transmitter sv) i (norm_poll_request r) s))"
    by (intro remote_posts(4) [OF assms(1)]) (auto dest: tagged_ok)
  then show ?thesis by (simp add: Poll_Events tagged_transport)
qed

section \<open>Sessions\<close>

fun session :: "('k \<Rightarrow> 's \<Rightarrow> answer result \<times> 's) \<Rightarrow> 'k list \<Rightarrow> 's \<Rightarrow> answer result list \<times> 's" where
  "session f [] s = ([], s)"
| "session f (k # ks) s =
     (case f k s of (r, s') \<Rightarrow> (case session f ks s' of (rs, s'') \<Rightarrow> (r # rs, s'')))"

definition direct_session :: "('sid, 's) service \<Rightarrow> 'sid call list \<Rightarrow> 's \<Rightarrow> answer result list \<times> 's" where
  "direct_session sv ks s = session (direct_call (sv_transmitter sv)) (map sent_call ks) s"

text \<open>
  Claim C2: A client connected to the mux of a transmitter is that transmitter. Whatever the
  transmitter, any sequence of calls through the client leaves it in the state that the same calls made
  directly leave it in, and gives the same answers in the same order: values up to empty lists that become nil,
  errors as the client reports them. Calls must name a stream where one is required, and carry values that JSON
  can carry and that fit into the 1 MiB the server reads.
\<close>

theorem client_is_transmitter:
  assumes "served_by c sv auth m" and "\<forall>k \<in> set ks. call_ok sv sm k"
    and "\<forall>r \<in> set (fst (direct_session sv ks s)). result_ok (sv_registry sv) r"
  shows "session (remote_call ip (sv_registry sv) sm c) ks s
    = (map (map_sum client_error sent_answer) (fst (direct_session sv ks s)), snd (direct_session sv ks s))"
  using assms(2,3)
proof (induction ks arbitrary: s)
  case Nil show ?case by (simp add: direct_session_def)
next
  case (Cons k ks)
  obtain r s' where d: "direct_call (sv_transmitter sv) (sent_call k) s = (r, s')"
    by (cases "direct_call (sv_transmitter sv) (sent_call k) s")
  obtain rs s'' where ds: "direct_session sv ks s' = (rs, s'')" by (cases "direct_session sv ks s'")
  have dk: "direct_session sv (k # ks) s = (r # rs, s'')"
    using d ds by (simp add: direct_session_def)
  have "remote_call ip (sv_registry sv) sm c k s = (map_sum client_error sent_answer r, s')"
    using remote_call_step [OF assms(1), of sm k s ip] Cons.prems dk d by (simp add: transported_def)
  moreover have "session (remote_call ip (sv_registry sv) sm c) ks s' = (map (map_sum client_error sent_answer) rs, s'')"
    using Cons.IH [of s'] Cons.prems dk ds by simp
  ultimately show ?case by (simp add: dk)
qed


section \<open>A connected client\<close>

lemma default_paths:
  "default_endpoints = endpoints_of defaultMuxConfig" "distinct (mux_paths defaultMuxConfig)"
  "p \<in> set (mux_paths defaultMuxConfig) \<Longrightarrow> \<exists>es. plain_ref es \<and> p = path_of es"
proof -
  show "default_endpoints = endpoints_of defaultMuxConfig" by code_simp
  show "distinct (mux_paths defaultMuxConfig)" by code_simp
  let ?ess = "[[''streams''], [''streams'', ''status''], [''streams'', ''subjects:add''], [''streams'', ''subjects:remove''],
     [''streams'', ''verify''], [''streams'', ''poll'']]"
  have m: "mux_paths defaultMuxConfig = map path_of ?ess" and r: "list_all plain_ref ?ess" by code_simp+
  show "\<exists>es. plain_ref es \<and> p = path_of es" if "p \<in> set (mux_paths defaultMuxConfig)"
    using that r unfolding m set_map list_all_iff by blast
qed

lemma NewClient_plain:
  assumes "plain_scheme scheme" and "plain_host h" and "list_all plain_seg bs"
  shows "NewClient ip default_client (plain_text scheme h bs []) [WithHTTPDoer (Some d)]
    = Inr \<lparr>hc_base = plain_url scheme h bs [], hc_doer = d, hc_authz = [], hc_paths = default_endpoints\<rparr>"
proof -
  have "plain_text scheme h bs [] \<noteq> []" by (simp add: plain_text_def)
  moreover have "u_scheme (plain_url scheme h bs []) = scheme" "u_host (plain_url scheme h bs []) = h"
    by (simp_all add: plain_url_def)
  moreover have "h \<noteq> []" "scheme = ''http'' \<or> scheme = ''https''"
    using assms by (auto simp: plain_host_def plain_scheme_def)
  ultimately show ?thesis
    using url_Parse_plain [OF assms, of "[]" ip] by (auto simp: NewClient_def WithHTTPDoer_def)
qed

text \<open>A client made for the URL of a server whose mux has the default paths is connected to it.\<close>

lemma new_client_connected:
  assumes "plain_scheme scheme" and "plain_host h" and "\<And>rq. \<exists>scope. auth rq = Inr scope"
  obtains c where "NewClient ip default_client (plain_text scheme h [] []) [WithHTTPDoer (Some (loopback (mux_routes sv (Some auth) defaultMuxConfig)))] = Inr c"
    and "served_by c sv auth defaultMuxConfig"
  using NewClient_plain [OF assms(1,2), of "[]" ip default_client] assms default_paths that
  by (auto simp: served_by_def)

definition counting_service :: "(unit, nat) service" where
  "counting_service = \<lparr>sv_registry = builtinDeliveryMethods, sv_sid_parse = (\<lambda>_. Inr ()),
     sv_transmitter = NotImplementedTransmitter\<lparr>tm_GetConfig := (\<lambda>i n. (Inr sample_config, Suc n))\<rparr>\<rparr>"

theorem client_is_transmitter_witness:
  "\<exists>c. session (remote_call Inr builtinDeliveryMethods (\<lambda>_ :: unit. None) c) [Get_Config ''s-1'', Delete_Config ''s-1''] (0 :: nat)
    = ([Inr (Config_Answer (norm_config sample_config)), Inl (client_error (Sentinel ErrNotImplemented))], 1)"
proof -
  have "plain_host ''t.example:8443''" by code_simp
  then obtain c where c: "served_by c counting_service AlwaysAllow defaultMuxConfig"
    using new_client_connected [of "''https''" "''t.example:8443''" AlwaysAllow Inr "loopback []" counting_service]
    by (auto simp: AlwaysAllow_def plain_scheme_def)
  have d: "direct_session counting_service [Get_Config ''s-1'', Delete_Config ''s-1''] 0
      = ([Inr (Config_Answer sample_config), Inl (Sentinel ErrNotImplemented)], 1)"
    by (simp add: direct_session_def counting_service_def NotImplementedTransmitter_def)
  have "session (remote_call Inr (sv_registry counting_service) (\<lambda>_ :: unit. None) c) [Get_Config ''s-1'', Delete_Config ''s-1''] 0
      = (map (map_sum client_error sent_answer) (fst (direct_session counting_service [Get_Config ''s-1'', Delete_Config ''s-1''] 0)),
         snd (direct_session counting_service [Get_Config ''s-1'', Delete_Config ''s-1''] 0))"
    by (rule client_is_transmitter [OF c])
      (unfold d, simp_all add: sample_config_ok counting_service_def)
  then show ?thesis unfolding d by (intro exI [of _ c]) (simp add: counting_service_def)
qed


section \<open>A stream without a name\<close>

text \<open>
  \<open>GetConfig\<close> of the empty stream id is the one call whose meaning changes on the way: its request is the
  request for a list, whose envelope has no member of a configuration and decodes to the zero configuration,
  without an error.
\<close>

theorem get_without_id_is_list:
  assumes "served_by c sv auth m"
    and "tm_ListConfig (sv_transmitter sv) [] s = (Inr (cs, next_token), s')" and "list_ok (sv_registry sv) cs"
  shows "client_GetConfig ip (sv_registry sv) c [] s = (Inr zero_config, s')"
proof -
  obtain j where j: "enc_list cs next_token = Some j" "wf_json j"
    using carries_list [OF assms(3), of next_token] by (auto simp: carries_def)
  then obtain js where js: "j = mk_obj ([(quote ''streams'', mk_arr js)] @ om_str ''next_page_token'' next_token)"
    by (auto simp: enc_list_def)
  have "fold_case ''streams'' = ''streams''" "fold_case ''next_page_token'' = ''next_page_token''" by code_simp+
  then have "dec_config (sv_registry sv) j = Inr zero_config"
    by (simp add: js dec_config_def dec_struct_mk_obj om_str_def h_config_def)
  with j have "carries (enc_list cs next_token) (dec_config (sv_registry sv)) zero_config" by (simp add: carries_def)
  from read_document [OF this, of 200] show ?thesis
    using assms(2) runAuth_connected [OF assms(1)]
    by (simp add: client_GetConfig_def call_endpoint(1) [OF assms(1), of None] endpoints [OF assms(1)] ConfigHandler_def
        handleListConfig_def reply_def config_target_def query_served lookup_update' lookup_empty)
qed

end
