(* ===== verification/Challenge_Over_Http.thy ===== *)
theory Challenge_Over_Http
  imports Challenger Loopback
begin

text \<open>
  The verification handshake against the library's own mux: the POST of a challenge reaches \<open>Verify\<close> of the
  transmitter, and the SET that answers it completes the challenge.
\<close>

section \<open>The POST\<close>

definition challenge_exchange ::
  "(string \<Rightarrow> string + string) \<Rightarrow> (string \<times> 's handler) list \<Rightarrow> verification_post \<Rightarrow> 's \<Rightarrow> verification_outcome \<times> 's" where
  "challenge_exchange ip routes post s =
     (case NewRequest ip ''POST'' (vp_url post) (Some (vp_body post)) of
        Inl e \<Rightarrow> (Not_Built e, s)
      | Inr req \<Rightarrow> (case serve_mux routes (server_request req) s of
          (resp, s') \<Rightarrow> (Answered (rs_status resp) (itoa (rs_status resp)), s')))"

text \<open>A challenge whose endpoint is the verification path of a mux that lets it pass.\<close>

definition challenges_at :: "auth_func \<Rightarrow> mux_config \<Rightarrow> challenge_options \<Rightarrow> string \<Rightarrow> bool" where
  "challenges_at auth mc cfg state \<longleftrightarrow>
     (\<forall>rq. \<exists>scope. auth rq = Inr scope) \<and> distinct (mux_paths mc) \<and> co_stream_id cfg \<noteq> []
     \<and> fits (Some (enc_verification_request \<lparr>vr_state = state\<rparr>))
     \<and> (\<exists>scheme h es q. plain_scheme scheme \<and> plain_host h \<and> list_all plain_seg es \<and> plain_query q
          \<and> mc_verification mc = path_of es \<and> co_endpoint cfg = plain_text scheme h es q)"

lemma challenge_posts:
  assumes "challenges_at auth mc cfg state"
  shows "\<exists>post. (\<forall>status line. postChallenge ip cfg state (Answered status line)
        = (if status < 200 \<or> 300 \<le> status then Some (Opaque (''ssf/receiver: verification endpoint returned '' @ line)) else None, [post]))
    \<and> challenge_exchange ip (mux_routes sv (Some auth) mc) post s
        = (case tm_Verify (sv_transmitter sv) (co_stream_id cfg) \<lparr>vr_state = state\<rparr> s of
             (r, s') \<Rightarrow> (let status = (case r of Inl e \<Rightarrow> problem_status e | Inr _ \<Rightarrow> 200) in (Answered status (itoa status), s')))"
proof -
  obtain scheme h es q where u: "plain_scheme scheme" "plain_host h" "list_all plain_seg es" "plain_query q"
      "mc_verification mc = path_of es" "co_endpoint cfg = plain_text scheme h es q"
    and mc: "\<forall>rq. \<exists>scope. auth rq = Inr scope" "distinct (mux_paths mc)" "co_stream_id cfg \<noteq> []"
    and body: "fits (Some (enc_verification_request \<lparr>vr_state = state\<rparr>))"
    using assms by (auto simp: challenges_at_def)
  obtain q' where q': "buildVerificationURL ip (co_endpoint cfg) (co_stream_id cfg) = Inr (plain_text scheme h es q')" "plain_query q'"
      "\<And>k. map_of (parse_query q') k = (if k = ''stream_id'' then Some (co_stream_id cfg) else map_of (parse_query q) k)"
    using buildVerificationURL_plain [OF u(1-4) mc(3), of ip] u(6) by auto
  let ?doc = "enc_verification_request \<lparr>vr_state = state\<rparr>"
  let ?post = "\<lparr>vp_url = plain_text scheme h es q', vp_authorization = co_auth_header cfg, vp_body = jprint ?doc\<rparr>"
  let ?rq = "\<lparr>rq_method = ''POST'', rq_path = mc_verification mc, rq_query = parse_query q', rq_body = jprint ?doc, rq_body_err = None\<rparr>"
  have "NewRequest ip ''POST'' (plain_text scheme h es q') (Some (jprint ?doc))
      = Inr \<lparr>cq_method = ''POST'', cq_url = plain_url scheme h es q', cq_headers = [], cq_body = Some (jprint ?doc)\<rparr>"
    using url_Parse_plain [OF u(1-3) q'(2), of ip] u(2) by (simp add: NewRequest_def) (simp add: plain_url_def)
  moreover have "server_request \<lparr>cq_method = ''POST'', cq_url = plain_url scheme h es q', cq_headers = [], cq_body = Some (jprint ?doc)\<rparr> = ?rq"
    by (simp add: server_request_def plain_url_def u(5))
  moreover have "runAuth (Some auth) ?rq = None" using mc(1) by (simp add: runAuth_def) (metis sum.case(2))
  moreover have "query_get ?rq ''stream_id'' = co_stream_id cfg" by (simp add: query_get_def q'(3))
  moreover have "with_body (\<lambda>d. of_json (unmarshal dec_verification_request d)) ?rq s f = f \<lparr>vr_state = state\<rparr>" for f
  proof -
    obtain j where j: "Some ?doc = Some j" "wf_json j" "of_json (unmarshal dec_verification_request (jprint j)) = Inr \<lparr>vr_state = state\<rparr>"
      using carries_body_read [OF carries_verification [of "\<lparr>vr_state = state\<rparr>"]] by (auto simp: body_read_def)
    then have "jprint ?doc \<noteq> []" using jprint_nonempty [of j] by auto
    with j body show ?thesis by (simp add: with_body_def decodeJSONBody_def fits_def)
  qed
  moreover have "rs_status (writeProblem e) = problem_status e" for e using writeProblem_form [of e] by (auto simp: problem_response_def)
  ultimately have "challenge_exchange ip (mux_routes sv (Some auth) mc) ?post s
        = (case tm_Verify (sv_transmitter sv) (co_stream_id cfg) \<lparr>vr_state = state\<rparr> s of
             (r, s') \<Rightarrow> (let status = (case r of Inl e \<Rightarrow> problem_status e | Inr _ \<Rightarrow> 200) in (Answered status (itoa status), s')))"
    using mux_routes_path(5) [OF mc(2), of sv "Some auth"] mc(3)
    by (simp add: challenge_exchange_def serve_mux_def VerificationHandler_def post_handler_def Let_def reply_def writeEmptyJSON_def
        split: prod.split sum.split)
  then show ?thesis by (intro exI [of _ ?post]) (simp add: postChallenge_def q'(1))
qed

section \<open>The handshake\<close>

lemma challenge_answered:
  assumes "challenges_at auth mc cfg state"
    and "tm_Verify (sv_transmitter sv) (co_stream_id cfg) \<lparr>vr_state = state\<rparr> s = (r, s')"
  shows "\<exists>post outcome. snd (postChallenge ip cfg state outcome) = [post]
    \<and> challenge_exchange ip (mux_routes sv (Some auth) mc) post s = (outcome, s')
    \<and> (fst (postChallenge ip cfg state outcome) = None \<longleftrightarrow> (\<exists>u. r = Inr u))"
proof -
  define status where "status = (case r of Inl e \<Rightarrow> problem_status e | Inr _ \<Rightarrow> 200)"
  have "(200 \<le> status \<and> status < 300) \<longleftrightarrow> (\<exists>u. r = Inr u)"
    using problem_status_cases [of "projl r"] by (cases r) (auto simp: status_def)
  then show ?thesis using challenge_posts [OF assms(1), of ip sv s] assms(2)
    by (auto simp: status_def Let_def intro!: exI [of _ "Answered status (itoa status)"])
qed

text \<open>The states of a call that starts, is answered, and gets its SET.\<close>

definition at_post :: "world \<Rightarrow> nat \<Rightarrow> challenger \<Rightarrow> challenge_options \<Rightarrow> string \<Rightarrow> nat \<Rightarrow> world" where
  "at_post w i c' cfg state waiter = w\<lparr>wo_ch := c', wo_calls := (wo_calls w)(i := Posting cfg state waiter)\<rparr>"

definition at_wait :: "world \<Rightarrow> nat \<Rightarrow> challenger \<Rightarrow> string \<Rightarrow> nat \<Rightarrow> world" where
  "at_wait w i c' state waiter = w\<lparr>wo_ch := c', wo_calls := (wo_calls w)(i := Waiting state waiter)\<rparr>"

lemma at_states [simp]:
  "wo_calls (at_post w i c' cfg state waiter) = (wo_calls w)(i := Posting cfg state waiter)" "wo_ch (at_post w i c' cfg state waiter) = c'"
  "wo_calls (at_wait w i c' state waiter) = (wo_calls w)(i := Waiting state waiter)" "wo_ch (at_wait w i c' state waiter) = c'"
  "wo_forwarded (at_post w i c' cfg state waiter) = wo_forwarded w" "wo_forwarded (at_wait w i c' state waiter) = wo_forwarded w"
  by (simp_all add: at_post_def at_wait_def)

lemma challenge_posted:
  assumes "wo_calls w i = Idle" and "challenge_start opts rand (wo_ch w) = (Inr (cfg, state, waiter), c')"
  shows "world_step w (at_post w i c' cfg state waiter)"
    "fst (postChallenge ip cfg state outcome) = None \<Longrightarrow>
       world_step (at_post w i c' cfg state waiter) (at_wait w i c' state waiter)"
  using world_step.start [OF assms] world_step.posted [of "at_post w i c' cfg state waiter" i cfg state waiter ip outcome]
  by (simp_all add: at_post_def at_wait_def)

text \<open>The arrival, and the return: the SET is kept back, and the call that waits for it returns it.\<close>

lemma set_arrives:
  assumes "wo_calls w i = Waiting state waiter" and "Mapping.lookup (ch_pending (wo_ch w)) state = Some waiter"
    and "extractVerificationState payload = Some state"
  shows "\<exists>c w1 w2. intercept payload (wo_ch w) = (True, c) \<and> world_step w w1 \<and> wo_ch w1 = c \<and> wo_forwarded w1 = wo_forwarded w
    \<and> world_step w1 w2 \<and> wo_ch w2 = c \<and> wo_calls w2 i = Returned state (Inr payload)
    \<and> wo_forwarded w2 = wo_forwarded w \<and> (\<forall>j. j \<noteq> i \<longrightarrow> wo_calls w2 j = wo_calls w j)
    \<and> Mapping.lookup (ch_pending (wo_ch w2)) state = None"
proof -
  let ?c = "(wo_ch w)\<lparr>ch_pending := Mapping.delete state (ch_pending (wo_ch w)),
      ch_buf := Mapping.update waiter payload (ch_buf (wo_ch w))\<rparr>"
  have hit: "intercept payload (wo_ch w) = (True, ?c)" by (simp add: intercept_def assms)
  let ?w1 = "w\<lparr>wo_ch := ?c, wo_forwarded := (if True then wo_forwarded w else wo_forwarded w @ [payload])\<rparr>"
  have ready: "wo_calls ?w1 i = Waiting state waiter" "wait_result Waiter_Ready waiter (wo_ch ?w1) = Some (Inr payload)"
    by (simp_all add: wait_result_def mapping_simps assms(1))
  let ?w2 = "?w1\<lparr>wo_ch := unregister_state state (wo_ch ?w1), wo_calls := (wo_calls ?w1)(i := Returned state (Inr payload))\<rparr>"
  have "world_step ?w1 ?w2" by (rule world_step.ends [OF ready])
  with world_step.arrives [OF hit] hit show ?thesis
    by (intro exI [of _ ?c] exI [of _ ?w1] exI [of _ ?w2]) (simp add: unregister_state_def mapping_simps delete_idem)
qed

text \<open>
  A challenge goes through. When a call registers a state and its endpoint is the verification path of the
  mux of a transmitter, the POST calls \<open>Verify\<close> of that transmitter once, for the configured stream and with that state.
  If \<open>Verify\<close> succeeds, the call waits, and the arrival of a SET with the state makes it return exactly that SET, which
  is not forwarded; if \<open>Verify\<close> fails, the call returns an error. Either way the state is free again and every other
  call is where it was.
\<close>

theorem challenge_handshake:
  assumes "wo_calls w i = Idle"
    and "challenge_start opts rand (wo_ch w) = (Inr (cfg, state, waiter), c')"
    and "challenges_at auth mc cfg state" and "extractVerificationState payload = Some state"
    and "tm_Verify (sv_transmitter sv) (co_stream_id cfg) \<lparr>vr_state = state\<rparr> s = (r, s')"
  shows "\<exists>post outcome w1 w2. snd (postChallenge ip cfg state outcome) = [post]
    \<and> challenge_exchange ip (mux_routes sv (Some auth) mc) post s = (outcome, s')
    \<and> world_step w w1 \<and> wo_calls w1 i = Posting cfg state waiter
    \<and> (case r of
         Inl _ \<Rightarrow> (\<exists>e. fst (postChallenge ip cfg state outcome) = Some e
           \<and> world_step w1 w2 \<and> wo_calls w2 i = Returned state (Inl e))
       | Inr _ \<Rightarrow> (\<exists>w3 w4. fst (postChallenge ip cfg state outcome) = None
           \<and> world_step w1 w3 \<and> wo_calls w3 i = Waiting state waiter
           \<and> world_step w3 w4 \<and> wo_forwarded w4 = wo_forwarded w
           \<and> world_step w4 w2 \<and> wo_calls w2 i = Returned state (Inr payload)))
    \<and> wo_forwarded w2 = wo_forwarded w \<and> (\<forall>j. j \<noteq> i \<longrightarrow> wo_calls w2 j = wo_calls w j)
    \<and> Mapping.lookup (ch_pending (wo_ch w2)) state = None"
proof -
  obtain post outcome where post: "snd (postChallenge ip cfg state outcome) = [post]"
      "challenge_exchange ip (mux_routes sv (Some auth) mc) post s = (outcome, s')"
    and ok: "fst (postChallenge ip cfg state outcome) = None \<longleftrightarrow> (\<exists>u. r = Inr u)"
    using challenge_answered [OF assms(3,5), of ip] by auto
  note started = challenge_posted [OF assms(1,2)]
  let ?w1 = "at_post w i c' cfg state waiter" and ?w3 = "at_wait w i c' state waiter"
  show ?thesis
  proof (cases r)
    case (Inl e)
    with ok obtain e' where e': "fst (postChallenge ip cfg state outcome) = Some e'" by auto
    have at1: "wo_calls ?w1 i = Posting cfg state waiter" by simp
    let ?w2 = "?w1\<lparr>wo_ch := unregister_state state (wo_ch ?w1), wo_calls := (wo_calls ?w1)(i := Returned state (Inl e'))\<rparr>"
    have "world_step ?w1 ?w2" by (rule world_step.post_fails [OF at1 e'])
    then show ?thesis using started(1) post e'
      by (intro exI [of _ post] exI [of _ outcome] exI [of _ ?w1] exI [of _ ?w2])
        (simp add: Inl unregister_state_def mapping_simps)
  next
    case (Inr u)
    with ok have none: "fst (postChallenge ip cfg state outcome) = None" by simp
    have "Mapping.lookup (ch_pending (wo_ch ?w3)) state = Some waiter"
      using challenge_start_Inr [OF assms(2)] by (simp add: mapping_simps)
    then obtain w4 w2 where "world_step ?w3 w4" "wo_forwarded w4 = wo_forwarded w" "world_step w4 w2"
        "wo_calls w2 i = Returned state (Inr payload)" "wo_forwarded w2 = wo_forwarded w"
        "\<forall>j. j \<noteq> i \<longrightarrow> wo_calls w2 j = wo_calls w j" "Mapping.lookup (ch_pending (wo_ch w2)) state = None"
      using set_arrives [of ?w3 i state waiter payload] assms(4) by auto
    with started(1) started(2) [OF none] post none show ?thesis
      by (intro exI [of _ post] exI [of _ outcome] exI [of _ ?w1] exI [of _ w2] conjI) (auto simp: Inr)
  qed
qed

definition verifying_service :: "(unit, (string \<times> string) list) service" where
  "verifying_service = \<lparr>sv_registry = builtinDeliveryMethods, sv_sid_parse = (\<lambda>_. Inr ()),
     sv_transmitter = NotImplementedTransmitter\<lparr>tm_Verify := (\<lambda>i r calls. (Inr (), calls @ [(i, vr_state r)]))\<rparr>\<rparr>"

definition handshake_opts :: "challenge_option list" where
  "handshake_opts = [WithEndpoint (plain_text ''https'' ''t.example'' [''streams'', ''verify''] []), WithStreamID ''s-1'', WithState ''x'']"

definition handshake_cfg :: challenge_options where
  "handshake_cfg = \<lparr>co_endpoint = plain_text ''https'' ''t.example'' [''streams'', ''verify''] [], co_stream_id = ''s-1'',
     co_auth_header = [], co_state = ''x'', co_timeout = 0\<rparr>"

lemma handshake_facts:
  "challenges_at AlwaysAllow defaultMuxConfig handshake_cfg ''x''"
  "challenge_start handshake_opts (Inr []) NewVerificationChallenger = (Inr (handshake_cfg, ''x'', 0),
     \<lparr>ch_pending = Mapping.update ''x'' 0 Mapping.empty, ch_next = 1, ch_buf = Mapping.empty\<rparr>)"
proof -
  have p: "plain_scheme ''https''" "plain_host ''t.example''" "list_all plain_seg [''streams'', ''verify'']"
    "mc_verification defaultMuxConfig = path_of [''streams'', ''verify'']" "plain_query []"
    by code_simp+
  have "jprint (enc_verification_request \<lparr>vr_state = ''x''\<rparr>) = ''{\"state\":\"x\"}''" by code_simp
  then have "fits (Some (enc_verification_request \<lparr>vr_state = ''x''\<rparr>))" by (simp add: fits_def maxBody_def)
  then show "challenges_at AlwaysAllow defaultMuxConfig handshake_cfg ''x''"
    unfolding challenges_at_def using p default_paths(2)
    by (intro conjI exI [of _ "''https''"] exI [of _ "''t.example''"] exI [of _ "[''streams'', ''verify'']"] exI [of _ "[]"])
      (simp_all add: AlwaysAllow_def handshake_cfg_def)
  show "challenge_start handshake_opts (Inr []) NewVerificationChallenger = (Inr (handshake_cfg, ''x'', 0),
     \<lparr>ch_pending = Mapping.update ''x'' 0 Mapping.empty, ch_next = 1, ch_buf = Mapping.empty\<rparr>)"
    by (simp add: challenge_start_def handshake_opts_def handshake_cfg_def WithEndpoint_def WithStreamID_def WithState_def
        register_state_def NewVerificationChallenger_def plain_text_def lookup_empty)
qed

theorem challenge_handshake_witness:
  "\<exists>post w2. snd (challenge_exchange Inr (mux_routes verifying_service (Some AlwaysAllow) defaultMuxConfig) post []) = [(''s-1'', ''x'')]
     \<and> world_reachable w2 \<and> wo_calls w2 0 = Returned ''x'' (Inr (verification_payload ''x''))"
proof -
  have idle: "wo_calls empty_world 0 = Idle" and start: "challenge_start handshake_opts (Inr []) (wo_ch empty_world)
      = (Inr (handshake_cfg, ''x'', 0), \<lparr>ch_pending = Mapping.update ''x'' 0 Mapping.empty, ch_next = 1, ch_buf = Mapping.empty\<rparr>)"
    using handshake_facts(2) by (simp_all add: empty_world_def)
  have verify: "tm_Verify (sv_transmitter verifying_service) (co_stream_id handshake_cfg) \<lparr>vr_state = ''x''\<rparr> [] = (Inr (), [(''s-1'', ''x'')])"
    by (simp add: verifying_service_def handshake_cfg_def)
  have "extractVerificationState (verification_payload ''x'') = Some ''x''" by (rule extract_payload) simp
  from challenge_handshake [OF idle start handshake_facts(1) this verify, of Inr]
  obtain post outcome w1 w2 w3 w4 where
      "challenge_exchange Inr (mux_routes verifying_service (Some AlwaysAllow) defaultMuxConfig) post [] = (outcome, [(''s-1'', ''x'')])"
      "world_step empty_world w1" "world_step w1 w3" "world_step w3 w4" "world_step w4 w2"
      "wo_calls w2 0 = Returned ''x'' (Inr (verification_payload ''x''))"
    by auto
  then show ?thesis by (metis snd_conv world_reachable.init world_reachable.step)
qed

end
