(* ===== verification/Discovery.thy ===== *)
theory Discovery
  imports Client_Errors Wire_Roundtrip
begin

text \<open>
  Discovery (\<open>client/discovery.go\<close>): one fetch of a transmitter's metadata document, the directives of
  \<open>Cache-Control\<close>, and the cache of documents by base URL. The clock and the doer are arguments; a fetch of
  the cache reads the clock when it looks an entry up and again when it stores one.
\<close>

section \<open>Fetching\<close>

record 's discovery_config = dc_doer :: "'s http_doer"

definition WithDiscoveryHTTPDoer :: "'s http_doer option \<Rightarrow> 's discovery_config \<Rightarrow> 's discovery_config" where
  "WithDiscoveryHTTPDoer doer c = (case doer of None \<Rightarrow> c | Some d \<Rightarrow> c\<lparr>dc_doer := d\<rparr>)"

record fetch_result =
  fr_config :: transmitter_config
  fr_max_age :: int
  fr_no_store :: bool

text \<open>One directive after the other; a later \<open>max-age\<close> replaces an earlier one.\<close>

definition cache_directive :: "string \<Rightarrow> int \<times> bool \<Rightarrow> int \<times> bool" where
  "cache_directive raw acc =
     (case acc of
        (max_age, no_store) \<Rightarrow>
          if trim_space raw = [] then (max_age, no_store)
          else (case cut CHR ''='' (trim_space raw) of
                  (n, v, has_value) \<Rightarrow>
                    (let directive = to_lower (trim_space n) in
                     if directive = ''no-store'' \<or> directive = ''no-cache'' then (max_age, True)
                     else if directive = ''max-age'' \<and> has_value
                     then (case parse_int (trim_space v) of
                             None \<Rightarrow> (max_age, no_store)
                           | Some i \<Rightarrow> if i < 0 then (max_age, no_store) else (i, no_store))
                     else (max_age, no_store))))"

definition parseCacheControl :: "string \<Rightarrow> int \<times> bool" where
  "parseCacheControl header =
     (if header = [] then (-1, False) else fold cache_directive (split_on CHR '','' header) (-1, False))"

definition fetchOnce :: "(string \<Rightarrow> string + string) \<Rightarrow> 's http_doer \<Rightarrow> string \<Rightarrow> 's \<Rightarrow> fetch_result result \<times> 's" where
  "fetchOnce ip_literal doer baseURL s =
     (case NewRequest ip_literal ''GET'' (trim_right_char CHR ''/'' baseURL @ WellKnownPath) None of
        Inl e \<Rightarrow> (Inl (Wrapf ''ssf: build discovery request: '' e []), s)
      | Inr req \<Rightarrow>
          (case doer req s of
             (Inl e, s') \<Rightarrow> (Inl (Wrapf ''ssf: fetch transmitter config: '' e []), s')
           | (Inr resp, s') \<Rightarrow>
               (case ParseHTTPError resp of
                  Some e \<Rightarrow> Inl e
                | None \<Rightarrow>
                    (case decode_reply dec_transmitter_config resp of
                       Inl e \<Rightarrow> Inl (Wrapf ''ssf: decode transmitter config: '' e [])
                     | Inr cfg \<Rightarrow>
                         (case parseCacheControl (hr_cache_control resp) of
                            (max_age, no_store) \<Rightarrow>
                              Inr \<lparr>fr_config = cfg, fr_max_age = max_age, fr_no_store = no_store\<rparr>)), s')))"

definition resolve_discovery ::
  "'s http_doer \<Rightarrow> ('s discovery_config \<Rightarrow> 's discovery_config) list \<Rightarrow> 's discovery_config" where
  "resolve_discovery default_doer opts = fold (\<lambda>opt c. opt c) opts \<lparr>dc_doer = default_doer\<rparr>"

definition FetchTransmitterConfig ::
  "(string \<Rightarrow> string + string) \<Rightarrow> 's http_doer \<Rightarrow> ('s discovery_config \<Rightarrow> 's discovery_config) list \<Rightarrow> string
     \<Rightarrow> 's \<Rightarrow> transmitter_config result \<times> 's" where
  "FetchTransmitterConfig ip_literal default_doer opts baseURL s =
     (case fetchOnce ip_literal (dc_doer (resolve_discovery default_doer opts)) baseURL s of
        (Inl e, s') \<Rightarrow> (Inl e, s')
      | (Inr r, s') \<Rightarrow> (Inr (fr_config r), s'))"

section \<open>The cache\<close>

record cache_entry =
  ce_config :: transmitter_config
  ce_expires_at :: int

record config_cache =
  cc_ttl :: int
  cc_entries :: "(string, cache_entry) mapping"

definition NewConfigCache :: "int \<Rightarrow> config_cache" where
  "NewConfigCache ttl = \<lparr>cc_ttl = ttl, cc_entries = Mapping.empty\<rparr>"

definition cache_lookup :: "config_cache \<Rightarrow> string \<Rightarrow> int \<Rightarrow> transmitter_config option" where
  "cache_lookup c baseURL now =
     (case Mapping.lookup (cc_entries c) baseURL of
        None \<Rightarrow> None
      | Some e \<Rightarrow> if now < ce_expires_at e then Some (ce_config e) else None)"

definition cache_store :: "config_cache \<Rightarrow> string \<Rightarrow> fetch_result \<Rightarrow> int \<Rightarrow> config_cache" where
  "cache_store c baseURL r now =
     (if fr_no_store r \<or> fr_max_age r = 0 then c
      else
        (let response_ttl = wrap64 (fr_max_age r * second);
             freshness = (if 0 < fr_max_age r \<and> response_ttl < cc_ttl c then response_ttl else cc_ttl c)
         in c\<lparr>cc_entries := Mapping.update baseURL \<lparr>ce_config = fr_config r, ce_expires_at = now + freshness\<rparr> (cc_entries c)\<rparr>))"

text \<open>The clock's readings are \<open>t\<close> at the lookup and \<open>t'\<close> at the store.\<close>

definition cache_Fetch ::
  "(string \<Rightarrow> string + string) \<Rightarrow> 's http_doer \<Rightarrow> ('s discovery_config \<Rightarrow> 's discovery_config) list
     \<Rightarrow> int \<Rightarrow> int \<Rightarrow> string \<Rightarrow> config_cache \<times> 's \<Rightarrow> transmitter_config result \<times> config_cache \<times> 's" where
  "cache_Fetch ip_literal default_doer opts t t' baseURL cs =
     (case cs of
        (c, s) \<Rightarrow>
          if cc_ttl c \<le> 0 then
            (case FetchTransmitterConfig ip_literal default_doer opts baseURL s of (r, s') \<Rightarrow> (r, c, s'))
          else (case cache_lookup c baseURL t of
                  Some cfg \<Rightarrow> (Inr cfg, c, s)
                | None \<Rightarrow>
                    (case fetchOnce ip_literal (dc_doer (resolve_discovery default_doer opts)) baseURL s of
                       (Inl e, s') \<Rightarrow> (Inl e, c, s')
                     | (Inr r, s') \<Rightarrow> (Inr (fr_config r), cache_store c baseURL r t', s'))))"


section \<open>The cache against its history\<close>

text \<open>
  The specification speaks of the round trips that succeeded, latest first, each with its base URL and
  the time it was stored. \<open>max_seconds\<close> is the largest age a \<open>time.Duration\<close> holds.
\<close>

type_synonym fetch_log = "(string \<times> int \<times> fetch_result) list"

abbreviation max_seconds :: int where "max_seconds \<equiv> 9223372036"

definition cacheable :: "fetch_result \<Rightarrow> bool" where
  "cacheable r \<longleftrightarrow> \<not> fr_no_store r \<and> fr_max_age r \<noteq> 0"

fun latest :: "fetch_log \<Rightarrow> string \<Rightarrow> (int \<times> fetch_result) option" where
  "latest [] b = None"
| "latest ((b', t, r) # rest) b = (if b' = b \<and> cacheable r then Some (t, r) else latest rest b)"

definition lifetime :: "int \<Rightarrow> fetch_result \<Rightarrow> int" where
  "lifetime ttl r = (if 0 < fr_max_age r then min ttl (fr_max_age r * second) else ttl)"

definition fresh_config :: "int \<Rightarrow> fetch_log \<Rightarrow> string \<Rightarrow> int \<Rightarrow> transmitter_config option" where
  "fresh_config ttl hist b t =
     (case latest hist b of
        None \<Rightarrow> None
      | Some (t0, r) \<Rightarrow> if 0 < ttl \<and> t < t0 + lifetime ttl r then Some (fr_config r) else None)"

text \<open>What a call adds to the history.\<close>

definition call_log ::
  "(string \<Rightarrow> string + string) \<Rightarrow> 's http_doer \<Rightarrow> ('s discovery_config \<Rightarrow> 's discovery_config) list
     \<Rightarrow> int \<Rightarrow> int \<Rightarrow> string \<Rightarrow> config_cache \<times> 's \<Rightarrow> fetch_log" where
  "call_log ip_literal doer opts t t' b cs =
     (if 0 < cc_ttl (fst cs) \<and> cache_lookup (fst cs) b t \<noteq> None then []
      else (case fst (fetchOnce ip_literal (dc_doer (resolve_discovery doer opts)) b (snd cs)) of
              Inl _ \<Rightarrow> [] | Inr r \<Rightarrow> [(b, t', r)]))"

inductive cache_run :: "(string \<Rightarrow> string + string) \<Rightarrow> int \<Rightarrow> fetch_log \<Rightarrow> config_cache \<times> 's \<Rightarrow> bool"
  for ip_literal ttl where
  new_cache: "cache_run ip_literal ttl [] (NewConfigCache ttl, s)"
| cache_call: "cache_run ip_literal ttl hist cs \<Longrightarrow> cache_Fetch ip_literal doer opts t t' b cs = (res, cs')
    \<Longrightarrow> cache_run ip_literal ttl (call_log ip_literal doer opts t t' b cs @ hist) cs'"

definition ages_fit :: "fetch_log \<Rightarrow> bool" where
  "ages_fit hist \<longleftrightarrow> list_all (\<lambda>(b, t, r). fr_max_age r \<le> max_seconds) hist"

lemma ages_fit_simps [simp]:
  "ages_fit []" "ages_fit ((b, t, r) # hist) \<longleftrightarrow> fr_max_age r \<le> max_seconds \<and> ages_fit hist"
  "ages_fit (xs @ ys) \<longleftrightarrow> ages_fit xs \<and> ages_fit ys"
  by (simp_all add: ages_fit_def)

text \<open>The entries are what the history says.\<close>

definition entry_of :: "int \<Rightarrow> fetch_log \<Rightarrow> string \<Rightarrow> cache_entry option" where
  "entry_of ttl hist b =
     (if 0 < ttl then map_option (\<lambda>(t0, r). \<lparr>ce_config = fr_config r, ce_expires_at = t0 + lifetime ttl r\<rparr>) (latest hist b)
      else None)"

lemma cache_store_entry:
  assumes "fr_max_age r \<le> max_seconds" and "\<And>b. Mapping.lookup (cc_entries c) b = entry_of (cc_ttl c) hist b"
    and "0 < cc_ttl c"
  shows "Mapping.lookup (cc_entries (cache_store c b' r t')) b = entry_of (cc_ttl c) ((b', t', r) # hist) b"
proof (cases "cacheable r")
  case True
  have "0 < fr_max_age r \<Longrightarrow> wrap64 (fr_max_age r * second) = fr_max_age r * second"
    using assms(1) by (intro wrap64_id) (simp add: int64_def)
  then have "(if 0 < fr_max_age r \<and> wrap64 (fr_max_age r * second) < cc_ttl c then wrap64 (fr_max_age r * second)
      else cc_ttl c) = lifetime (cc_ttl c) r"
    by (simp add: lifetime_def)
  then have "cc_entries (cache_store c b' r t') = Mapping.update b'
      \<lparr>ce_config = fr_config r, ce_expires_at = t' + lifetime (cc_ttl c) r\<rparr> (cc_entries c)"
    using True by (simp add: cache_store_def cacheable_def Let_def)
  then show ?thesis using True assms(2,3) by (simp add: entry_of_def lookup_update')
next
  case False
  then have "cache_store c b' r t' = c" by (auto simp: cache_store_def cacheable_def)
  with False assms(2) show ?thesis by (simp add: entry_of_def)
qed

lemma cache_store_ttl [simp]: "cc_ttl (cache_store c b r t) = cc_ttl c"
  by (simp add: cache_store_def Let_def)

lemma cache_Fetch_state:
  "cache_Fetch ip_literal doer opts t t' b (c, s) = (res, c', s') \<Longrightarrow>
     (case call_log ip_literal doer opts t t' b (c, s) of
        (b', t0, r) # _ \<Rightarrow> c' = (if 0 < cc_ttl c then cache_store c b r t' else c) \<and> b' = b \<and> t0 = t'
      | [] \<Rightarrow> c' = c)"
  by (auto simp: cache_Fetch_def call_log_def split: if_splits option.splits prod.splits sum.splits)

lemma call_log_short:
  "call_log ip_literal doer opts t t' b cs = [] \<or> (\<exists>r. call_log ip_literal doer opts t t' b cs = [(b, t', r)])"
  by (auto simp: call_log_def split: sum.split)

lemma cache_run_entries:
  assumes "cache_run ip_literal ttl hist cs" and "ages_fit hist"
  shows "cc_ttl (fst cs) = ttl \<and> (\<forall>b. Mapping.lookup (cc_entries (fst cs)) b = entry_of ttl hist b)"
  using assms
proof (induction rule: cache_run.induct)
  case new_cache show ?case by (simp add: NewConfigCache_def entry_of_def lookup_empty)
next
  case (cache_call hist cs doer opts t t' b res cs')
  obtain c s c' s' where cs: "cs = (c, s)" "cs' = (c', s')" by (cases cs, cases cs')
  have ih: "cc_ttl c = ttl" "\<And>b. Mapping.lookup (cc_entries c) b = entry_of ttl hist b"
    using cache_call.IH cache_call.prems by (simp_all add: cs)
  note st = cache_Fetch_state [OF cache_call.hyps(2) [unfolded cs]]
  from call_log_short [of ip_literal doer opts t t' b cs] show ?case
  proof
    assume "call_log ip_literal doer opts t t' b cs = []"
    with st ih show ?thesis by (simp add: cs)
  next
    assume "\<exists>r. call_log ip_literal doer opts t t' b cs = [(b, t', r)]"
    then obtain r where l: "call_log ip_literal doer opts t t' b cs = [(b, t', r)]" ..
    with cache_call.prems have "fr_max_age r \<le> max_seconds" by simp
    with st ih l cache_store_entry [of r c hist b t'] show ?thesis
      by (auto simp: cs entry_of_def)
  qed
qed

text \<open>
  Claim C20: The cache is transparent up to freshness. After any sequence of calls, with any doers and any
  clock readings, a call returns the configuration of the latest round trip for its base URL that may be kept,
  without sending anything, when the time since it was stored is below both the cache's TTL and the response's
  \<open>max-age\<close>; in every other case it does and returns what an uncached fetch does. Responses marked \<open>no-store\<close>,
  \<open>no-cache\<close> or \<open>max-age=0\<close> are never reused, and a TTL that is not positive disables the cache.
\<close>

theorem cache_transparent:
  assumes "cache_run ip_literal ttl hist (c, s)" and "ages_fit hist"
  shows "(case cache_Fetch ip_literal doer opts t t' b (c, s) of (res, c', s') \<Rightarrow> (res, s'))
    = (case fresh_config ttl hist b t of
         Some cfg \<Rightarrow> (Inr cfg, s)
       | None \<Rightarrow> FetchTransmitterConfig ip_literal doer opts b s)"
proof -
  have e: "cc_ttl c = ttl" "\<And>b. Mapping.lookup (cc_entries c) b = entry_of ttl hist b"
    using cache_run_entries [OF assms] by simp_all
  have "0 < ttl \<Longrightarrow> cache_lookup c b t = fresh_config ttl hist b t"
    by (auto simp: cache_lookup_def e entry_of_def fresh_config_def split: option.split)
  moreover have "\<not> 0 < ttl \<Longrightarrow> fresh_config ttl hist b t = None"
    by (simp add: fresh_config_def split: option.split)
  ultimately show ?thesis
    by (auto simp: cache_Fetch_def e FetchTransmitterConfig_def split: prod.split sum.split option.split)
qed


text \<open>A document fetched from a fixed reply.\<close>

definition sample_doer :: "unit http_doer" where
  "sample_doer rq s = (Inr \<lparr>hr_status = 200, hr_content_type = [], hr_cache_control = ''public, max-age=60'',
     hr_content_length = 2, hr_body = ''{}'', hr_body_err = None\<rparr>, s)"

lemma sample_fetch:
  "fetchOnce Inr sample_doer ''http://h'' () = (Inr \<lparr>fr_config = zero_transmitter_config, fr_max_age = 60, fr_no_store = False\<rparr>, ())"
proof -
  have "\<not> isl (NewRequest Inr ''GET'' (trim_right_char CHR ''/'' ''http://h'' @ WellKnownPath) None)"
    by code_simp
  then obtain req where "NewRequest Inr ''GET'' (trim_right_char CHR ''/'' ''http://h'' @ WellKnownPath) None = Inr req"
    by (cases "NewRequest Inr ''GET'' (trim_right_char CHR ''/'' ''http://h'' @ WellKnownPath) None") auto
  moreover have "parseCacheControl ''public, max-age=60'' = (60, False)" by code_simp
  moreover have "parse_prefix ''{}'' = Some (JObj [], [])" by code_simp
  ultimately show ?thesis
    by (simp add: fetchOnce_def sample_doer_def ParseHTTPError_def decode_reply_def dec_transmitter_config_def dec_struct_def)
qed


theorem cache_transparent_witness:
  "\<exists>hist c. cache_run Inr minute hist (c, ()) \<and> latest hist ''http://h'' \<noteq> None
    \<and> cache_Fetch Inr sample_doer [] (59 * second) 0 ''http://h'' (c, ()) = (Inr zero_transmitter_config, c, ())"
proof -
  let ?r = "\<lparr>fr_config = zero_transmitter_config, fr_max_age = 60, fr_no_store = False\<rparr>"
  have f: "fetchOnce Inr (dc_doer (resolve_discovery sample_doer [])) ''http://h'' () = (Inr ?r, ())"
    using sample_fetch by (simp add: resolve_discovery_def)
  have call: "cache_Fetch Inr sample_doer [] 0 0 ''http://h'' (NewConfigCache minute, ())
      = (Inr zero_transmitter_config, cache_store (NewConfigCache minute) ''http://h'' ?r 0, ())" (is "_ = (_, ?c, _)")
    by (simp add: cache_Fetch_def cache_lookup_def NewConfigCache_def lookup_empty f)
  have hist: "call_log Inr sample_doer [] 0 0 ''http://h'' (NewConfigCache minute, ()) = [(''http://h'', 0, ?r)]"
    by (simp add: call_log_def cache_lookup_def NewConfigCache_def lookup_empty f)
  have run: "cache_run Inr minute [(''http://h'', 0, ?r)] (?c, ())"
    using cache_run.cache_call [OF cache_run.new_cache call] by (simp add: hist)
  have "latest [(''http://h'', 0, ?r)] ''http://h'' = Some (0, ?r)"
    and "fresh_config minute [(''http://h'', 0, ?r)] ''http://h'' (59 * second) = Some zero_transmitter_config"
    by (simp_all add: fresh_config_def lifetime_def cacheable_def)
  moreover have "fst (cache_Fetch Inr sample_doer [] (59 * second) 0 ''http://h'' (?c, ())) = Inr zero_transmitter_config"
    and "snd (snd (cache_Fetch Inr sample_doer [] (59 * second) 0 ''http://h'' (?c, ()))) = ()"
    using cache_transparent [OF run, of sample_doer "[]" "59 * second" 0 "''http://h''"] calculation(2)
    by (auto split: prod.splits)
  moreover have "cache_lookup ?c ''http://h'' (59 * second) \<noteq> None"
    by (simp add: cache_store_def cache_lookup_def NewConfigCache_def Let_def lookup_update' wrap64_def)
  then have "fst (snd (cache_Fetch Inr sample_doer [] (59 * second) 0 ''http://h'' (?c, ()))) = ?c"
    by (auto simp: cache_Fetch_def split: prod.splits)
  ultimately show ?thesis using run by (intro exI conjI) (auto simp: prod_eq_iff)
qed

text \<open>
  A \<open>max-age\<close> whose nanoseconds do not fit into 64 bits can defeat the cache: when the product wraps
  to a negative number, the document is stored as expired and every call for it goes to the network.
\<close>

theorem overflowing_age_defeats_cache:
  assumes "wrap64 (fr_max_age r * second) \<le> 0" and "0 < fr_max_age r" and "0 < cc_ttl c" and "\<not> fr_no_store r" and "t' \<le> t"
  shows "cache_lookup (cache_store c b r t') b t = None"
  using assms by (simp add: cache_store_def cache_lookup_def Let_def lookup_update')

theorem overflowing_age_defeats_cache_witness:
  "\<exists>r. fr_max_age r = 10000000000 \<and> cache_lookup (cache_store (NewConfigCache hour) ''b'' r 0) ''b'' 0 = None"
  using overflowing_age_defeats_cache
    [of "\<lparr>fr_config = zero_transmitter_config, fr_max_age = 10000000000, fr_no_store = False\<rparr>" "NewConfigCache hour" 0 0 "''b''"]
  by (intro exI [of _ "\<lparr>fr_config = zero_transmitter_config, fr_max_age = 10000000000, fr_no_store = False\<rparr>"])
    (simp add: NewConfigCache_def wrap64_def)

end
