(* ===== verification/Push_Driver.thy ===== *)
theory Push_Driver
  imports Ssf_Wire
begin

text \<open>
  The push delivery driver (\<open>transmitter/pushdriver.go\<close>): one \<open>Deliver\<close> call signs a payload
  and posts it, retrying transient failures with capped, jittered backoff.

  What the call meets outside the program is an environment: for the attempt with number \<open>n\<close>,
  \<open>env n\<close> says whether the context was cancelled when the attempt began, how the POST ended, whether the
  context was cancelled when a transport error came back, the draw of \<open>rand.Float64\<close>, the clock, and
  whether the sleep after the attempt was interrupted. The result of a call is the error it returns
  (\<open>None\<close> for nil) and the trace of what it did: posts, sleeps, dead-letter callbacks.
\<close>

section \<open>Configuration\<close>

definition pushContentType :: string where "pushContentType = ''application/secevent+jwt''"

definition defaultMaxRetries :: int where "defaultMaxRetries = 5"
definition defaultInitialBackoff :: int where "defaultInitialBackoff = 1 * second"
definition defaultMaxBackoff :: int where "defaultMaxBackoff = 1 * minute"

record push_target =
  tg_endpoint_url :: string
  tg_authorization_header :: string

record push_driver =
  pdr_max_retries :: int
  pdr_initial_backoff :: int
  pdr_max_backoff :: int
  pdr_on_dead_letter :: bool

type_synonym push_option = "push_driver \<Rightarrow> push_driver"

definition WithMaxRetries :: "int \<Rightarrow> push_option" where
  "WithMaxRetries n d = d\<lparr>pdr_max_retries := (if n < 0 then 0 else n)\<rparr>"

definition WithBackoff :: "int \<Rightarrow> int \<Rightarrow> push_option" where
  "WithBackoff initial maximum d =
     (let d' = (if 0 < initial then d\<lparr>pdr_initial_backoff := initial\<rparr> else d)
      in d'\<lparr>pdr_max_backoff :=
            (if maximum < pdr_initial_backoff d' then pdr_initial_backoff d' else maximum)\<rparr>)"

definition WithOnDeadLetter :: "bool \<Rightarrow> push_option" where
  "WithOnDeadLetter installed d = d\<lparr>pdr_on_dead_letter := installed\<rparr>"

text \<open>A nil signer panics: \<open>None\<close>.\<close>

definition NewPushDriver :: "(string \<Rightarrow> string result) option \<Rightarrow> push_option list \<Rightarrow> push_driver option" where
  "NewPushDriver signer opts =
     (case signer of
        None \<Rightarrow> None
      | Some _ \<Rightarrow> Some (fold (\<lambda>opt d. opt d) opts
          \<lparr>pdr_max_retries = defaultMaxRetries, pdr_initial_backoff = defaultInitialBackoff,
           pdr_max_backoff = defaultMaxBackoff, pdr_on_dead_letter = False\<rparr>))"

section \<open>Environment\<close>

datatype post_outcome =
    Build_Error gerror
  | Transport_Error gerror
  | Response int string string

record attempt_env =
  ae_ctx_start :: "ctx_err option"
  ae_outcome :: post_outcome
  ae_ctx_after :: "ctx_err option"
  ae_jitter :: rat
  ae_now :: int
  ae_sleep_ctx :: "ctx_err option"

datatype push_event =
    EvPost string string string string
  | EvSleep int
  | EvDeadLetter push_target string gerror

section \<open>Durations\<close>

text \<open>
  \<open>time.Duration(f)\<close> of a \<open>float64\<close>: truncation towards zero; a value outside the range gives the
  smallest \<open>int64\<close>, as on amd64. The product in \<open>applyJitter\<close> is taken exactly.
\<close>

definition duration_of :: "rat \<Rightarrow> int" where
  "duration_of x = (let i = (if 0 \<le> x then \<lfloor>x\<rfloor> else \<lceil>x\<rceil>) in if int64 i then i else min_int64)"

definition applyJitter :: "rat \<Rightarrow> int \<Rightarrow> int" where
  "applyJitter r d = (if d \<le> 0 then d else duration_of (of_int d * (1 + (r * 2 - 1) * (1 / 5))))"

definition capDuration :: "int \<Rightarrow> int \<Rightarrow> int" where
  "capDuration d maximum = (if d < 0 then 0 else if maximum < d then maximum else d)"

text \<open>\<open>time.Time.Sub\<close> saturates. The parser of HTTP dates is an argument.\<close>

definition time_sub :: "int \<Rightarrow> int \<Rightarrow> int" where
  "time_sub a b = max min_int64 (min max_int64 (a - b))"

definition parseRetryAfter :: "(string \<Rightarrow> int option) \<Rightarrow> int \<Rightarrow> string \<Rightarrow> int" where
  "parseRetryAfter parse_time now v =
     (let value = trim_space v in
      if value = [] then 0
      else (case parse_int value of
              Some secs \<Rightarrow> if secs \<le> 0 then 0 else wrap64 (secs * second)
            | None \<Rightarrow>
                (case parse_time value of
                   None \<Rightarrow> 0
                 | Some when \<Rightarrow> (let delta = time_sub when now in if delta \<le> 0 then 0 else delta))))"

text \<open>\<open>contextSleep\<close>: no wait and no look at the context unless the duration is positive.\<close>

definition contextSleep :: "ctx_err option \<Rightarrow> int \<Rightarrow> ctx_err option" where
  "contextSleep interrupted d = (if d \<le> 0 then None else interrupted)"

section \<open>One attempt\<close>

definition push_attempt :: "(string \<Rightarrow> int option) \<Rightarrow> attempt_env \<Rightarrow> int \<times> gerror option" where
  "push_attempt parse_time e =
     (case ae_outcome e of
        Build_Error err \<Rightarrow> (0, Some (PermanentErr (Wrapf ''build push request: '' err [])))
      | Transport_Error err \<Rightarrow>
          (case ae_ctx_after e of
             Some c \<Rightarrow> (0, Some (CtxErr c))
           | None \<Rightarrow> (0, Some (Wrapf ''post security event token: '' err [])))
      | Response status retry_after body \<Rightarrow>
          (let err = PushHTTPErr status (take 4096 body) in
           if 200 \<le> status \<and> status < 300 then (0, None)
           else if status = 408 \<or> status = 429 \<or> 500 \<le> status
           then (parseRetryAfter parse_time (ae_now e) retry_after, Some err)
           else (0, Some (PermanentErr err))))"

definition post_events :: "push_target \<Rightarrow> string \<Rightarrow> attempt_env \<Rightarrow> push_event list" where
  "post_events tgt jws e =
     (case ae_outcome e of
        Build_Error _ \<Rightarrow> []
      | _ \<Rightarrow> [EvPost (tg_endpoint_url tgt) pushContentType (tg_authorization_header tgt) jws])"

section \<open>The retry loop\<close>

definition dead_letter :: "push_driver \<Rightarrow> push_target \<Rightarrow> string \<Rightarrow> gerror \<Rightarrow> push_event list" where
  "dead_letter d tgt payload err = (if pdr_on_dead_letter d then [EvDeadLetter tgt payload err] else [])"

definition sleep_for :: "push_driver \<Rightarrow> attempt_env \<Rightarrow> int \<Rightarrow> int \<Rightarrow> int" where
  "sleep_for d e retry_after backoff =
     capDuration (applyJitter (ae_jitter e) (if 0 < retry_after then retry_after else backoff)) (pdr_max_backoff d)"

definition next_backoff :: "push_driver \<Rightarrow> int \<Rightarrow> int" where
  "next_backoff d backoff =
     (let b = wrap64 (backoff * 2) in if pdr_max_backoff d < b then pdr_max_backoff d else b)"

text \<open>
  The loop with \<open>left\<close> retries left, at the attempt numbered \<open>n\<close>. The budget is never
  negative: \<open>WithMaxRetries\<close> clamps it.
\<close>

fun push_loop ::
  "(string \<Rightarrow> int option) \<Rightarrow> push_driver \<Rightarrow> (nat \<Rightarrow> attempt_env) \<Rightarrow> push_target \<Rightarrow> string \<Rightarrow> string
     \<Rightarrow> nat \<Rightarrow> nat \<Rightarrow> int \<Rightarrow> gerror option \<times> push_event list" where
  "push_loop pt d env tgt payload jws left n backoff =
     (case ae_ctx_start (env n) of
        Some c \<Rightarrow> (Some (CtxErr c), [])
      | None \<Rightarrow>
          (case push_attempt pt (env n) of
             (_, None) \<Rightarrow> (None, post_events tgt jws (env n))
           | (retry_after, Some err) \<Rightarrow>
               (case as_permanent err of
                  Some underlying \<Rightarrow>
                    (Some underlying, post_events tgt jws (env n) @ dead_letter d tgt payload underlying)
                | None \<Rightarrow>
                    (case left of
                       0 \<Rightarrow> (Some err, post_events tgt jws (env n) @ dead_letter d tgt payload err)
                     | Suc left' \<Rightarrow>
                         (let dur = sleep_for d (env n) retry_after backoff in
                          case contextSleep (ae_sleep_ctx (env n)) dur of
                            Some c \<Rightarrow> (Some (CtxErr c), post_events tgt jws (env n) @ [EvSleep dur])
                          | None \<Rightarrow>
                              (case push_loop pt d env tgt payload jws left' (Suc n) (next_backoff d backoff) of
                                 (r, tr) \<Rightarrow> (r, post_events tgt jws (env n) @ EvSleep dur # tr)))))))"

declare push_loop.simps [simp del]

definition Deliver ::
  "(string \<Rightarrow> int option) \<Rightarrow> (string \<Rightarrow> string result) \<Rightarrow> push_driver \<Rightarrow> (nat \<Rightarrow> attempt_env)
     \<Rightarrow> push_target \<Rightarrow> string \<Rightarrow> gerror option \<times> push_event list" where
  "Deliver pt sign d env tgt payload =
     (if tg_endpoint_url tgt = []
      then (Some (Opaque ''transmitter: PushDriver.Deliver requires a non-empty Target.EndpointURL''), [])
      else (case sign payload of
              Inl err \<Rightarrow> (Some (Wrapf ''sign security event token: '' err []), [])
            | Inr jws \<Rightarrow> push_loop pt d env tgt payload jws (nat (pdr_max_retries d)) 0 (pdr_initial_backoff d)))"

section \<open>What an attempt amounts to\<close>

datatype verdict = Cancelled ctx_err | Delivered | Permanent gerror | Transient gerror

definition verdict :: "(string \<Rightarrow> int option) \<Rightarrow> attempt_env \<Rightarrow> verdict" where
  "verdict pt e =
     (case ae_ctx_start e of
        Some c \<Rightarrow> Cancelled c
      | None \<Rightarrow>
          (case snd (push_attempt pt e) of
             None \<Rightarrow> Delivered
           | Some err \<Rightarrow> (case as_permanent err of Some u \<Rightarrow> Permanent u | None \<Rightarrow> Transient err)))"

definition posts :: "push_event list \<Rightarrow> push_event list" where
  "posts tr = filter (\<lambda>ev. case ev of EvPost _ _ _ _ \<Rightarrow> True | _ \<Rightarrow> False) tr"

definition dead_letters :: "push_event list \<Rightarrow> push_event list" where
  "dead_letters tr = filter (\<lambda>ev. case ev of EvDeadLetter _ _ _ \<Rightarrow> True | _ \<Rightarrow> False) tr"

fun sleeps :: "push_event list \<Rightarrow> int list" where
  "sleeps [] = []"
| "sleeps (EvSleep d # tr) = d # sleeps tr"
| "sleeps (_ # tr) = sleeps tr"

lemma trace_simps [simp]:
  "dead_letters (xs @ ys) = dead_letters xs @ dead_letters ys" "dead_letters (EvSleep x # tr) = dead_letters tr"
  "dead_letters (post_events tgt jws e) = []" "dead_letters (dead_letter d tgt p err) = dead_letter d tgt p err"
  "posts (xs @ ys) = posts xs @ posts ys" "posts (EvSleep x # tr) = posts tr"
  "posts (post_events tgt jws e) = post_events tgt jws e" "posts (dead_letter d tgt p err) = []"
  "sleeps (post_events tgt jws e @ tr) = sleeps tr" "sleeps (dead_letter d tgt p err) = []"
  "sleeps (post_events tgt jws e) = []" "dead_letters [] = []" "posts [] = []"
  by (auto simp: dead_letters_def posts_def post_events_def dead_letter_def split: post_outcome.split)

text \<open>One turn of the loop by the attempt's verdict.\<close>

lemma push_loop_turn:
  "push_loop pt d env tgt payload jws left n backoff =
     (case verdict pt (env n) of
        Cancelled c \<Rightarrow> (Some (CtxErr c), [])
      | Delivered \<Rightarrow> (None, post_events tgt jws (env n))
      | Permanent e \<Rightarrow> (Some e, post_events tgt jws (env n) @ dead_letter d tgt payload e)
      | Transient e \<Rightarrow>
          (case left of
             0 \<Rightarrow> (Some e, post_events tgt jws (env n) @ dead_letter d tgt payload e)
           | Suc left' \<Rightarrow>
               (let dur = sleep_for d (env n) (fst (push_attempt pt (env n))) backoff in
                case contextSleep (ae_sleep_ctx (env n)) dur of
                  Some c \<Rightarrow> (Some (CtxErr c), post_events tgt jws (env n) @ [EvSleep dur])
                | None \<Rightarrow> apsnd (\<lambda>tr. post_events tgt jws (env n) @ EvSleep dur # tr)
                    (push_loop pt d env tgt payload jws left' (Suc n) (next_backoff d backoff)))))"
  by (subst push_loop.simps)
    (auto simp: verdict_def Let_def apsnd_def map_prod_def split: option.split prod.split nat.split)

text \<open>How a call ended, at attempt \<open>k\<close>.\<close>

definition ended ::
  "(string \<Rightarrow> int option) \<Rightarrow> push_driver \<Rightarrow> push_target \<Rightarrow> string \<Rightarrow> attempt_env \<Rightarrow> bool
     \<Rightarrow> gerror option \<Rightarrow> push_event list \<Rightarrow> bool" where
  "ended pt d tgt payload e final r dl \<longleftrightarrow>
     (case verdict pt e of
        Cancelled c \<Rightarrow> r = Some (CtxErr c) \<and> dl = []
      | Delivered \<Rightarrow> r = None \<and> dl = []
      | Permanent u \<Rightarrow> r = Some u \<and> dl = dead_letter d tgt payload u
      | Transient err \<Rightarrow>
          if final then r = Some err \<and> dl = dead_letter d tgt payload err
          else (\<exists>c. ae_sleep_ctx e = Some c \<and> r = Some (CtxErr c) \<and> dl = []))"

lemma one_post: "length (post_events tgt jws e) \<le> Suc 0"
  by (simp add: post_events_def split: post_outcome.split)

text \<open>What an attempt posts: nothing when it found the context cancelled.\<close>

definition attempt_posts :: "push_target \<Rightarrow> string \<Rightarrow> attempt_env \<Rightarrow> push_event list" where
  "attempt_posts tgt jws e = (if ae_ctx_start e = None then post_events tgt jws e else [])"

lemma attempt_posts_length: "length (concat (map (\<lambda>j. attempt_posts tgt jws (env j)) js)) \<le> length js"
proof (induction js)
  case (Cons j js)
  then show ?case using one_post [of tgt jws "env j"] by (simp add: attempt_posts_def)
qed simp

lemma verdict_cancelled: "ae_ctx_start e = None \<longleftrightarrow> (\<forall>c. verdict pt e \<noteq> Cancelled c)"
  by (simp add: verdict_def split: option.split)

lemma push_loop_outcome:
  assumes "push_loop pt d env tgt payload jws left n backoff = (r, tr)"
  shows "\<exists>k \<le> left. (\<forall>j < k. \<exists>e. verdict pt (env (n + j)) = Transient e)
    \<and> ended pt d tgt payload (env (n + k)) (k = left) r (dead_letters tr)
    \<and> posts tr = concat (map (\<lambda>j. attempt_posts tgt jws (env (n + j))) [0..<Suc k])"
  using assms
proof (induction left arbitrary: n backoff r tr)
  case 0
  then show ?case using verdict_cancelled [of "env n" pt]
    by (subst (asm) push_loop_turn) (auto simp: ended_def attempt_posts_def split: verdict.splits)
next
  case (Suc left)
  let ?dur = "sleep_for d (env n) (fst (push_attempt pt (env n))) backoff"
  note one = verdict_cancelled [of "env n" pt]
  show ?case
  proof (cases "(\<exists>e. verdict pt (env n) = Transient e) \<and> contextSleep (ae_sleep_ctx (env n)) ?dur = None")
    case False
    with Suc.prems one have "ended pt d tgt payload (env (n + 0)) (0 = Suc left) r (dead_letters tr)
        \<and> posts tr = attempt_posts tgt jws (env n)"
      by (subst (asm) push_loop_turn)
        (auto simp: ended_def attempt_posts_def contextSleep_def Let_def split: verdict.splits option.splits if_splits)
    then show ?thesis by (intro exI [of _ 0]) simp
  next
    case True
    then obtain e where e: "verdict pt (env n) = Transient e" by blast
    obtain tr' where rec: "push_loop pt d env tgt payload jws left (Suc n) (next_backoff d backoff) = (r, tr')"
      and tr: "tr = post_events tgt jws (env n) @ EvSleep ?dur # tr'"
      using Suc.prems True e by (subst (asm) push_loop_turn) (auto simp: Let_def apsnd_def map_prod_def split: prod.splits)
    from Suc.IH [OF rec] obtain k where k: "k \<le> left"
      "\<forall>j < k. \<exists>e. verdict pt (env (Suc n + j)) = Transient e"
      "ended pt d tgt payload (env (Suc n + k)) (k = left) r (dead_letters tr')"
      "posts tr' = concat (map (\<lambda>j. attempt_posts tgt jws (env (Suc n + j))) [0..<Suc k])"
      by blast
    have "posts tr = attempt_posts tgt jws (env n) @ posts tr'"
      using e one by (simp add: tr attempt_posts_def)
    also have "\<dots> = concat (map (\<lambda>j. attempt_posts tgt jws (env (n + j))) (0 # map Suc [0..<Suc k]))"
      by (simp add: k(4) comp_def del: upt_Suc)
    finally have "posts tr = concat (map (\<lambda>j. attempt_posts tgt jws (env (n + j))) [0..<Suc (Suc k)])"
      by (simp add: map_Suc_upt upt_conv_Cons del: upt_Suc)
    have "\<forall>j < Suc k. \<exists>e. verdict pt (env (n + j)) = Transient e"
      using k(2) e by (auto simp: less_Suc_eq_0_disj)
    moreover note \<open>posts tr = concat (map (\<lambda>j. attempt_posts tgt jws (env (n + j))) [0..<Suc (Suc k)])\<close>
    ultimately show ?thesis using k(1,3) by (intro exI [of _ "Suc k"]) (simp add: tr del: upt_Suc)
  qed
qed

section \<open>Properties\<close>


lemma capDuration_bounds: "0 \<le> m \<Longrightarrow> 0 \<le> capDuration d m \<and> capDuration d m \<le> m"
  by (simp add: capDuration_def)

lemma push_loop_trace:
  assumes "push_loop pt d env tgt payload jws left n backoff = (r, tr)" and "0 \<le> pdr_max_backoff d"
  shows "length (sleeps tr) \<le> left \<and> (\<forall>x \<in> set (sleeps tr). 0 \<le> x \<and> x \<le> pdr_max_backoff d)
    \<and> set (posts tr) \<subseteq> {EvPost (tg_endpoint_url tgt) pushContentType (tg_authorization_header tgt) jws}"
  using assms(1)
proof (induction left arbitrary: n backoff r tr)
  case 0
  have "set (post_events tgt jws (env n))
      \<subseteq> {EvPost (tg_endpoint_url tgt) pushContentType (tg_authorization_header tgt) jws}"
    by (simp add: post_events_def split: post_outcome.split)
  with 0 show ?case by (subst (asm) push_loop_turn) (auto split: verdict.splits)
next
  case (Suc left)
  let ?dur = "sleep_for d (env n) (fst (push_attempt pt (env n))) backoff"
  have dur: "0 \<le> ?dur" "?dur \<le> pdr_max_backoff d"
    using capDuration_bounds [OF assms(2)] by (simp_all add: sleep_for_def)
  have p: "set (post_events tgt jws (env n))
      \<subseteq> {EvPost (tg_endpoint_url tgt) pushContentType (tg_authorization_header tgt) jws}"
    by (simp add: post_events_def split: post_outcome.split)
  obtain r' tr' where rec: "push_loop pt d env tgt payload jws left (Suc n) (next_backoff d backoff) = (r', tr')"
    by (cases "push_loop pt d env tgt payload jws left (Suc n) (next_backoff d backoff)")
  from Suc.prems Suc.IH [OF rec] p dur show ?case
    by (subst (asm) push_loop_turn)
      (auto simp: Let_def rec split: verdict.splits option.splits)
qed

text \<open>
  Claim C13: Every sleep is between zero and the configured maximum, whatever \<open>Retry-After\<close>, jitter or
  overflow; there are at most \<open>maxRetries\<close> sleeps; and every POST of a call carries the same token,
  signed once, to the target's endpoint with its authorization header.
\<close>

theorem deliver_bounded:
  assumes "Deliver pt sign d env tgt payload = (r, tr)" and "0 \<le> pdr_max_backoff d"
  shows "length (sleeps tr) \<le> nat (pdr_max_retries d)
    \<and> (\<forall>x \<in> set (sleeps tr). 0 \<le> x \<and> x \<le> pdr_max_backoff d)
    \<and> (posts tr = [] \<or> (\<exists>jws. sign payload = Inr jws
         \<and> set (posts tr) \<subseteq> {EvPost (tg_endpoint_url tgt) pushContentType (tg_authorization_header tgt) jws}))"
  using push_loop_trace [OF _ assms(2)] assms(1)
  by (auto simp: Deliver_def posts_def split: if_splits sum.splits)

lemma push_loop_sleeps:
  assumes "push_loop pt d env tgt payload jws left n backoff = (r, tr)" and "i < length (sleeps tr)"
  shows "sleeps tr ! i = sleep_for d (env (n + i)) (fst (push_attempt pt (env (n + i)))) ((next_backoff d ^^ i) backoff)"
  using assms
proof (induction left arbitrary: n backoff r tr i)
  case 0
  then show ?case by (subst (asm) push_loop_turn) (auto split: verdict.splits)
next
  case (Suc left)
  obtain r' tr' where rec: "push_loop pt d env tgt payload jws left (Suc n) (next_backoff d backoff) = (r', tr')"
    by (cases "push_loop pt d env tgt payload jws left (Suc n) (next_backoff d backoff)")
  show ?case
  proof (cases i)
    case 0
    with Suc.prems show ?thesis
      by (subst (asm) push_loop_turn) (auto simp: Let_def rec split: verdict.splits option.splits)
  next
    case (Suc i')
    with Suc.prems Suc.IH [OF rec, of i'] show ?thesis
      by (subst (asm) push_loop_turn)
        (auto simp: Let_def rec funpow_Suc_right simp del: funpow.simps split: verdict.splits option.splits)
  qed
qed

text \<open>The nominal backoff before retry \<open>i\<close>: doubling from the first, up to the maximum.\<close>

definition nominal :: "push_driver \<Rightarrow> nat \<Rightarrow> int" where
  "nominal d i = min (pdr_initial_backoff d * 2 ^ i) (pdr_max_backoff d)"

lemma next_nominal:
  assumes "0 < pdr_initial_backoff d" and "pdr_initial_backoff d \<le> pdr_max_backoff d"
    and "pdr_max_backoff d \<le> 2 ^ 61"
  shows "(next_backoff d ^^ i) (pdr_initial_backoff d) = nominal d i"
proof (induction i)
  case 0
  then show ?case using assms by (simp add: nominal_def)
next
  case (Suc i)
  let ?x = "pdr_initial_backoff d * 2 ^ i" and ?m = "pdr_max_backoff d"
  have pos: "0 < ?x" using assms(1) by simp
  have "0 \<le> min ?x ?m" "min ?x ?m \<le> 2 ^ 61" using assms pos by linarith+
  then have "int64 (min ?x ?m * 2)" by (simp add: int64_def)
  then have "next_backoff d (min ?x ?m) = min (min ?x ?m * 2) ?m"
    by (simp add: next_backoff_def Let_def min_def)
  also have "\<dots> = min (?x * 2) ?m" using assms pos by (auto simp: min_def)
  finally show ?case using Suc by (simp add: nominal_def mult.assoc mult.commute)
qed

lemma int64_six_fifths: "0 \<le> y \<Longrightarrow> 5 * y \<le> 6 * b \<Longrightarrow> b \<le> 2 ^ 61 \<Longrightarrow> int64 y"
  by (simp add: int64_def)

lemma jitter_bounds:
  assumes "0 < b" and "b \<le> 2 ^ 61" and "0 \<le> r" and "r < 1"
  shows "4 * b - 5 < 5 * applyJitter r b" and "5 * applyJitter r b \<le> 6 * b"
proof -
  define x where "x = of_int b * (1 + (r * 2 - 1) * (1 / 5))"
  have b: "0 < (of_int b :: rat)" using assms(1) by simp
  have "4 / 5 \<le> 1 + (r * 2 - 1) * (1 / 5)" "1 + (r * 2 - 1) * (1 / 5) \<le> 6 / 5"
    using assms(3,4) by (simp_all add: field_simps)
  then have "of_int b * (4 / 5) \<le> x" and "x \<le> of_int b * (6 / 5)"
    unfolding x_def using b by (intro mult_left_mono; simp)+
  then have lo: "4 * of_int b \<le> 5 * x" and hi: "5 * x \<le> 6 * of_int b" by simp_all
  have fl: "of_int \<lfloor>x\<rfloor> \<le> x" "x < of_int \<lfloor>x\<rfloor> + 1" by linarith+
  have "0 \<le> x" using lo b by simp
  have "5 * (of_int \<lfloor>x\<rfloor> :: rat) \<le> 6 * of_int b" using fl(1) hi by linarith
  then have "(of_int (5 * \<lfloor>x\<rfloor>) :: rat) \<le> of_int (6 * b)" by (simp only: of_int_mult of_int_numeral)
  then have u: "5 * \<lfloor>x\<rfloor> \<le> 6 * b" by (simp only: of_int_le_iff)
  have "4 * (of_int b :: rat) - 5 < 5 * of_int \<lfloor>x\<rfloor>" using fl(2) lo by linarith
  then have "(of_int (4 * b - 5) :: rat) < of_int (5 * \<lfloor>x\<rfloor>)"
    by (simp only: of_int_mult of_int_numeral of_int_diff)
  then have l: "4 * b - 5 < 5 * \<lfloor>x\<rfloor>" by (simp only: of_int_less_iff)
  have "0 \<le> \<lfloor>x\<rfloor>" using \<open>0 \<le> x\<close> by simp
  then have "int64 \<lfloor>x\<rfloor>" using u assms(2) by (rule int64_six_fifths)
  then have "applyJitter r b = \<lfloor>x\<rfloor>"
    using assms(1) \<open>0 \<le> x\<close> by (simp add: applyJitter_def duration_of_def Let_def x_def)
  with l u show "4 * b - 5 < 5 * applyJitter r b" "5 * applyJitter r b \<le> 6 * b" by simp_all
qed

text \<open>
  Without a \<open>Retry-After\<close> hint, sleep number \<open>i\<close> is the nominal backoff (the initial one
  doubled \<open>i\<close> times, at most the maximum) give or take 20\<open>%\<close>, and never more than the maximum; maxima of up to
  2^61 nanoseconds (73 years) are covered.
\<close>

theorem backoff_schedule:
  assumes "Deliver pt sign d env tgt payload = (r, tr)" and "i < length (sleeps tr)"
    and "0 < pdr_initial_backoff d" and "pdr_initial_backoff d \<le> pdr_max_backoff d"
    and "pdr_max_backoff d \<le> 2 ^ 61"
    and "fst (push_attempt pt (env i)) = 0" and "0 \<le> ae_jitter (env i)" and "ae_jitter (env i) < 1"
  shows "4 * nominal d i - 5 < 5 * (sleeps tr ! i) \<and> 5 * (sleeps tr ! i) \<le> 6 * nominal d i
    \<and> sleeps tr ! i \<le> pdr_max_backoff d"
proof -
  obtain jws where "push_loop pt d env tgt payload jws (nat (pdr_max_retries d)) 0 (pdr_initial_backoff d) = (r, tr)"
    using assms(1,2) by (auto simp: Deliver_def split: if_splits sum.splits)
  from push_loop_sleeps [OF this assms(2)] have s: "sleeps tr ! i = sleep_for d (env i) 0 (nominal d i)"
    by (simp add: assms(6) next_nominal [OF assms(3-5)])
  have n: "0 < nominal d i" "nominal d i \<le> pdr_max_backoff d" using assms(3,4) by (simp_all add: nominal_def)
  then have "nominal d i \<le> 2 ^ 61" using assms(5) by simp
  from jitter_bounds [OF n(1) this assms(7,8)] n show ?thesis
    by (auto simp: s sleep_for_def capDuration_def)
qed

text \<open>
  A cancellation that hits the last permitted POST is dead-lettered: when the transport
  fails at the final attempt and the context is done by then, the callback is invoked with the context's error,
  although its documentation says that it is not invoked on cancellation.
\<close>

theorem cancelled_last_post_dead_letters:
  assumes "tg_endpoint_url tgt \<noteq> []" and "sign payload = Inr jws" and "pdr_on_dead_letter d"
    and "pdr_max_retries d = 0"
    and "ae_ctx_start (env 0) = None" and "ae_outcome (env 0) = Transport_Error err"
    and "ae_ctx_after (env 0) = Some c"
  shows "Deliver pt sign d env tgt payload
    = (Some (CtxErr c), [EvPost (tg_endpoint_url tgt) pushContentType (tg_authorization_header tgt) jws,
        EvDeadLetter tgt payload (CtxErr c)])"
  using assms
  by (simp add: Deliver_def push_loop.simps push_attempt_def post_events_def dead_letter_def)

text \<open>
  A \<open>Retry-After\<close> of 18446744074 seconds (585 years) is taken as 290448384 nanoseconds: the
  product with the number of nanoseconds per second wraps around.
\<close>

theorem retry_after_wraps:
  "parse_int (trim_space v) = Some 18446744074 \<Longrightarrow> parseRetryAfter pt now v = 290448384"
  by (auto simp: parseRetryAfter_def Let_def wrap64_def parse_int_def)

section \<open>Examples\<close>

definition sample_target :: push_target where
  "sample_target = \<lparr>tg_endpoint_url = ''https://r.example/e'', tg_authorization_header = ''Bearer x''\<rparr>"

definition sample_driver :: "int \<Rightarrow> push_driver" where
  "sample_driver n = \<lparr>pdr_max_retries = n, pdr_initial_backoff = defaultInitialBackoff,
     pdr_max_backoff = defaultMaxBackoff, pdr_on_dead_letter = True\<rparr>"

text \<open>One 503, then a 202.\<close>

definition sample_env :: "nat \<Rightarrow> attempt_env" where
  "sample_env n = \<lparr>ae_ctx_start = None, ae_outcome = Response (if n = 0 then 503 else 202) [] [], ae_ctx_after = None,
     ae_jitter = 1 / 2, ae_now = 0, ae_sleep_ctx = None\<rparr>"

lemma sample_jitter: "int64 d \<Longrightarrow> applyJitter (1 / 2) d = d"
  by (auto simp: applyJitter_def duration_of_def Let_def)

lemma sample_deliver:
  "Deliver Map.empty Inr (sample_driver 5) sample_env sample_target ''p''
     = (None, [EvPost ''https://r.example/e'' pushContentType ''Bearer x'' ''p'', EvSleep second,
         EvPost ''https://r.example/e'' pushContentType ''Bearer x'' ''p''])"
proof -
  have "push_loop Map.empty (sample_driver 5) sample_env sample_target ''p'' ''p'' 5 0 second
      = (None, [EvPost ''https://r.example/e'' pushContentType ''Bearer x'' ''p'', EvSleep second,
         EvPost ''https://r.example/e'' pushContentType ''Bearer x'' ''p''])"
    by (subst push_loop.simps, subst push_loop.simps)
      (simp add: sample_env_def push_attempt_def parseRetryAfter_def trim_space_def as_permanent_def
        numeral_eq_Suc sleep_for_def sample_driver_def capDuration_def sample_jitter int64_def
        defaultMaxBackoff_def contextSleep_def post_events_def sample_target_def)
  then show ?thesis by (simp add: Deliver_def sample_target_def sample_driver_def defaultInitialBackoff_def)
qed


theorem deliver_bounded_witness:
  "list_all (\<lambda>x. 0 \<le> x \<and> x \<le> minute)
     (sleeps (snd (Deliver Map.empty Inr (sample_driver 5) sample_env sample_target ''p'')))"
  using deliver_bounded [OF sample_deliver] sample_deliver
  by (simp add: sample_driver_def defaultMaxBackoff_def)

theorem backoff_schedule_witness:
  "4 * nominal (sample_driver 5) 0 - 5 < 5 * second \<and> 5 * second \<le> 6 * nominal (sample_driver 5) 0"
proof -
  have "fst (push_attempt Map.empty (sample_env 0)) = 0"
    by (simp add: push_attempt_def sample_env_def parseRetryAfter_def trim_space_def)
  then show ?thesis
    using backoff_schedule [OF sample_deliver, of 0]
    by (simp add: sample_driver_def defaultInitialBackoff_def defaultMaxBackoff_def sample_env_def)
qed

definition cancel_env :: "nat \<Rightarrow> attempt_env" where
  "cancel_env n = \<lparr>ae_ctx_start = None, ae_outcome = Transport_Error (CtxErr Canceled), ae_ctx_after = Some Canceled,
     ae_jitter = 1 / 2, ae_now = 0, ae_sleep_ctx = Some Canceled\<rparr>"

theorem cancelled_last_post_dead_letters_witness:
  "EvDeadLetter sample_target ''p'' (CtxErr Canceled)
     \<in> set (snd (Deliver Map.empty Inr (sample_driver 0) cancel_env sample_target ''p''))"
proof -
  have "Deliver Map.empty Inr (sample_driver 0) cancel_env sample_target ''p''
      = (Some (CtxErr Canceled), [EvPost (tg_endpoint_url sample_target) pushContentType
          (tg_authorization_header sample_target) ''p'', EvDeadLetter sample_target ''p'' (CtxErr Canceled)])"
    by (rule cancelled_last_post_dead_letters [where err = "CtxErr Canceled"])
      (simp_all add: sample_target_def sample_driver_def cancel_env_def)
  then show ?thesis by simp
qed

theorem retry_after_wraps_witness: "parseRetryAfter Map.empty 0 ''18446744074'' = 290448384"
  by (rule retry_after_wraps)
    (simp add: trim_space_def is_space_def parse_int_def is_digit_iff read_digits_def digit_val_def in_range64_def int64_def)

end
