(* ===== verification/End_To_End.thy ===== *)
theory End_To_End
  imports Loopback Discovery Push_Driver Push_Handler
begin

text \<open>
  The two ends of the other exchanges put together: a signed payload from the push driver to a sink behind the
  push handler, and the metadata document from the well-known handler to discovery.
\<close>

section \<open>Push delivery\<close>

text \<open>
  The request a delivery makes, built as the driver builds it, and what each attempt meets when the handler serves it.
  An endpoint URL that does not parse meets nobody.
\<close>

abbreviation push_built :: "(string \<Rightarrow> string + string) \<Rightarrow> push_target \<Rightarrow> string \<Rightarrow> client_request result" where
  "push_built ip tgt jws \<equiv> NewRequest ip ''POST'' (tg_endpoint_url tgt) (Some jws)"

definition push_delivery :: "client_request \<Rightarrow> push_request" where
  "push_delivery req =
     (let rq = server_request req in
      \<lparr>rq_method = rq_method rq, rq_path = rq_path rq, rq_query = rq_query rq, rq_body = rq_body rq,
       rq_body_err = None, rq_content_type = pushContentType\<rparr>)"

fun receiver_states ::
  "(push_request \<Rightarrow> 's \<Rightarrow> http_response \<times> 's) \<Rightarrow> client_request result \<Rightarrow> 's \<Rightarrow> nat \<Rightarrow> 's" where
  "receiver_states h built s 0 = s"
| "receiver_states h built s (Suc n) =
     (case built of
        Inl _ \<Rightarrow> receiver_states h built s n
      | Inr req \<Rightarrow> snd (h (push_delivery req) (receiver_states h built s n)))"

definition receiver_env ::
  "(push_request \<Rightarrow> 's \<Rightarrow> http_response \<times> 's) \<Rightarrow> client_request result \<Rightarrow> 's \<Rightarrow> (nat \<Rightarrow> rat) \<Rightarrow> (nat \<Rightarrow> int) \<Rightarrow> nat \<Rightarrow> attempt_env" where
  "receiver_env h built s draws clock n =
     \<lparr>ae_ctx_start = None,
      ae_outcome =
        (case built of
           Inl e \<Rightarrow> Build_Error e
         | Inr req \<Rightarrow>
             (let resp = fst (h (push_delivery req) (receiver_states h built s n)) in
              Response (rs_status resp)
                (case map_of (rs_headers resp) ''Retry-After'' of None \<Rightarrow> [] | Some v \<Rightarrow> v) (rs_body resp))),
      ae_ctx_after = None, ae_jitter = draws n, ae_now = clock n, ae_sleep_ctx = None\<rparr>"

text \<open>The specification: the sink alone, called again as long as it fails for a reason that may pass.\<close>

fun sink_states :: "'s sink \<Rightarrow> string \<Rightarrow> 's \<Rightarrow> nat \<Rightarrow> 's" where
  "sink_states sink p s 0 = s"
| "sink_states sink p s (Suc n) = snd (sink p (sink_states sink p s n))"

definition sink_result :: "'s sink \<Rightarrow> string \<Rightarrow> 's \<Rightarrow> nat \<Rightarrow> gerror option" where
  "sink_result sink p s n = fst (sink p (sink_states sink p s n))"

definition may_pass :: "gerror option \<Rightarrow> bool" where
  "may_pass r \<longleftrightarrow> (case r of None \<Rightarrow> False | Some e \<Rightarrow> \<not> errors_is e ErrPermanent)"

lemma media_type_accepted: "hasPushMediaType pushContentType"
  by code_simp

text \<open>A request with a token the endpoint accepts, and its payload.\<close>

definition deliverable :: "(string \<Rightarrow> string result) \<Rightarrow> client_request \<Rightarrow> string \<Rightarrow> bool" where
  "deliverable verify req p \<longleftrightarrow> cq_method req = ''POST'' \<and> (\<exists>token. cq_body req = Some token \<and> verify token = Inr p
     \<and> trim_space token = token \<and> token \<noteq> [] \<and> int (length token) \<le> defaultMaxPushBytes)"

lemma deliverable_built:
  assumes "push_built ip tgt token = Inr req" and "verify token = Inr p"
    and "trim_space token = token" and "token \<noteq> []" and "int (length token) \<le> defaultMaxPushBytes"
  shows "deliverable verify req p"
  using assms by (auto simp: deliverable_def NewRequest_def split: sum.splits)

lemma push_handle_verified:
  assumes "deliverable verify req p"
  shows "rs_status (fst (push_handle verify sink defaultMaxPushBytes (push_delivery req) s)) = sink_status (fst (sink p s))"
    "snd (push_handle verify sink defaultMaxPushBytes (push_delivery req) s) = snd (sink p s)"
proof -
  obtain token where t: "cq_method req = ''POST''" "cq_body req = Some token" "verify token = Inr p" "trim_space token = token"
      "token \<noteq> []" "int (length token) \<le> defaultMaxPushBytes"
    using assms by (auto simp: deliverable_def)
  then have "push_token defaultMaxPushBytes (push_delivery req) = Some token"
    using media_type_accepted
    by (simp add: push_token_def push_delivery_def Let_def server_request_def readPushBody_def)
  with t(3) push_handle_cases [of verify sink defaultMaxPushBytes "push_delivery req" s]
  show "rs_status (fst (push_handle verify sink defaultMaxPushBytes (push_delivery req) s)) = sink_status (fst (sink p s))"
    "snd (push_handle verify sink defaultMaxPushBytes (push_delivery req) s) = snd (sink p s)"
    by (auto simp: prod_eq_iff)
qed

lemma verdict_of_status:
  assumes "ae_ctx_start e = None" and "ae_outcome e = Response (sink_status r) ra body"
  shows "(case r of
      None \<Rightarrow> verdict pt e = Delivered
    | Some err \<Rightarrow> if errors_is err ErrPermanent then verdict pt e = Permanent (PushHTTPErr 400 (take 4096 body))
        else verdict pt e = Transient (PushHTTPErr 503 (take 4096 body)))"
  using assms by (simp add: verdict_def push_attempt_def sink_status_def split: option.split)


lemma receiver_is_sink:
  assumes "deliverable verify req p"
  shows "receiver_states (push_handle verify sink defaultMaxPushBytes) (Inr req) s n = sink_states sink p s n"
  by (induction n) (simp_all add: push_handle_verified [OF assms])

lemma receiver_verdict:
  fixes s and draws and clock and sink
  assumes "deliverable verify req p"
  defines "env \<equiv> receiver_env (push_handle verify sink defaultMaxPushBytes) (Inr req) s draws clock"
  shows "ae_ctx_start (env n) = None" "ae_sleep_ctx (env n) = None" "length (attempt_posts tgt jws (env n)) = 1"
    "verdict pt (env n) = Delivered \<longleftrightarrow> sink_result sink p s n = None"
    "(\<exists>e. verdict pt (env n) = Transient e) \<longleftrightarrow> may_pass (sink_result sink p s n)"
proof -
  obtain ra body where o: "ae_outcome (env n) = Response (sink_status (sink_result sink p s n)) ra body"
    using push_handle_verified(1) [OF assms(1), of sink "sink_states sink p s n"]
    by (simp add: env_def receiver_env_def Let_def receiver_is_sink [OF assms(1)] sink_result_def)
  show c: "ae_ctx_start (env n) = None" "ae_sleep_ctx (env n) = None" "length (attempt_posts tgt jws (env n)) = 1"
    by (simp_all add: env_def receiver_env_def Let_def attempt_posts_def post_events_def)
  show "verdict pt (env n) = Delivered \<longleftrightarrow> sink_result sink p s n = None"
    "(\<exists>e. verdict pt (env n) = Transient e) \<longleftrightarrow> may_pass (sink_result sink p s n)"
    using verdict_of_status [OF c(1) o, of pt] by (auto simp: may_pass_def split: option.splits if_splits)
qed

text \<open>Without a request there is no POST: the failure is permanent.\<close>

lemma unbuilt_delivery:
  assumes "push_built ip tgt token = Inl e" and "sign payload = Inr token" and "tg_endpoint_url tgt \<noteq> []"
  shows "Deliver pt sign d (receiver_env h (push_built ip tgt token) s draws clock) tgt payload
    = (Some (Wrapf ''build push request: '' e []), dead_letter d tgt payload (Wrapf ''build push request: '' e []))"
  using assms by (simp add: Deliver_def push_loop.simps push_attempt_def receiver_env_def post_events_def)

text \<open>
  Claim C7: A delivery is the sink called until it settles. When the driver posts a payload to
  the push handler of a receiver that trusts the signer's key, its target's URL parses, and nothing cancels it, the sink is called
  once per attempt, with the payload that was signed; attempts go on exactly while the sink's errors are not
  permanent and retries are left; the driver reports success exactly when the sink took the payload at the last
  call, and otherwise an error, with one dead letter if there is a callback for it.
\<close>

theorem push_end_to_end:
  assumes "signs_for J sg hdr keys" and "NewJOSESetSigner show J (Some sg) = Inr sg'" and "Sign J sg' payload = Inr token"
    and "trim_space token = token" and "token \<noteq> []" and "int (length token) \<le> defaultMaxPushBytes"
    and "tg_endpoint_url tgt \<noteq> []" and "push_built ip tgt token = Inr req"
    and "Deliver pt (Sign J sg') d (receiver_env (PushHandler (Verify show' J keys) sink []) (push_built ip tgt token) s draws clock) tgt payload = (r, tr)"
  shows "\<exists>k \<le> nat (pdr_max_retries d).
    (\<forall>j < k. may_pass (sink_result sink payload s j))
    \<and> (k = nat (pdr_max_retries d) \<or> \<not> may_pass (sink_result sink payload s k))
    \<and> length (posts tr) = Suc k
    \<and> receiver_states (PushHandler (Verify show' J keys) sink []) (push_built ip tgt token) s (Suc k) = sink_states sink payload s (Suc k)
    \<and> (r = None \<longleftrightarrow> sink_result sink payload s k = None)
    \<and> dead_letters tr = (case r of None \<Rightarrow> [] | Some err \<Rightarrow> dead_letter d tgt payload err)"
proof -
  let ?h = "push_handle (Verify show' J keys) sink defaultMaxPushBytes" and ?max = "nat (pdr_max_retries d)"
  have h: "PushHandler (Verify show' J keys) sink [] = ?h" by (simp add: PushHandler_def)
  have ok: "deliverable (Verify show' J keys) req payload"
    using signed_verifies [OF assms(1-3), of show'] by (intro deliverable_built [OF assms(8) _ assms(4-6)])
  define env where "env = receiver_env ?h (Inr req) s draws clock"
  note v = receiver_verdict [OF ok, where sink = sink and s = s and draws = draws and clock = clock, folded env_def]
  have "push_loop pt d env tgt payload token ?max 0 (pdr_initial_backoff d) = (r, tr)"
    using assms(3,7-9) by (simp add: Deliver_def h env_def)
  from push_loop_outcome [OF this] obtain k where k: "k \<le> ?max" "\<forall>j < k. \<exists>e. verdict pt (env j) = Transient e"
    "ended pt d tgt payload (env k) (k = ?max) r (dead_letters tr)"
    "posts tr = concat (map (\<lambda>j. attempt_posts tgt token (env j)) [0..<Suc k])" by auto
  have "length (posts tr) = Suc k"
    unfolding k(4) length_concat map_map comp_def v(3) by (simp add: sum_list_triv del: upt_Suc)
  moreover have "verdict pt (env k) \<noteq> Cancelled c" for c using v(1) [of k] verdict_cancelled [of "env k" pt] by simp
  then have "(k = ?max \<or> \<not> may_pass (sink_result sink payload s k)) \<and> (r = None \<longleftrightarrow> sink_result sink payload s k = None)
      \<and> dead_letters tr = (case r of None \<Rightarrow> [] | Some err \<Rightarrow> dead_letter d tgt payload err)"
    using k(3) v(2) [of k] v(4) [where n = k and pt = pt] v(5) [where n = k and pt = pt] by (auto simp: ended_def split: verdict.splits if_splits)
  moreover have "\<forall>j < k. may_pass (sink_result sink payload s j)"
    using k(2) by (simp add: v(5))
  ultimately show ?thesis
    using k(1) receiver_is_sink [OF ok, of sink s "Suc k"] unfolding h assms(8) by (intro exI [of _ k]) simp
qed


text \<open>A sink that is busy at first.\<close>

definition busy_sink :: "nat sink" where
  "busy_sink p n = (if n < 2 then Some (Opaque ''busy'') else None, Suc n)"

lemma sample_target_built: "\<exists>req. push_built Inr sample_target jws = Inr req"
proof -
  have "\<not> isl (url_Parse Inr (tg_endpoint_url sample_target))" by code_simp
  then show ?thesis by (auto simp: NewRequest_def isl_def split: sum.split)
qed

theorem push_end_to_end_witness:
  "\<exists>r tr. Deliver Map.empty (Sign toy_jose ''k'') (sample_driver 5)
      (receiver_env (PushHandler (Verify (\<lambda>_. []) toy_jose [''a'', ''k'']) busy_sink []) (push_built Inr sample_target ''.k.payload'') 0 (\<lambda>_. 0) (\<lambda>_. 0))
      sample_target ''payload'' = (r, tr) \<and> r = None \<and> length (posts tr) = 3"
proof -
  let ?env = "receiver_env (PushHandler (Verify (\<lambda>_. []) toy_jose [''a'', ''k'']) busy_sink []) (push_built Inr sample_target ''.k.payload'') 0 (\<lambda>_. 0) (\<lambda>_. 0)"
  obtain r tr where run: "Deliver Map.empty (Sign toy_jose ''k'') (sample_driver 5) ?env sample_target ''payload'' = (r, tr)"
    by (cases "Deliver Map.empty (Sign toy_jose ''k'') (sample_driver 5) ?env sample_target ''payload''")
  have new: "NewJOSESetSigner (\<lambda>_. []) toy_jose (Some ''k'') = Inr ''k''" and sign: "Sign toy_jose ''k'' ''payload'' = Inr ''.k.payload''"
    by (simp_all add: NewJOSESetSigner_def Sign_def toy_jose_def toy_header_def cut_def allowedSETAlgorithms_def
        algNone_def lookup_update)
  have states: "sink_states busy_sink ''payload'' 0 n = n" for n by (induction n) (simp_all add: busy_sink_def)
  have pre: "trim_space ''.k.payload'' = ''.k.payload''" "''.k.payload'' \<noteq> []" "int (length ''.k.payload'') \<le> defaultMaxPushBytes"
      "tg_endpoint_url sample_target \<noteq> []"
    by (simp_all add: trim_space_def is_space_def defaultMaxPushBytes_def sample_target_def)
  obtain req where req: "push_built Inr sample_target ''.k.payload'' = Inr req" using sample_target_built by blast
  let ?out = "sink_result busy_sink ''payload'' 0" and ?max = "nat (pdr_max_retries (sample_driver 5))"
  have "\<exists>k. (\<forall>j < k. may_pass (?out j)) \<and> (k = ?max \<or> \<not> may_pass (?out k)) \<and> length (posts tr) = Suc k
      \<and> (r = None \<longleftrightarrow> ?out k = None)"
    using push_end_to_end [OF toy_signs new sign pre req run] by (elim exE conjE) (intro exI conjI)
  then obtain k where "(\<forall>j < k. may_pass (?out j)) \<and> (k = ?max \<or> \<not> may_pass (?out k)) \<and> length (posts tr) = Suc k
      \<and> (r = None \<longleftrightarrow> ?out k = None)" ..
  note k = this [THEN conjunct1] this [THEN conjunct2, THEN conjunct1] this [THEN conjunct2, THEN conjunct2]
  have res: "sink_result busy_sink ''payload'' 0 n = (if n < 2 then Some (Opaque ''busy'') else None)" for n
    by (simp add: sink_result_def states busy_sink_def)
  have "\<not> 2 < k" using k(1) by (auto simp: res may_pass_def)
  moreover have "\<not> k < 2" using k(2) by (auto simp: res may_pass_def sample_driver_def)
  ultimately have "k = 2" by simp
  with k(3) have "r = None" "length (posts tr) = 3" by (simp_all add: res)
  with run show ?thesis by (intro exI conjI)
qed

section \<open>Discovery\<close>

text \<open>A doer that serves the well-known handler.\<close>

definition well_known_doer :: "(http_request \<Rightarrow> http_response) \<Rightarrow> 's http_doer" where
  "well_known_doer h req s = (Inr (reply_of (h (server_request req))), s)"

lemma max_age_parsed:
  assumes "0 \<le> n" and "int64 n"
  shows "parseCacheControl (''max-age='' @ itoa n) = (n, False)"
proof -
  have digits: "list_all is_digit (itoa n)" "itoa n \<noteq> []"
    using assms show_nat_digits [of "nat n"] by (simp_all add: itoa_def)
  have nosp: "\<not> is_space c \<and> c \<noteq> CHR '',''" if "c \<in> set (itoa n)" for c
  proof -
    have "\<forall>c. is_digit c \<longrightarrow> \<not> is_space c \<and> c \<noteq> CHR '',''" by code_simp
    with digits(1) that show ?thesis by (auto simp: list_all_iff)
  qed
  have trim: "trim_space s = s" if "\<And>c. c \<in> set s \<Longrightarrow> \<not> is_space c" for s
  proof -
    have "dropWhile is_space s = s" "dropWhile is_space (rev s) = rev s"
      using that hd_in_set [of s] hd_in_set [of "rev s"] by (auto simp: dropWhile_eq_self_iff)
    then show ?thesis by (simp add: trim_space_def)
  qed
  have name: "list_all (\<lambda>c. \<not> is_space c \<and> c \<noteq> CHR '','') ''max-age=''" by code_simp
  have "trim_space (''max-age='' @ itoa n) = ''max-age='' @ itoa n" "CHR '','' \<notin> set (''max-age='' @ itoa n)"
    using nosp name by (auto simp: list_all_iff intro!: trim)
  moreover have "trim_space (itoa n) = itoa n" using nosp by (intro trim) simp
  moreover have "to_lower (trim_space ''max-age'') = ''max-age''" by code_simp
  moreover have "cut CHR ''='' (''max-age='' @ itoa n) = (''max-age'', itoa n, True)"
    using cut_append [of "CHR ''=''" "''max-age''" "itoa n"] by simp
  ultimately show ?thesis using assms
    by (simp add: parseCacheControl_def split_on_free cache_directive_def Let_def parse_int_itoa del: append_Cons)
qed



definition sample_metadata :: transmitter_config where
  "sample_metadata = zero_transmitter_config\<lparr>tc_issuer := ''https://t.example'', tc_spec_version := SpecVersion\<rparr>"


end
