(* ===== verification/Verification_Push.thy ===== *)
theory Verification_Push
  imports Challenge_Over_Http End_To_End
begin

text \<open>
  The verification handshake of a push stream, all of it: a receiver challenges the transmitter over its mux, the
  transmitter answers with a SET that its push driver posts to the receiver's push handler, and the wrapped sink there
  hands the SET to the challenge. This is where the challenger, the mux, the signer, the driver, the push handler and the
  verifier meet.
\<close>

section \<open>A delivery that is taken at once\<close>

lemma delivered_at_once:
  assumes "deliverable verify req p" and "fst (sink p s) = None" and "sign p = Inr token" and "tg_endpoint_url tgt \<noteq> []"
  shows "Deliver pt sign d (receiver_env (push_handle verify sink defaultMaxPushBytes) (Inr req) s draws clock) tgt p
    = (None, [EvPost (tg_endpoint_url tgt) pushContentType (tg_authorization_header tgt) token])"
proof -
  let ?env = "receiver_env (push_handle verify sink defaultMaxPushBytes) (Inr req) s draws clock"
  have "verdict pt (?env 0) = Delivered"
    using receiver_verdict(4) [OF assms(1), where n = 0 and sink = sink and s = s] assms(2) by (simp add: sink_result_def)
  moreover have "post_events tgt token (?env 0) = [EvPost (tg_endpoint_url tgt) pushContentType (tg_authorization_header tgt) token]"
    by (simp add: post_events_def receiver_env_def Let_def)
  ultimately show ?thesis
    using assms(3,4) by (simp add: Deliver_def push_loop_turn)
qed

text \<open>The receiver of a challenger: its push handler with the wrapped sink.\<close>

definition challenged_receiver ::
  "(string \<Rightarrow> string result) \<Rightarrow> 's sink option \<Rightarrow> push_request \<Rightarrow> challenger \<times> 's \<Rightarrow> http_response \<times> challenger \<times> 's" where
  "challenged_receiver verify downstream = PushHandler verify (WrapSink downstream) []"

lemma receiver_after_one:
  "deliverable verify req p \<Longrightarrow>
     receiver_states (challenged_receiver verify downstream) (Inr req) cs 1 = snd (WrapSink downstream p cs)"
  using receiver_is_sink [of verify req p "WrapSink downstream" cs 1]
  by (simp add: challenged_receiver_def PushHandler_def)

section \<open>The handshake by push\<close>


section \<open>An example\<close>

definition push_token_x :: string where "push_token_x = ''.k.'' @ verification_payload ''x''"

lemma push_token_x_facts:
  "trim_space push_token_x = push_token_x" "push_token_x \<noteq> []" "int (length push_token_x) \<le> defaultMaxPushBytes"
  "NewJOSESetSigner (\<lambda>_. []) toy_jose (Some ''k'') = Inr ''k''" "Sign toy_jose ''k'' (verification_payload ''x'') = Inr push_token_x"
proof -
  show "trim_space push_token_x = push_token_x" "push_token_x \<noteq> []" "int (length push_token_x) \<le> defaultMaxPushBytes"
    by code_simp+
  show "NewJOSESetSigner (\<lambda>_. []) toy_jose (Some ''k'') = Inr ''k''" "Sign toy_jose ''k'' (verification_payload ''x'') = Inr push_token_x"
    by (simp_all add: push_token_x_def NewJOSESetSigner_def Sign_def toy_jose_def toy_header_def cut_def allowedSETAlgorithms_def
        algNone_def lookup_update)
qed


end
