(* ===== verification/Poller.thy ===== *)
theory Poller
  imports Push_Handler Push_Driver "HOL-Library.Multiset"
begin

text \<open>
  The receiving end of poll delivery (\<open>receiver/poller.go\<close>). What a round of the loop meets is a
  \<open>round_env\<close>: the context, the outcome of the POST, the clock, the draw for the jitter, the order in which the
  map of SETs is enumerated, and, for parallel delivery, the order in which the results land. In parallel delivery a
  call of the sink counts as one step, and the calls are made in the order of the enumeration, which is any. The
  mutable fields of \<open>Poller\<close> and the variables of \<open>Run\<close> are \<open>poll_state\<close>.
\<close>

section \<open>Backoff\<close>

record backoff =
  bo_initial :: int
  bo_max :: int
  bo_current :: int
  bo_jitter_pct :: rat

definition backoff_Next :: "rat \<Rightarrow> backoff \<Rightarrow> int \<times> backoff" where
  "backoff_Next r b =
     (let next = wrap64 (bo_current b * 2);
          stored = (if bo_max b < next \<or> next < bo_current b then bo_max b else next);
          d = (if 0 < bo_jitter_pct b
               then (let x = duration_of (of_int (bo_current b) * (1 + (r * 2 - 1) * bo_jitter_pct b))
                     in if x < 0 then 0 else x)
               else bo_current b)
      in (d, b\<lparr>bo_current := stored\<rparr>))"

definition backoff_Reset :: "backoff \<Rightarrow> backoff" where
  "backoff_Reset b = b\<lparr>bo_current := bo_initial b\<rparr>"

section \<open>Configuration\<close>

definition pollMediaType :: string where "pollMediaType = ''application/json''"
definition setErrInvalidSET :: string where "setErrInvalidSET = ''invalid_set''"
definition setErrDeliveryFailure :: string where "setErrDeliveryFailure = ''delivery_failed''"
definition defaultMaxEvents :: int where "defaultMaxEvents = 100"
definition defaultNoEventsBackoffMin :: int where "defaultNoEventsBackoffMin = 1 * second"
definition defaultNoEventsBackoffMax :: int where "defaultNoEventsBackoffMax = 5 * minute"
definition defaultErrorBackoffMin :: int where "defaultErrorBackoffMin = 1 * second"
definition defaultErrorBackoffMax :: int where "defaultErrorBackoffMax = 1 * hour"
definition defaultErrorBackoffJitterPct :: rat where "defaultErrorBackoffJitterPct = 1 / 5"
definition defaultParallelism :: int where "defaultParallelism = 1"

record poller =
  po_endpoint :: string
  po_authz :: string
  po_max_events :: int
  po_no_events :: backoff
  po_error :: backoff
  po_parallelism :: int

type_synonym poller_option = "poller \<Rightarrow> poller"

definition WithAuthorizationHeader :: "string \<Rightarrow> poller_option" where
  "WithAuthorizationHeader h p = p\<lparr>po_authz := h\<rparr>"

definition WithMaxEvents :: "int \<Rightarrow> poller_option" where
  "WithMaxEvents n p = (if 0 < n then p\<lparr>po_max_events := n\<rparr> else p)"

definition WithNoEventsBackoff :: "int \<Rightarrow> int \<Rightarrow> poller_option" where
  "WithNoEventsBackoff initial maximum p =
     (if 0 < initial \<and> initial \<le> maximum
      then p\<lparr>po_no_events := \<lparr>bo_initial = initial, bo_max = maximum, bo_current = initial, bo_jitter_pct = 0\<rparr>\<rparr>
      else p)"

definition WithErrorBackoff :: "int \<Rightarrow> int \<Rightarrow> poller_option" where
  "WithErrorBackoff initial maximum p =
     (if 0 < initial \<and> initial \<le> maximum
      then p\<lparr>po_error := \<lparr>bo_initial = initial, bo_max = maximum, bo_current = initial,
             bo_jitter_pct = defaultErrorBackoffJitterPct\<rparr>\<rparr>
      else p)"

definition WithParallelDelivery :: "int \<Rightarrow> poller_option" where
  "WithParallelDelivery n p = (if 1 < n then p\<lparr>po_parallelism := n\<rparr> else p)"

definition NewPoller :: "string \<Rightarrow> poller_option list \<Rightarrow> poller" where
  "NewPoller endpoint opts = fold (\<lambda>opt p. opt p) opts
     \<lparr>po_endpoint = endpoint, po_authz = [], po_max_events = defaultMaxEvents,
      po_no_events = \<lparr>bo_initial = defaultNoEventsBackoffMin, bo_max = defaultNoEventsBackoffMax,
        bo_current = defaultNoEventsBackoffMin, bo_jitter_pct = 0\<rparr>,
      po_error = \<lparr>bo_initial = defaultErrorBackoffMin, bo_max = defaultErrorBackoffMax,
        bo_current = defaultErrorBackoffMin, bo_jitter_pct = defaultErrorBackoffJitterPct\<rparr>,
      po_parallelism = defaultParallelism\<rparr>"

section \<open>Delivering the SETs of a response\<close>

text \<open>What \<open>deliverOne\<close> reports for one SET: acknowledge it, and the error to report (none when empty).\<close>

record set_result =
  st_jti :: string
  st_ack :: bool
  st_code :: string
  st_desc :: string

definition deliverOne ::
  "(string \<Rightarrow> string result) \<Rightarrow> 's sink \<Rightarrow> string \<Rightarrow> 's \<Rightarrow> (bool \<times> string \<times> string) \<times> 's" where
  "deliverOne verify sink jws s =
     (case verify jws of
        Inl err \<Rightarrow> ((False, setErrInvalidSET, error_text err), s)
      | Inr payload \<Rightarrow>
          (case sink payload s of
             (Some err, s') \<Rightarrow>
               (if errors_is err ErrPermanent then (True, setErrDeliveryFailure, error_text err)
                else (False, setErrDeliveryFailure, error_text err), s')
           | (None, s') \<Rightarrow> ((True, [], []), s')))"

fun deliver_each ::
  "(string \<Rightarrow> string result) \<Rightarrow> 's sink \<Rightarrow> (string \<times> string) list \<Rightarrow> 's \<Rightarrow> set_result list \<times> 's" where
  "deliver_each verify sink [] s = ([], s)"
| "deliver_each verify sink ((jti, jws) # es) s =
     (case deliverOne verify sink jws s of
        ((acked, code, desc), s') \<Rightarrow>
          (case deliver_each verify sink es s' of
             (rs, s'') \<Rightarrow> (\<lparr>st_jti = jti, st_ack = acked, st_code = code, st_desc = desc\<rparr> # rs, s'')))"

definition collect_acks :: "set_result list \<Rightarrow> string list" where
  "collect_acks rs = map st_jti (filter st_ack rs)"

definition collect_errs :: "set_result list \<Rightarrow> (string, set_err) mapping option" where
  "collect_errs rs = fold (\<lambda>r errs.
     if st_code r = [] then errs
     else Some (Mapping.update (st_jti r) \<lparr>se_err = st_code r, se_description = st_desc r\<rparr>
            (case errs of None \<Rightarrow> Mapping.empty | Some m \<Rightarrow> m))) rs None"

record poll_outcome =
  pt_ack :: "string list option"
  pt_set_errs :: "(string, set_err) mapping option"
  pt_empty :: bool
  pt_more_available :: bool
  pt_retry_after :: int

definition zero_outcome :: poll_outcome where
  "zero_outcome = \<lparr>pt_ack = None, pt_set_errs = None, pt_empty = False, pt_more_available = False,
     pt_retry_after = 0\<rparr>"

definition process ::
  "(string \<Rightarrow> string result) \<Rightarrow> 's sink \<Rightarrow> int \<Rightarrow> ((string, string) mapping \<Rightarrow> (string \<times> string) list)
     \<Rightarrow> (set_result list \<Rightarrow> set_result list) \<Rightarrow> poll_response \<Rightarrow> 's \<Rightarrow> poll_outcome \<times> 's" where
  "process verify sink parallelism enum landing pr s =
     (let sets = (case pr_sets pr of None \<Rightarrow> Mapping.empty | Some m \<Rightarrow> m);
          more = (pr_more_available pr = Some True);
          outcome = zero_outcome\<lparr>pt_empty := Mapping.is_empty sets, pt_more_available := more\<rparr>
      in if Mapping.is_empty sets then (outcome, s)
         else (case deliver_each verify sink (enum sets) s of
                 (rs, s') \<Rightarrow>
                   if parallelism \<le> 1
                   then (outcome\<lparr>pt_ack := Some (collect_acks rs), pt_set_errs := collect_errs rs\<rparr>, s')
                   else (outcome\<lparr>pt_ack := (if collect_acks (landing rs) = [] then None
                             else Some (collect_acks (landing rs))),
                           pt_set_errs := collect_errs (landing rs)\<rparr>, s')))"

section \<open>One round\<close>

text \<open>As \<open>parseRetryAfter\<close> of the push driver, but without trimming the header.\<close>

definition poller_parseRetryAfter :: "(string \<Rightarrow> int option) \<Rightarrow> int \<Rightarrow> string \<Rightarrow> int" where
  "poller_parseRetryAfter parse_time now header =
     (if header = [] then 0
      else (case parse_int header of
              Some secs \<Rightarrow> if secs < 0 then 0 else wrap64 (secs * second)
            | None \<Rightarrow>
                (case parse_time header of
                   Some t \<Rightarrow> (let d = time_sub t now in if d < 0 then 0 else d)
                 | None \<Rightarrow> 0)))"

record round_env =
  re_ctx_start :: "ctx_err option"
  re_outcome :: post_outcome
  re_ctx_after :: "ctx_err option"
  re_now :: int
  re_jitter :: rat
  re_sleep_ctx :: "ctx_err option"
  re_enum :: "(string, string) mapping \<Rightarrow> (string \<times> string) list"
  re_landing :: "set_result list \<Rightarrow> set_result list"

record poll_post =
  pp_url :: string
  pp_content_type :: string
  pp_authorization :: string
  pp_body :: poll_request

datatype poll_event = EvPoll poll_post | EvWait int

definition buildRequest :: "poller \<Rightarrow> string list option \<Rightarrow> (string, set_err) mapping option \<Rightarrow> poll_post" where
  "buildRequest p ack set_errs =
     \<lparr>pp_url = po_endpoint p, pp_content_type = pollMediaType, pp_authorization = po_authz p,
      pp_body = \<lparr>pq_ack = ack, pq_set_errs = set_errs, pq_max_events = Some (po_max_events p),
        pq_return_immediately = None\<rparr>\<rparr>"

definition pollOnce ::
  "(string \<Rightarrow> string result) \<Rightarrow> 's sink \<Rightarrow> (string \<Rightarrow> int option) \<Rightarrow> poller \<Rightarrow> round_env
     \<Rightarrow> string list option \<Rightarrow> (string, set_err) mapping option \<Rightarrow> 's \<Rightarrow> poll_outcome \<times> gerror option \<times> 's" where
  "pollOnce verify sink parse_time p e ack set_errs s =
     (case re_outcome e of
        Build_Error err \<Rightarrow> (zero_outcome, Some (Wrapf ''build poll request: '' err []), s)
      | Transport_Error err \<Rightarrow> (zero_outcome, Some (Wrapf ''poll request: '' err []), s)
      | Response status retry_after body \<Rightarrow>
          if status = 429 \<or> status = 503
          then (\<lparr>pt_ack = ack, pt_set_errs = set_errs, pt_empty = True, pt_more_available = False,
                  pt_retry_after = poller_parseRetryAfter parse_time (re_now e) retry_after\<rparr>,
                Some (Opaque (''poll endpoint returned '' @ itoa status)), s)
          else if status div 100 \<noteq> 2
          then (zero_outcome, Some (Opaque (''poll endpoint returned '' @ itoa status)), s)
          else (case decode_stream dec_poll_response body of
                  Inl j \<Rightarrow> (zero_outcome, Some (Wrapf ''decode poll response: '' (JsonErr j) []), s)
                | Inr pr \<Rightarrow>
                    (case process verify sink (po_parallelism p) (re_enum e) (re_landing e) pr s of
                       (outcome, s') \<Rightarrow> (outcome, None, s'))))"

text \<open>The events of a sleep, and the context's error when it is done by the end of it.\<close>

definition poll_sleep :: "ctx_err option \<Rightarrow> int \<Rightarrow> poll_event list \<times> ctx_err option" where
  "poll_sleep ctx d = ((if d \<le> 0 then [] else [EvWait d]), ctx)"

section \<open>The loop\<close>

record 's poll_state =
  pl_poller :: poller
  pl_ack :: "string list option"
  pl_set_errs :: "(string, set_err) mapping option"
  pl_sink :: 's

definition post_of :: "round_env \<Rightarrow> 's poll_state \<Rightarrow> poll_event list" where
  "post_of e st = (case re_outcome e of
     Build_Error _ \<Rightarrow> []
   | _ \<Rightarrow> [EvPoll (buildRequest (pl_poller st) (pl_ack st) (pl_set_errs st))])"

text \<open>
  One iteration of \<open>Run\<close>: the context's error when \<open>Run\<close> returns in it, the requests and sleeps, the next state.
\<close>

definition poll_round ::
  "(string \<Rightarrow> string result) \<Rightarrow> 's sink \<Rightarrow> (string \<Rightarrow> int option) \<Rightarrow> round_env \<Rightarrow> 's poll_state
     \<Rightarrow> ctx_err option \<times> poll_event list \<times> 's poll_state" where
  "poll_round verify sink parse_time e st =
     (case re_ctx_start e of
        Some c \<Rightarrow> (Some c, [], st)
      | None \<Rightarrow>
          (let p = pl_poller st in
           case pollOnce verify sink parse_time p e (pl_ack st) (pl_set_errs st) (pl_sink st) of
             (outcome, Some err, s') \<Rightarrow>
               (case re_ctx_after e of
                  Some c \<Rightarrow> (Some c, post_of e st, st\<lparr>pl_sink := s'\<rparr>)
                | None \<Rightarrow>
                    (let (d, b) = (if pt_retry_after outcome \<le> 0 then backoff_Next (re_jitter e) (po_error p)
                                   else (pt_retry_after outcome, po_error p));
                         (evs, stop) = poll_sleep (re_sleep_ctx e) d
                     in (stop, post_of e st @ evs, st\<lparr>pl_sink := s', pl_poller := p\<lparr>po_error := b\<rparr>\<rparr>)))
           | (outcome, None, s') \<Rightarrow>
               (let p1 = p\<lparr>po_error := backoff_Reset (po_error p)\<rparr>;
                    st1 = st\<lparr>pl_sink := s', pl_poller := p1, pl_ack := pt_ack outcome, pl_set_errs := pt_set_errs outcome\<rparr>
                in if 0 < pt_retry_after outcome
                   then (case poll_sleep (re_sleep_ctx e) (pt_retry_after outcome) of
                           (evs, stop) \<Rightarrow> (stop, post_of e st @ evs, st1))
                   else if pt_more_available outcome
                   then (None, post_of e st, st1\<lparr>pl_poller := p1\<lparr>po_no_events := backoff_Reset (po_no_events p1)\<rparr>\<rparr>)
                   else if pt_empty outcome
                   then (let (d, b) = backoff_Next (re_jitter e) (po_no_events p1);
                             (evs, stop) = poll_sleep (re_sleep_ctx e) d
                         in (stop, post_of e st @ evs, st1\<lparr>pl_poller := p1\<lparr>po_no_events := b\<rparr>\<rparr>))
                   else (None, post_of e st, st1\<lparr>pl_poller := p1\<lparr>po_no_events := backoff_Reset (po_no_events p1)\<rparr>\<rparr>))))"

text \<open>
  \<open>Run\<close> observed for \<open>n\<close> rounds from round \<open>i\<close>: what it returned, if it did, what it did, and its state.
\<close>

fun poll_run ::
  "(string \<Rightarrow> string result) \<Rightarrow> 's sink \<Rightarrow> (string \<Rightarrow> int option) \<Rightarrow> (nat \<Rightarrow> round_env) \<Rightarrow> nat \<Rightarrow> nat
     \<Rightarrow> 's poll_state \<Rightarrow> ctx_err option \<times> poll_event list \<times> 's poll_state" where
  "poll_run verify sink pt env 0 i st = (None, [], st)"
| "poll_run verify sink pt env (Suc n) i st =
     (case poll_round verify sink pt (env i) st of
        (Some c, evs, st') \<Rightarrow> (Some c, evs, st')
      | (None, evs, st') \<Rightarrow>
          (case poll_run verify sink pt env n (Suc i) st' of (r, evs', st'') \<Rightarrow> (r, evs @ evs', st'')))"

definition start_poller :: "poller \<Rightarrow> 's \<Rightarrow> 's poll_state" where
  "start_poller p s = \<lparr>pl_poller = p, pl_ack = None, pl_set_errs = None, pl_sink = s\<rparr>"

section \<open>Accounting for the SETs of a batch\<close>

text \<open>The payloads that reach the sink, in order.\<close>

definition verified :: "(string \<Rightarrow> string result) \<Rightarrow> (string \<times> string) list \<Rightarrow> string list" where
  "verified verify es = concat (map (\<lambda>(_, jws). case verify jws of Inr p \<Rightarrow> [p] | Inl _ \<Rightarrow> []) es)"

text \<open>What the receiver must say about a SET whose token is \<open>jws\<close>.\<close>

definition set_result_ok :: "(string \<Rightarrow> string result) \<Rightarrow> 's sink \<Rightarrow> string \<Rightarrow> set_result \<Rightarrow> bool" where
  "set_result_ok verify sink jws r \<longleftrightarrow>
     (case verify jws of
        Inl err \<Rightarrow> \<not> st_ack r \<and> st_code r = setErrInvalidSET \<and> st_desc r = error_text err
      | Inr p \<Rightarrow> (\<exists>t. case fst (sink p t) of
                    None \<Rightarrow> st_ack r \<and> st_code r = []
                  | Some err \<Rightarrow> (st_ack r \<longleftrightarrow> errors_is err ErrPermanent) \<and> st_code r = setErrDeliveryFailure
                      \<and> st_desc r = error_text err))"

lemma deliverOne_ok:
  assumes "deliverOne verify sink jws s = ((acked, code, desc), s')"
  shows "set_result_ok verify sink jws \<lparr>st_jti = j, st_ack = acked, st_code = code, st_desc = desc\<rparr>"
    and "s' = fold (\<lambda>p t. snd (sink p t)) (verified verify [(j', jws)]) s"
proof -
  show "set_result_ok verify sink jws \<lparr>st_jti = j, st_ack = acked, st_code = code, st_desc = desc\<rparr>"
    using assms
    by (cases "verify jws"; cases "sink (projr (verify jws)) s")
      (auto simp: deliverOne_def set_result_ok_def setErrDeliveryFailure_def split: option.split_asm if_split_asm
        intro!: exI [of _ s])
  show "s' = fold (\<lambda>p t. snd (sink p t)) (verified verify [(j', jws)]) s"
    using assms
    by (auto simp: deliverOne_def verified_def split: sum.split_asm prod.split_asm option.split_asm if_split_asm)
qed

lemma deliver_each_ok:
  assumes "deliver_each verify sink es s = (rs, s')"
  shows "map st_jti rs = map fst es \<and> list_all2 (set_result_ok verify sink) (map snd es) rs
    \<and> s' = fold (\<lambda>p t. snd (sink p t)) (verified verify es) s"
  using assms
proof (induction es arbitrary: s rs)
  case (Cons e es)
  obtain jti jws where e: "e = (jti, jws)" by (cases e)
  obtain acked code desc s1 where one: "deliverOne verify sink jws s = ((acked, code, desc), s1)"
    by (metis surj_pair)
  obtain rs1 where rest: "deliver_each verify sink es s1 = (rs1, s')"
      and rs: "rs = \<lparr>st_jti = jti, st_ack = acked, st_code = code, st_desc = desc\<rparr> # rs1"
    using Cons.prems by (auto simp: e one split: prod.split_asm)
  from Cons.IH [OF rest] deliverOne_ok [OF one] show ?case
    by (auto simp: e rs verified_def)
qed (simp add: verified_def)

definition reported :: "(string, set_err) mapping option \<Rightarrow> (string, set_err) mapping" where
  "reported errs = (case errs of None \<Rightarrow> Mapping.empty | Some m \<Rightarrow> m)"

definition acked :: "string list option \<Rightarrow> string list" where
  "acked ack = (case ack of None \<Rightarrow> [] | Some js \<Rightarrow> js)"

lemma reported_simps [simp]: "reported None = Mapping.empty" "reported (Some m) = m"
  by (simp_all add: reported_def)

lemma acked_simps [simp]: "acked None = []" "acked (Some js) = js"
  by (simp_all add: acked_def)

definition err_step :: "set_result \<Rightarrow> (string, set_err) mapping option \<Rightarrow> (string, set_err) mapping option" where
  "err_step r errs =
     (if st_code r = [] then errs
      else Some (Mapping.update (st_jti r) \<lparr>se_err = st_code r, se_description = st_desc r\<rparr> (reported errs)))"

lemma collect_errs_fold: "collect_errs rs = fold err_step rs None"
  unfolding collect_errs_def err_step_def [abs_def] reported_def by (rule refl)

lemma err_step_lookup:
  "Mapping.lookup (reported (err_step r errs)) j =
     (if st_jti r = j \<and> st_code r \<noteq> [] then Some \<lparr>se_err = st_code r, se_description = st_desc r\<rparr>
      else Mapping.lookup (reported errs) j)"
  by (auto simp: err_step_def mapping_simps)

lemma err_fold_other:
  "j \<notin> st_jti ` set rs \<Longrightarrow> Mapping.lookup (reported (fold err_step rs errs)) j = Mapping.lookup (reported errs) j"
  by (induction rs arbitrary: errs) (auto simp: err_step_lookup)

lemma err_fold_member:
  assumes "distinct (map st_jti rs)" and "r \<in> set rs"
  shows "Mapping.lookup (reported (fold err_step rs errs)) (st_jti r) =
    (if st_code r = [] then Mapping.lookup (reported errs) (st_jti r)
     else Some \<lparr>se_err = st_code r, se_description = st_desc r\<rparr>)"
  using assms
proof (induction rs arbitrary: errs)
  case (Cons x xs)
  show ?case
  proof (cases "r = x")
    case True
    then have "st_jti r \<notin> st_jti ` set xs" using Cons.prems(1) by simp
    with err_fold_other [OF this] True show ?thesis by (simp add: err_step_lookup)
  next
    case False
    then have r: "r \<in> set xs" and "st_jti x \<noteq> st_jti r" using Cons.prems by auto
    then show ?thesis using Cons by (simp add: err_step_lookup)
  qed
qed simp

lemma acks_iff:
  assumes "distinct (map st_jti rs)" and "r \<in> set rs"
  shows "st_jti r \<in> set (collect_acks rs) \<longleftrightarrow> st_ack r"
proof -
  have "r' = r" if "r' \<in> set rs" "st_jti r' = st_jti r" for r'
    using assms that by (metis distinct_map inj_onD)
  then show ?thesis using assms(2) by (auto simp: collect_acks_def)
qed

text \<open>Landing in another order changes nothing but the order of the acknowledgements.\<close>

lemma landed:
  assumes "mset ls = mset rs"
  shows "set ls = set rs" and "distinct (map st_jti ls) \<longleftrightarrow> distinct (map st_jti rs)"
  using mset_eq_setD [OF assms] mset_eq_imp_distinct_iff [of "map st_jti ls" "map st_jti rs"] assms
  by simp_all

lemma result_of_entry:
  assumes "map st_jti rs = map fst es" and "list_all2 P (map snd es) rs" and "(j, w) \<in> set es"
  shows "\<exists>r \<in> set rs. st_jti r = j \<and> P w r"
  using assms by (induction es arbitrary: rs) (auto simp: Cons_eq_map_conv list_all2_Cons1)

lemma process_result:
  assumes "process verify sink par enum landing pr s = (oc, s')" and "pr_sets pr = Some sets"
    and "enum sets = es" and "\<forall>j w. (j, w) \<in> set es \<longleftrightarrow> Mapping.lookup sets j = Some w"
    and "\<forall>rs. mset (landing rs) = mset rs"
  shows "\<exists>rs. deliver_each verify sink es s = (rs, s')
    \<and> (\<exists>ls. mset ls = mset rs \<and> acked (pt_ack oc) = collect_acks ls \<and> pt_set_errs oc = collect_errs ls
         \<and> (par \<le> 1 \<longrightarrow> ls = rs))"
proof (cases "Mapping.is_empty sets")
  case True
  then have "Mapping.lookup sets j = None" for j
    by (metis Mapping.is_empty_def keys_empty empty_iff lookup_None_keys)
  then have "es = []" using assms(4) by (metis last_in_set option.simps(3) surj_pair)
  then show ?thesis using assms(1,2) True
    by (auto simp: process_def Let_def zero_outcome_def collect_acks_def collect_errs_def)
next
  case False
  obtain rs s'' where run: "deliver_each verify sink es s = (rs, s'')" by (metis surj_pair)
  show ?thesis using assms(1,2,3,5) False
    by (cases "par \<le> 1")
      (auto simp: process_def Let_def run zero_outcome_def intro!: exI [of _ "landing rs"])
qed

section \<open>Properties of a batch\<close>

text \<open>Whether a SET is acknowledged, and what is reported of it.\<close>

definition answered :: "(string \<Rightarrow> string result) \<Rightarrow> 's sink \<Rightarrow> string \<Rightarrow> bool \<Rightarrow> set_err option \<Rightarrow> bool" where
  "answered verify sink jws ack err \<longleftrightarrow>
     (case verify jws of
        Inl e \<Rightarrow> \<not> ack \<and> err = Some \<lparr>se_err = setErrInvalidSET, se_description = error_text e\<rparr>
      | Inr p \<Rightarrow> (\<exists>t. case fst (sink p t) of
            None \<Rightarrow> ack \<and> err = None
          | Some e \<Rightarrow> (ack \<longleftrightarrow> errors_is e ErrPermanent)
              \<and> err = Some \<lparr>se_err = setErrDeliveryFailure, se_description = error_text e\<rparr>))"

lemma process_accounts:
  assumes "process verify sink par enum landing pr s = (oc, s')" and "pr_sets pr = Some sets"
    and "enum sets = es" and "\<forall>j w. (j, w) \<in> set es \<longleftrightarrow> Mapping.lookup sets j = Some w"
    and "distinct (map fst es)" and "\<forall>rs. mset (landing rs) = mset rs"
  shows "s' = fold (\<lambda>p t. snd (sink p t)) (verified verify es) s
    \<and> set (acked (pt_ack oc)) \<union> Mapping.keys (reported (pt_set_errs oc)) \<subseteq> Mapping.keys sets
    \<and> (\<forall>jti jws. Mapping.lookup sets jti = Some jws \<longrightarrow>
         answered verify sink jws (jti \<in> set (acked (pt_ack oc))) (Mapping.lookup (reported (pt_set_errs oc)) jti))"
proof -
  from process_result [OF assms(1-4,6)] obtain rs ls where run: "deliver_each verify sink es s = (rs, s')"
    and ls: "mset ls = mset rs" "acked (pt_ack oc) = collect_acks ls" "pt_set_errs oc = collect_errs ls" by blast
  note each = deliver_each_ok [OF run]
  then have jtis: "map st_jti rs = map fst es" by simp
  then have dist: "distinct (map st_jti ls)" using assms(5) landed(2) [OF ls(1)] by simp
  have keys: "st_jti ` set ls = Mapping.keys sets"
  proof -
    have "st_jti ` set ls = set (map fst es)" using jtis landed(1) [OF ls(1)] by (metis list.set_map)
    also have "\<dots> = Mapping.keys sets" using assms(4) by (force simp: keys_dom_lookup)
    finally show ?thesis .
  qed
  have "\<exists>r \<in> set ls. st_jti r = jti \<and> set_result_ok verify sink jws r" if "Mapping.lookup sets jti = Some jws" for jti jws
    using result_of_entry [OF jtis, of "set_result_ok verify sink" jti jws] each that assms(4) landed(1) [OF ls(1)]
    by simp
  note found = this
  have "Mapping.lookup (reported (pt_set_errs oc)) (st_jti r) =
      (if st_code r = [] then None else Some \<lparr>se_err = st_code r, se_description = st_desc r\<rparr>)"
    and "st_jti r \<in> set (acked (pt_ack oc)) \<longleftrightarrow> st_ack r" if "r \<in> set ls" for r
    using err_fold_member [OF dist that, of None] acks_iff [OF dist that] by (simp_all add: ls collect_errs_fold)
  note per = this
  have "answered verify sink jws (jti \<in> set (acked (pt_ack oc))) (Mapping.lookup (reported (pt_set_errs oc)) jti)"
    if look: "Mapping.lookup sets jti = Some jws" for jti jws
  proof -
    obtain r where r: "r \<in> set ls" "st_jti r = jti" "set_result_ok verify sink jws r" using found [OF look] by blast
    show ?thesis
      using per [OF r(1)] r(2,3)
      by (auto simp: answered_def set_result_ok_def setErrInvalidSET_def setErrDeliveryFailure_def split: sum.splits option.splits)
  qed
  moreover have "set (acked (pt_ack oc)) \<subseteq> Mapping.keys sets"
    unfolding keys [symmetric] ls(2) by (auto simp: collect_acks_def)
  moreover have "Mapping.keys (reported (pt_set_errs oc)) \<subseteq> Mapping.keys sets"
    unfolding keys [symmetric] ls(3) collect_errs_fold
    using err_fold_other [of _ ls None] by (auto simp: lookup_None_keys [symmetric]) (metis lookup_empty reported_simps(1) lookup_iff_keys)
  ultimately show ?thesis using each by blast
qed

text \<open>
  Claim C30: Every SET of a poll response is answered for in the next request, in serial and in
  parallel delivery: one the verifier refuses is reported as \<open>invalid_set\<close> and not acknowledged; one the sink takes is
  acknowledged and not reported; one it refuses is reported as \<open>delivery_failed\<close>, and acknowledged exactly when the
  refusal is permanent. Nothing else is acknowledged or reported, and the sink gets each verified payload once.
\<close>

theorem poll_accounts:
  assumes "process verify sink par enum landing pr s = (oc, s')" and "pr_sets pr = Some sets"
    and "enum sets = es" and "\<forall>j w. (j, w) \<in> set es \<longleftrightarrow> Mapping.lookup sets j = Some w"
    and "distinct (map fst es)" and "\<forall>rs. mset (landing rs) = mset rs"
  shows "s' = fold (\<lambda>p t. snd (sink p t)) (verified verify es) s
    \<and> set (acked (pt_ack oc)) \<union> Mapping.keys (reported (pt_set_errs oc)) \<subseteq> Mapping.keys sets
    \<and> (\<forall>jti jws. Mapping.lookup sets jti = Some jws \<longrightarrow>
         (case verify jws of
            Inl err \<Rightarrow> jti \<notin> set (acked (pt_ack oc)) \<and> Mapping.lookup (reported (pt_set_errs oc)) jti
              = Some \<lparr>se_err = ''invalid_set'', se_description = error_text err\<rparr>
          | Inr p \<Rightarrow> (\<exists>t. case fst (sink p t) of
                None \<Rightarrow> jti \<in> set (acked (pt_ack oc)) \<and> Mapping.lookup (reported (pt_set_errs oc)) jti = None
              | Some err \<Rightarrow> (jti \<in> set (acked (pt_ack oc)) \<longleftrightarrow> errors_is err ErrPermanent)
                  \<and> Mapping.lookup (reported (pt_set_errs oc)) jti
                    = Some \<lparr>se_err = ''delivery_failed'', se_description = error_text err\<rparr>)))"
  using process_accounts [OF assms] unfolding answered_def setErrInvalidSET_def setErrDeliveryFailure_def .

section \<open>Rounds that fail and rounds that bring nothing\<close>

definition ok_status :: "int \<Rightarrow> bool" where
  "ok_status status \<longleftrightarrow> status \<noteq> 429 \<and> status \<noteq> 503 \<and> status div 100 = 2"

definition round_fails :: "round_env \<Rightarrow> bool" where
  "round_fails e \<longleftrightarrow>
     (case re_outcome e of
        Response status _ body \<Rightarrow> \<not> ok_status status \<or> (\<exists>j. decode_stream dec_poll_response body = Inl j)
      | _ \<Rightarrow> True)"

definition round_empty :: "round_env \<Rightarrow> bool" where
  "round_empty e \<longleftrightarrow>
     (case re_outcome e of
        Response status _ body \<Rightarrow> ok_status status
          \<and> (\<exists>pr. decode_stream dec_poll_response body = Inr pr
               \<and> (case pr_sets pr of None \<Rightarrow> True | Some m \<Rightarrow> Mapping.is_empty m) \<and> pr_more_available pr \<noteq> Some True)
      | _ \<Rightarrow> False)"

definition alive :: "round_env \<Rightarrow> bool" where
  "alive e \<longleftrightarrow> re_ctx_start e = None \<and> re_ctx_after e = None \<and> re_sleep_ctx e = None"

text \<open>The \<open>Retry-After\<close> hint of a failed round.\<close>

definition retry_hint :: "(string \<Rightarrow> int option) \<Rightarrow> round_env \<Rightarrow> int" where
  "retry_hint pt e =
     (case re_outcome e of
        Response status retry_after _ \<Rightarrow>
          if status = 429 \<or> status = 503 then poller_parseRetryAfter pt (re_now e) retry_after else 0
      | _ \<Rightarrow> 0)"

lemma pollOnce_fails:
  assumes "round_fails e"
  shows "\<exists>oc err. pollOnce verify sink pt p e ack errs s = (oc, Some err, s) \<and> pt_retry_after oc = retry_hint pt e"
  using assms
  by (cases "re_outcome e")
    (auto simp: round_fails_def ok_status_def pollOnce_def retry_hint_def zero_outcome_def split: sum.split)

lemma pollOnce_empty:
  assumes "round_empty e"
  shows "pollOnce verify sink pt p e ack errs s = (zero_outcome\<lparr>pt_empty := True\<rparr>, None, s)"
  using assms
  by (cases "re_outcome e")
    (auto simp: round_empty_def ok_status_def pollOnce_def process_def Let_def zero_outcome_def split: option.splits)

text \<open>The wait before the next attempt, and the error backoff after it.\<close>

definition error_wait :: "(string \<Rightarrow> int option) \<Rightarrow> round_env \<Rightarrow> backoff \<Rightarrow> int \<times> backoff" where
  "error_wait pt e b = (if retry_hint pt e \<le> 0 then backoff_Next (re_jitter e) b else (retry_hint pt e, b))"

definition wait_events :: "int \<Rightarrow> poll_event list" where
  "wait_events d = (if d \<le> 0 then [] else [EvWait d])"

lemma failing_round:
  assumes "round_fails e" and "alive e"
  shows "poll_round verify sink pt e st =
    (None, post_of e st @ wait_events (fst (error_wait pt e (po_error (pl_poller st)))),
     st\<lparr>pl_poller := (pl_poller st)\<lparr>po_error := snd (error_wait pt e (po_error (pl_poller st)))\<rparr>\<rparr>)"
proof -
  obtain oc err where "pollOnce verify sink pt (pl_poller st) e (pl_ack st) (pl_set_errs st) (pl_sink st)
      = (oc, Some err, pl_sink st)" "pt_retry_after oc = retry_hint pt e"
    using pollOnce_fails [OF assms(1), of verify sink pt "pl_poller st" "pl_ack st" "pl_set_errs st" "pl_sink st"]
    by blast
  then show ?thesis using assms(2)
    by (simp add: poll_round_def alive_def Let_def poll_sleep_def error_wait_def wait_events_def case_prod_beta)
qed

lemma empty_round:
  assumes "round_empty e" and "alive e"
  shows "poll_round verify sink pt e st =
    (None, post_of e st @ wait_events (fst (backoff_Next (re_jitter e) (po_no_events (pl_poller st)))),
     st\<lparr>pl_poller := (pl_poller st)\<lparr>po_error := backoff_Reset (po_error (pl_poller st)),
           po_no_events := snd (backoff_Next (re_jitter e) (po_no_events (pl_poller st)))\<rparr>,
        pl_ack := None, pl_set_errs := None\<rparr>)"
  using assms(2)
  by (simp add: pollOnce_empty [OF assms(1)] poll_round_def alive_def Let_def poll_sleep_def zero_outcome_def
      wait_events_def case_prod_beta)

text \<open>
  Claim C33: A poller survives failures without forgetting: while the context is not done, rounds
  that fail (transport error, any status that is not 2xx, a body that does not decode) never end \<open>Run\<close>, do not
  touch the sink, and each posts the same request, the acknowledgements and errors of the last round that succeeded.
\<close>

theorem acks_survive:
  assumes "poll_run verify sink pt env n i st = (r, evs, st')"
    and "\<forall>j < n. round_fails (env (i + j)) \<and> alive (env (i + j))"
  shows "r = None \<and> pl_sink st' = pl_sink st \<and> pl_ack st' = pl_ack st \<and> pl_set_errs st' = pl_set_errs st
    \<and> (\<forall>post. EvPoll post \<in> set evs \<longrightarrow> post = buildRequest (pl_poller st) (pl_ack st) (pl_set_errs st))
    \<and> buildRequest (pl_poller st') (pl_ack st') (pl_set_errs st')
        = buildRequest (pl_poller st) (pl_ack st) (pl_set_errs st)"
  using assms
proof (induction n arbitrary: i st evs)
  case (Suc n)
  from Suc.prems(2) have first: "round_fails (env i)" "alive (env i)" by (metis add_0_right zero_less_Suc)+
  have rest: "\<forall>j < n. round_fails (env (Suc i + j)) \<and> alive (env (Suc i + j))"
    using Suc.prems(2) by (metis Suc_less_eq add_Suc_shift)
  define w where "w = error_wait pt (env i) (po_error (pl_poller st))"
  define st1 where "st1 = st\<lparr>pl_poller := (pl_poller st)\<lparr>po_error := snd w\<rparr>\<rparr>"
  obtain evs1 where run: "poll_run verify sink pt env n (Suc i) st1 = (r, evs1, st')"
      and evs: "evs = post_of (env i) st @ wait_events (fst w) @ evs1"
    using Suc.prems(1) by (auto simp: failing_round [OF first] st1_def w_def split: prod.split_asm)
  have "EvPoll post \<in> set (post_of (env i) st @ wait_events (fst w))
      \<Longrightarrow> post = buildRequest (pl_poller st) (pl_ack st) (pl_set_errs st)" for post
    by (auto simp: post_of_def wait_events_def split: post_outcome.splits if_splits)
  with Suc.IH [OF run rest] show ?case by (auto simp: evs st1_def buildRequest_def)
qed simp

section \<open>Cadence\<close>

definition backoff_at :: "backoff \<Rightarrow> nat \<Rightarrow> int" where
  "backoff_at b k = min (bo_initial b * 2 ^ k) (bo_max b)"

definition backoff_ok :: "backoff \<Rightarrow> bool" where
  "backoff_ok b \<longleftrightarrow> 0 < bo_initial b \<and> bo_initial b \<le> bo_max b \<and> int64 (bo_max b)"

text \<open>The overflow guard makes \<open>Next\<close> double up to the maximum whatever the maximum is.\<close>

lemma backoff_Next_at:
  assumes "backoff_ok b" and "bo_current b = backoff_at b k"
  shows "bo_current (snd (backoff_Next r b)) = backoff_at b (Suc k)"
proof -
  have pos: "0 < bo_initial b * 2 ^ k" using assms(1) by (simp add: backoff_ok_def)
  then have "0 < bo_current b \<and> bo_current b \<le> bo_max b"
    using assms by (simp add: backoff_ok_def backoff_at_def)
  then have c: "0 < bo_current b" "bo_current b \<le> bo_max b" "int64 (bo_current b)"
    using assms(1) by (auto simp: backoff_ok_def int64_def)
  have "backoff_at b (Suc k) = min (bo_current b * 2) (bo_max b)"
    using c pos by (auto simp: assms(2) backoff_at_def min_def)
  moreover have "bo_current (snd (backoff_Next r b)) = min (bo_current b * 2) (bo_max b)"
    using c wrap64_double [of "bo_current b"] assms(1)
    by (auto simp: backoff_Next_def Let_def min_def backoff_ok_def int64_def)
  ultimately show ?thesis by simp
qed

lemma backoff_Next_fixed [simp]:
  "bo_initial (snd (backoff_Next r b)) = bo_initial b" "bo_max (snd (backoff_Next r b)) = bo_max b"
  "bo_jitter_pct (snd (backoff_Next r b)) = bo_jitter_pct b"
  by (simp_all add: backoff_Next_def Let_def)

lemma backoff_Next_keeps: "backoff_ok b \<Longrightarrow> backoff_ok (snd (backoff_Next r b))"
    "backoff_at (snd (backoff_Next r b)) k = backoff_at b k"
  by (simp_all add: backoff_ok_def backoff_at_def)

lemma backoff_at_bounds: "backoff_ok b \<Longrightarrow> bo_initial b \<le> backoff_at b k \<and> backoff_at b k \<le> bo_max b"
  by (auto simp: backoff_ok_def backoff_at_def min_def mult_le_cancel_left1)

fun waits :: "poll_event list \<Rightarrow> int list" where
  "waits [] = []"
| "waits (EvWait d # es) = d # waits es"
| "waits (_ # es) = waits es"

lemma waits_append [simp]: "waits (xs @ ys) = waits xs @ waits ys"
  by (induction xs rule: waits.induct) simp_all

lemma waits_round [simp]: "waits (post_of e st) = []" "waits (wait_events d) = (if d \<le> 0 then [] else [d])"
  by (simp_all add: post_of_def wait_events_def split: post_outcome.split)

text \<open>With 20\<open>%\<close> jitter the wait is that of the push driver's jitter.\<close>

lemma backoff_Next_jitter:
  assumes "bo_jitter_pct b = 1 / 5" and "2 \<le> bo_current b" and "bo_current b \<le> 2 ^ 61" and "0 \<le> r" and "r < 1"
  shows "4 * bo_current b - 5 < 5 * fst (backoff_Next r b)" and "5 * fst (backoff_Next r b) \<le> 6 * bo_current b"
    and "0 < fst (backoff_Next r b)"
proof -
  have j: "4 * bo_current b - 5 < 5 * applyJitter r (bo_current b)" "5 * applyJitter r (bo_current b) \<le> 6 * bo_current b"
    using jitter_bounds [of "bo_current b" r] assms by simp_all
  then have pos: "0 < applyJitter r (bo_current b)" using assms(2) by linarith
  then have "fst (backoff_Next r b) = applyJitter r (bo_current b)"
    using assms(2) by (simp only: backoff_Next_def applyJitter_def Let_def assms(1)) simp
  with j pos show "4 * bo_current b - 5 < 5 * fst (backoff_Next r b)" "5 * fst (backoff_Next r b) \<le> 6 * bo_current b"
    "0 < fst (backoff_Next r b)" by simp_all
qed

text \<open>
  Claim C35: Consecutive failures without a \<open>Retry-After\<close> hint are spaced by exponential
  backoff: after \<open>k\<close> of them since the last success, the next waits are the initial backoff doubled \<open>k\<close>, \<open>k + 1\<close>, ...
  times, at most the maximum, each give or take 20\<open>%\<close>, one wait for every failure.
\<close>

theorem error_backoff:
  assumes "poll_run verify sink pt env n i st = (r, evs, st')"
    and "\<forall>j < n. round_fails (env (i + j)) \<and> alive (env (i + j)) \<and> retry_hint pt (env (i + j)) \<le> 0
           \<and> 0 \<le> re_jitter (env (i + j)) \<and> re_jitter (env (i + j)) < 1"
    and "po_error (pl_poller st) = b" and "backoff_ok b" and "bo_jitter_pct b = 1 / 5"
    and "2 \<le> bo_initial b" and "bo_max b \<le> 2 ^ 61" and "bo_current b = backoff_at b k"
  shows "length (waits evs) = n \<and> (\<forall>j < n. 4 * backoff_at b (k + j) - 5 < 5 * (waits evs ! j)
    \<and> 5 * (waits evs ! j) \<le> 6 * backoff_at b (k + j))"
  using assms
proof (induction n arbitrary: i st evs b k)
  case (Suc n)
  from Suc.prems(2) have first: "round_fails (env i)" "alive (env i)" "retry_hint pt (env i) \<le> 0"
      "0 \<le> re_jitter (env i)" "re_jitter (env i) < 1" by (metis add_0_right zero_less_Suc)+
  have rest: "\<forall>j < n. round_fails (env (Suc i + j)) \<and> alive (env (Suc i + j)) \<and> retry_hint pt (env (Suc i + j)) \<le> 0
           \<and> 0 \<le> re_jitter (env (Suc i + j)) \<and> re_jitter (env (Suc i + j)) < 1"
    using Suc.prems(2) by (metis Suc_less_eq add_Suc_shift)
  define w where "w = backoff_Next (re_jitter (env i)) b"
  define st1 where "st1 = st\<lparr>pl_poller := (pl_poller st)\<lparr>po_error := snd w\<rparr>\<rparr>"
  have ew: "error_wait pt (env i) (po_error (pl_poller st)) = w" using first(3) Suc.prems(3)
    by (simp add: error_wait_def w_def)
  obtain evs1 where run: "poll_run verify sink pt env n (Suc i) st1 = (r, evs1, st')"
      and evs: "evs = post_of (env i) st @ wait_events (fst w) @ evs1"
    using Suc.prems(1) by (auto simp: failing_round [OF first(1,2)] ew st1_def split: prod.split_asm)
  have "2 \<le> bo_current b" "bo_current b \<le> 2 ^ 61"
    using backoff_at_bounds [OF Suc.prems(4), of k] Suc.prems(6-8) by simp_all
  note head = backoff_Next_jitter [OF Suc.prems(5) this first(4,5), folded w_def]
  have "length (waits evs1) = n \<and> (\<forall>j < n. 4 * backoff_at (snd w) (Suc k + j) - 5 < 5 * (waits evs1 ! j)
    \<and> 5 * (waits evs1 ! j) \<le> 6 * backoff_at (snd w) (Suc k + j))"
    using Suc.IH [OF run rest, of "snd w" "Suc k"] Suc.prems(4-8) backoff_Next_at [OF Suc.prems(4,8)]
      backoff_Next_keeps
    by (simp add: st1_def w_def)
  then show ?case using head Suc.prems(8)
    by (auto simp: evs w_def backoff_Next_keeps nth_Cons split: nat.split)
qed simp

text \<open>
  Consecutive empty responses are spaced by doubling waits without jitter, from the
  initial backoff up to exactly the maximum, whatever 64-bit maximum is configured.
\<close>

theorem empty_backoff:
  assumes "poll_run verify sink pt env n i st = (r, evs, st')"
    and "\<forall>j < n. round_empty (env (i + j)) \<and> alive (env (i + j))"
    and "po_no_events (pl_poller st) = b" and "backoff_ok b" and "bo_jitter_pct b = 0"
    and "bo_current b = backoff_at b k"
  shows "r = None \<and> waits evs = map (\<lambda>j. backoff_at b (k + j)) [0..<n]"
  using assms
proof (induction n arbitrary: i st evs b k)
  case (Suc n)
  from Suc.prems(2) have first: "round_empty (env i)" "alive (env i)" by (metis add_0_right zero_less_Suc)+
  have rest: "\<forall>j < n. round_empty (env (Suc i + j)) \<and> alive (env (Suc i + j))"
    using Suc.prems(2) by (metis Suc_less_eq add_Suc_shift)
  define w where "w = backoff_Next (re_jitter (env i)) b"
  define st1 where "st1 = st\<lparr>pl_poller := (pl_poller st)\<lparr>po_error := backoff_Reset (po_error (pl_poller st)),
    po_no_events := snd w\<rparr>, pl_ack := None, pl_set_errs := None\<rparr>"
  obtain evs1 where run: "poll_run verify sink pt env n (Suc i) st1 = (r, evs1, st')"
      and evs: "evs = post_of (env i) st @ wait_events (fst w) @ evs1"
    using Suc.prems(1,3) by (auto simp: empty_round [OF first] w_def st1_def split: prod.split_asm)
  have "fst w = backoff_at b k" "0 < backoff_at b k"
    using Suc.prems(4-6) backoff_at_bounds [OF Suc.prems(4), of k] by (auto simp: w_def backoff_Next_def Let_def backoff_ok_def)
  moreover have "r = None \<and> waits evs1 = map (\<lambda>j. backoff_at (snd w) (Suc k + j)) [0..<n]"
    using Suc.IH [OF run rest, of "snd w" "Suc k"] Suc.prems(4-6) backoff_Next_at [OF Suc.prems(4,6)]
      backoff_Next_keeps
    by (simp add: st1_def w_def)
  ultimately show ?case
    by (simp add: evs w_def backoff_Next_keeps upt_conv_Cons map_Suc_upt [symmetric] del: upt_Suc)
qed simp

section \<open>The end of a run\<close>

text \<open>Where a round's answer to the context comes from: nothing but the context ends a round.\<close>

lemma poll_round_result:
  "fst (poll_round verify sink pt e st) \<in> {None, re_ctx_start e, re_ctx_after e, re_sleep_ctx e}"
  by (auto simp: poll_round_def Let_def poll_sleep_def split: option.split prod.split)

text \<open>A run that returned does not notice further rounds; one that did not goes on where it stands.\<close>

lemma poll_run_add:
  "poll_run verify sink pt env (n + m) i st =
    (case poll_run verify sink pt env n i st of
       (Some c, evs, st') \<Rightarrow> (Some c, evs, st')
     | (None, evs, st') \<Rightarrow>
         (case poll_run verify sink pt env m (i + n) st' of (r, evs', st'') \<Rightarrow> (r, evs @ evs', st'')))"
proof (induction n arbitrary: i st)
  case (Suc n)
  show ?case by (simp add: Suc.IH split: prod.split option.split)
qed simp

lemma poll_run_result:
  assumes "poll_run verify sink pt env n i st = (Some c, evs, st')"
  shows "\<exists>j < n. Some c \<in> {re_ctx_start (env (i + j)), re_ctx_after (env (i + j)), re_sleep_ctx (env (i + j))}"
  using assms
proof (induction n arbitrary: i st evs)
  case (Suc n)
  obtain r evs1 st1 where one: "poll_round verify sink pt (env i) st = (r, evs1, st1)" by (metis surj_pair)
  show ?case
  proof (cases r)
    case None
    then obtain evs2 where "poll_run verify sink pt env n (Suc i) st1 = (Some c, evs2, st')"
      using Suc.prems one by (auto split: prod.split_asm)
    from Suc.IH [OF this] obtain j where
      "j < n" "Some c \<in> {re_ctx_start (env (Suc i + j)), re_ctx_after (env (Suc i + j)), re_sleep_ctx (env (Suc i + j))}" by auto
    then show ?thesis by (intro exI [of _ "Suc j"]) simp
  next
    case (Some c')
    then have "c' = c" using Suc.prems one by simp
    with Some one poll_round_result [of verify sink pt "env i" st]
    show ?thesis by (intro exI [of _ 0]) simp
  qed
qed simp

text \<open>
  Claim C34: \<open>Run\<close> returns exactly because of its context. Whatever the responses, the verifier and the
  sink do, once the context is done at the start of round \<open>k\<close> (counted from where it stands) \<open>Run\<close> has returned
  by then, with an error its context gave in one of these rounds, and has sent or waited for nothing more; and as
  long as the context gives no error it does not return.
\<close>

theorem run_returns:
  assumes "re_ctx_start (env (i + k)) = Some c"
  shows "(\<exists>e evs st' j. j \<le> k \<and> (\<forall>n > k. poll_run verify sink pt env n i st = (Some e, evs, st'))
      \<and> Some e \<in> {re_ctx_start (env (i + j)), re_ctx_after (env (i + j)), re_sleep_ctx (env (i + j))})
    \<and> ((\<forall>j < k. re_ctx_start (env (i + j)) = None \<and> re_ctx_after (env (i + j)) = None \<and> re_sleep_ctx (env (i + j)) = None)
        \<longrightarrow> fst (poll_run verify sink pt env k i st) = None)"
proof -
  obtain r evs st' where run: "poll_run verify sink pt env k i st = (r, evs, st')" by (metis surj_pair)
  have stop: "poll_run verify sink pt env m (i + k) s = (Some c, [], s)" if "0 < m" for m s
    using that assms by (cases m) (simp_all add: poll_round_def)
  have "poll_run verify sink pt env n i st = (Some (case r of None \<Rightarrow> c | Some e \<Rightarrow> e), evs, st')" if "k < n" for n
  proof -
    from that obtain m where "n = k + m" "0 < m" by (metis less_imp_add_positive)
    then show ?thesis using stop by (simp add: poll_run_add run split: option.split)
  qed
  moreover have "\<exists>j \<le> k. Some (case r of None \<Rightarrow> c | Some e \<Rightarrow> e)
      \<in> {re_ctx_start (env (i + j)), re_ctx_after (env (i + j)), re_sleep_ctx (env (i + j))}"
  proof (cases r)
    case None
    then show ?thesis using assms by auto
  next
    case (Some e)
    with run poll_run_result [of verify sink pt env k i st e evs st'] show ?thesis by (metis less_imp_le_nat option.simps(5))
  qed
  moreover have "r = None" if "\<forall>j < k. re_ctx_start (env (i + j)) = None \<and> re_ctx_after (env (i + j)) = None \<and> re_sleep_ctx (env (i + j)) = None"
    using that run poll_run_result [of verify sink pt env k i st _ evs st'] by (cases r) fastforce+
  ultimately show ?thesis by (auto simp: run)
qed

section \<open>Examples\<close>

definition sample_sets :: "(string, string) mapping" where
  "sample_sets = Mapping.update ''a'' ''.k.payload'' Mapping.empty"

definition sample_round :: "post_outcome \<Rightarrow> round_env" where
  "sample_round outcome = \<lparr>re_ctx_start = None, re_outcome = outcome, re_ctx_after = None, re_now = 0, re_jitter = 1 / 2,
     re_sleep_ctx = None, re_enum = (\<lambda>_. [(''a'', ''.k.payload'')]), re_landing = (\<lambda>rs. rs)\<rparr>"

definition sample_state :: "string list poll_state" where
  "sample_state = (start_poller (NewPoller ''https://t.example/poll'' []) [])\<lparr>pl_ack := Some [''j'']\<rparr>"

lemma sample_fails: "round_fails (sample_round (Transport_Error (Opaque ''refused'')))
    \<and> alive (sample_round (Transport_Error (Opaque ''refused'')))"
  by (simp add: round_fails_def alive_def sample_round_def)

lemma sample_poller: "po_error (pl_poller sample_state) = \<lparr>bo_initial = second, bo_max = hour, bo_current = second,
    bo_jitter_pct = 1 / 5\<rparr>"
  "po_no_events (pl_poller sample_state) = \<lparr>bo_initial = second, bo_max = 5 * minute, bo_current = second, bo_jitter_pct = 0\<rparr>"
  by (simp_all add: sample_state_def start_poller_def NewPoller_def defaultErrorBackoffMin_def defaultErrorBackoffMax_def
      defaultErrorBackoffJitterPct_def defaultNoEventsBackoffMin_def defaultNoEventsBackoffMax_def)

theorem poll_accounts_witness:
  "''a'' \<in> set (acked (pt_ack (fst (process (Verify (\<lambda>_. []) toy_jose [''a'', ''k'']) list_sink 1 (\<lambda>_. [(''a'', ''.k.payload'')])
     (\<lambda>rs. rs) \<lparr>pr_sets = Some sample_sets, pr_more_available = None\<rparr> []))))"
proof -
  let ?verify = "Verify (\<lambda>_. []) toy_jose [''a'', ''k'']"
  obtain oc s' where run: "process ?verify list_sink 1 (\<lambda>_. [(''a'', ''.k.payload'')]) (\<lambda>rs. rs)
      \<lparr>pr_sets = Some sample_sets, pr_more_available = None\<rparr> [] = (oc, s')" by (metis surj_pair)
  have enum: "\<forall>j w. (j, w) \<in> set [(''a'', ''.k.payload'')] \<longleftrightarrow> Mapping.lookup sample_sets j = Some w"
    by (auto simp: sample_sets_def mapping_simps)
  have "Mapping.lookup sample_sets ''a'' = Some ''.k.payload''" by (simp add: sample_sets_def mapping_simps)
  with poll_accounts [OF run _ refl enum] have "''a'' \<in> set (acked (pt_ack oc))"
    by (fastforce simp: toy_verifies list_sink_def)
  then show ?thesis by (simp add: run)
qed

theorem acks_survive_witness:
  "pl_ack (snd (snd (poll_run Inr list_sink Map.empty (\<lambda>_. sample_round (Transport_Error (Opaque ''refused''))) 3 0 sample_state)))
     = Some [''j'']"
proof -
  obtain r evs st' where "poll_run Inr list_sink Map.empty (\<lambda>_. sample_round (Transport_Error (Opaque ''refused''))) 3 0 sample_state
      = (r, evs, st')" by (metis surj_pair)
  with acks_survive [OF this] sample_fails show ?thesis by (simp add: sample_state_def)
qed

theorem error_backoff_witness:
  "length (waits (fst (snd (poll_run Inr list_sink Map.empty (\<lambda>_. sample_round (Transport_Error (Opaque ''refused''))) 3 0 sample_state))))
     = 3"
proof -
  obtain r evs st' where run: "poll_run Inr list_sink Map.empty (\<lambda>_. sample_round (Transport_Error (Opaque ''refused''))) 3 0
      sample_state = (r, evs, st')" by (metis surj_pair)
  have "retry_hint Map.empty (sample_round (Transport_Error (Opaque ''refused''))) = 0"
    by (simp add: retry_hint_def sample_round_def)
  then have "length (waits evs) = 3"
    using error_backoff [OF run _ sample_poller(1), of 0] sample_fails
    by (simp add: backoff_ok_def backoff_at_def int64_def sample_round_def)
  then show ?thesis by (simp add: run)
qed

text \<open>An empty response, three times.\<close>

definition empty_response :: post_outcome where
  "empty_response = Response 200 [] ''{}''"

lemma sample_empty: "round_empty (sample_round empty_response) \<and> alive (sample_round empty_response)"
proof -
  have "parse_prefix ''{}'' = Some (mk_obj [], [])"
    using parse_prefix_jprint [of "mk_obj []" "[]"] by (simp add: mk_obj_def)
  then have "decode_stream dec_poll_response ''{}'' = Inr \<lparr>pr_sets = None, pr_more_available = None\<rparr>"
    by (simp add: decode_stream_def dec_poll_response_def dec_struct_mk_obj)
  then show ?thesis
    by (simp add: round_empty_def alive_def sample_round_def empty_response_def ok_status_def)
qed

theorem empty_backoff_witness:
  "waits (fst (snd (poll_run Inr list_sink Map.empty (\<lambda>_. sample_round empty_response) 3 0 sample_state)))
     = [second, 2 * second, 4 * second]"
proof -
  obtain r evs st' where run: "poll_run Inr list_sink Map.empty (\<lambda>_. sample_round empty_response) 3 0 sample_state
      = (r, evs, st')" by (metis surj_pair)
  from empty_backoff [OF run _ sample_poller(2), of 0] sample_empty show ?thesis
    by (simp add: run backoff_ok_def backoff_at_def int64_def upt_conv_Cons)
qed

text \<open>A context that is cancelled before the third round.\<close>

theorem run_returns_witness:
  "fst (poll_run Inr list_sink Map.empty (\<lambda>j. (sample_round (Transport_Error (Opaque ''refused'')))
      \<lparr>re_ctx_start := (if j < 2 then None else Some Canceled)\<rparr>) 10 0 sample_state) = Some Canceled"
proof -
  let ?env = "\<lambda>j. (sample_round (Transport_Error (Opaque ''refused'')))\<lparr>re_ctx_start := (if j < 2 then None else Some Canceled)\<rparr>"
  note run_returns [of ?env 0 2 Canceled Inr list_sink Map.empty sample_state]
  moreover have "re_ctx_after (?env (0 + j)) = None" "re_sleep_ctx (?env (0 + j)) = None"
    "re_ctx_start (?env (0 + j)) \<in> {None, Some Canceled}" for j :: nat
    by (simp_all add: sample_round_def)
  ultimately show ?thesis by (fastforce simp: less_eq_Suc_le)
qed

end
