(* ===== verification/Poll_Link.thy ===== *)
theory Poll_Link
  imports Poller
begin

text \<open>
  Poll delivery as an interface: what a poller may expect of the endpoint it polls, as a locale, and what the loop of
  \<open>Run\<close> achieves against any endpoint that keeps it. The environment of a round is that of \<open>Poller\<close>, but for the
  outcome of the POST, which is what the endpoint answers.
\<close>

section \<open>A poller and an endpoint\<close>

definition request_of :: "'s poll_state \<Rightarrow> poll_post" where
  "request_of st = buildRequest (pl_poller st) (pl_ack st) (pl_set_errs st)"

text \<open>The states of both ends after \<open>n\<close> rounds, and the environment that round \<open>n\<close> meets.\<close>

fun linked ::
  "(poll_post \<Rightarrow> 't \<Rightarrow> post_outcome \<times> 't) \<Rightarrow> (string \<Rightarrow> string result) \<Rightarrow> 's sink \<Rightarrow> (string \<Rightarrow> int option)
     \<Rightarrow> (nat \<Rightarrow> round_env) \<Rightarrow> 's poll_state \<times> 't \<Rightarrow> nat \<Rightarrow> 's poll_state \<times> 't" where
  "linked ex verify sink pt env x 0 = x"
| "linked ex verify sink pt env x (Suc n) =
     (case linked ex verify sink pt env x n of
        (st, t) \<Rightarrow> (case ex (request_of st) t of
           (outcome, t') \<Rightarrow> (snd (snd (poll_round verify sink pt ((env n)\<lparr>re_outcome := outcome\<rparr>) st)), t')))"

definition linked_env ::
  "(poll_post \<Rightarrow> 't \<Rightarrow> post_outcome \<times> 't) \<Rightarrow> (string \<Rightarrow> string result) \<Rightarrow> 's sink \<Rightarrow> (string \<Rightarrow> int option)
     \<Rightarrow> (nat \<Rightarrow> round_env) \<Rightarrow> 's poll_state \<times> 't \<Rightarrow> nat \<Rightarrow> round_env" where
  "linked_env ex verify sink pt env x n =
     (case linked ex verify sink pt env x n of (st, t) \<Rightarrow> (env n)\<lparr>re_outcome := fst (ex (request_of st) t)\<rparr>)"

text \<open>A quiet environment: no cancellation; every map is enumerated, and every result of parallel delivery lands.\<close>

definition enumerates :: "((string, string) mapping \<Rightarrow> (string \<times> string) list) \<Rightarrow> bool" where
  "enumerates f \<longleftrightarrow> (\<forall>m. finite (Mapping.keys m) \<longrightarrow>
     distinct (map fst (f m)) \<and> (\<forall>j w. (j, w) \<in> set (f m) \<longleftrightarrow> Mapping.lookup m j = Some w))"

definition quiet :: "round_env \<Rightarrow> bool" where
  "quiet e \<longleftrightarrow> alive e \<and> enumerates (re_enum e) \<and> (\<forall>rs. mset (re_landing e rs) = mset rs)"

lemma alive_round: "alive e \<Longrightarrow> fst (poll_round verify sink pt e st) = None"
  using poll_round_result [of verify sink pt e st] by (auto simp: alive_def)

text \<open>The linked rounds are those of \<open>Run\<close>.\<close>

lemma linked_is_run:
  assumes "\<forall>n. alive (env n)"
  shows "\<exists>evs. poll_run verify sink pt (linked_env ex verify sink pt env (st, t)) n 0 st
    = (None, evs, fst (linked ex verify sink pt env (st, t) n))"
proof (induction n)
  case (Suc n)
  define le where "le = linked_env ex verify sink pt env (st, t)"
  obtain st1 t1 where l: "linked ex verify sink pt env (st, t) n = (st1, t1)" by (metis surj_pair)
  from Suc l obtain evs where "poll_run verify sink pt le n 0 st = (None, evs, st1)" by (auto simp: le_def)
  moreover have "alive (le n)" using assms by (simp add: le_def linked_env_def alive_def split: prod.split)
  then obtain evs1 st2 where "poll_round verify sink pt (le n) st1 = (None, evs1, st2)"
    using alive_round by (metis prod.collapse)
  moreover have "fst (linked ex verify sink pt env (st, t) (Suc n)) = snd (snd (poll_round verify sink pt (le n) st1))"
    by (simp add: l le_def linked_env_def case_prod_beta)
  moreover have "poll_run verify sink pt le (Suc n) 0 st
      = (case poll_run verify sink pt le n 0 st of
           (Some c, evs, st') \<Rightarrow> (Some c, evs, st')
         | (None, evs, st') \<Rightarrow> (case poll_run verify sink pt le 1 n st' of (r, evs', st'') \<Rightarrow> (r, evs @ evs', st'')))"
    using poll_run_add [of verify sink pt le n 1 0 st] by (simp only: Suc_eq_plus1 add_0)
  ultimately show ?case unfolding le_def [symmetric] by simp
qed simp

section \<open>A round that gets an answer\<close>

definition same_setup :: "poller \<Rightarrow> poller \<Rightarrow> bool" where
  "same_setup p q \<longleftrightarrow> po_endpoint p = po_endpoint q \<and> po_authz p = po_authz q
     \<and> po_max_events p = po_max_events q \<and> po_parallelism p = po_parallelism q"

lemma answered_round:
  assumes "alive e" and "re_outcome e = Response 200 ra body" and "decode_stream dec_poll_response body = Inr resp"
    and "process verify sink (po_parallelism (pl_poller st)) (re_enum e) (re_landing e) resp (pl_sink st) = (oc, s')"
    and "st' = snd (snd (poll_round verify sink pt e st))"
  shows "pl_ack st' = pt_ack oc" "pl_set_errs st' = pt_set_errs oc" "pl_sink st' = s'"
    "same_setup (pl_poller st') (pl_poller st)"
proof -
  have "pollOnce verify sink pt (pl_poller st) e (pl_ack st) (pl_set_errs st) (pl_sink st) = (oc, None, s')"
    using assms by (simp add: pollOnce_def)
  moreover have "pt_retry_after oc = 0"
    using assms(4) by (auto simp: process_def Let_def zero_outcome_def split: if_splits prod.splits)
  ultimately show "pl_ack st' = pt_ack oc" "pl_set_errs st' = pt_set_errs oc" "pl_sink st' = s'"
    "same_setup (pl_poller st') (pl_poller st)"
    using assms(1)
    by (auto simp: assms(5) poll_round_def alive_def Let_def poll_sleep_def same_setup_def split: prod.split)
qed

lemma process_nothing:
  assumes "process verify sink par enum landing pr s = (oc, s')" and "pr_sets pr = Some sets" and "Mapping.keys sets = {}"
  shows "acked (pt_ack oc) = [] \<and> reported (pt_set_errs oc) = Mapping.empty \<and> s' = s"
proof -
  have "Mapping.is_empty sets" using assms(3) by (simp add: Mapping.is_empty_def)
  then show ?thesis using assms(1,2) by (auto simp: process_def Let_def zero_outcome_def)
qed

text \<open>What every round leaves alone.\<close>

lemma err_fold_finite: "finite (Mapping.keys (reported errs)) \<Longrightarrow> finite (Mapping.keys (reported (fold err_step rs errs)))"
  by (induction rs arbitrary: errs) (simp_all add: err_step_def)

lemma pollOnce_finite:
  assumes "pollOnce verify sink pt p e ack errs s = (oc, None, s')"
  shows "finite (Mapping.keys (reported (pt_set_errs oc)))"
  using assms err_fold_finite [of None]
  by (auto simp: pollOnce_def process_def Let_def zero_outcome_def collect_errs_fold
      split: post_outcome.splits sum.splits prod.splits if_splits)

lemma poll_round_keeps:
  "same_setup (pl_poller (snd (snd (poll_round verify sink pt e st)))) (pl_poller st)"
  "finite (Mapping.keys (reported (pl_set_errs st)))
    \<Longrightarrow> finite (Mapping.keys (reported (pl_set_errs (snd (snd (poll_round verify sink pt e st))))))"
  using pollOnce_finite [of verify sink pt "pl_poller st" e "pl_ack st" "pl_set_errs st" "pl_sink st"]
  by (auto simp: poll_round_def Let_def poll_sleep_def same_setup_def split: option.splits prod.splits)

lemma linked_keeps:
  assumes "finite (Mapping.keys (reported (pl_set_errs st)))"
  shows "same_setup (pl_poller (fst (linked ex verify sink pt env (st, t) n))) (pl_poller st)
    \<and> finite (Mapping.keys (reported (pl_set_errs (fst (linked ex verify sink pt env (st, t) n)))))"
proof (induction n)
  case (Suc n)
  obtain st1 t1 where l: "linked ex verify sink pt env (st, t) n = (st1, t1)" by (metis surj_pair)
  define e where "e = (env n)\<lparr>re_outcome := fst (ex (request_of st1) t1)\<rparr>"
  have "fst (linked ex verify sink pt env (st, t) (Suc n)) = snd (snd (poll_round verify sink pt e st1))"
    by (simp add: l e_def case_prod_beta)
  with Suc poll_round_keeps [where verify = verify and sink = sink and pt = pt and e = e and st = st1] l show ?case by (simp add: same_setup_def)
qed (use assms in \<open>simp add: same_setup_def\<close>)

section \<open>The interface\<close>

text \<open>
  An endpoint has a queue of SETs, a set of ids it waits an acknowledgement for, and a table of reported errors. A
  request it accepts is answered with the oldest SETs of the queue, at most as many as asked for, after the request's
  acknowledgements and reports were taken in.
\<close>

definition asked_for :: "poll_post \<Rightarrow> nat" where
  "asked_for post = (case pq_max_events (pp_body post) of None \<Rightarrow> 0 | Some m \<Rightarrow> nat m)"

definition overlay :: "(string, set_err) mapping \<Rightarrow> (string \<Rightarrow> set_err option) \<Rightarrow> string \<Rightarrow> set_err option" where
  "overlay m f j = (case Mapping.lookup m j of None \<Rightarrow> f j | Some e \<Rightarrow> Some e)"

text \<open>
  What is so when the first \<open>k\<close> SETs of \<open>P\<close> have been handed over: \<open>s0\<close> is the sink's state at the start, and the last
  arguments are the endpoint's. The acknowledgements and reports of the latest batch are still with the poller.
\<close>

definition handed_over ::
  "(string \<Rightarrow> string result) \<Rightarrow> 's sink \<Rightarrow> 's \<Rightarrow> (string \<times> string) list \<Rightarrow> nat \<Rightarrow> 's poll_state
     \<Rightarrow> (string \<times> string) list \<Rightarrow> string set \<Rightarrow> (string \<Rightarrow> set_err option) \<Rightarrow> bool" where
  "handed_over verify sink s0 P k st que out rep \<longleftrightarrow> que = drop k P
     \<and> (\<exists>es. mset es = mset (take k P) \<and> pl_sink st = fold (\<lambda>p s. snd (sink p s)) (verified verify es) s0)
     \<and> (\<forall>(j, w) \<in> set (take k P). answered verify sink w (j \<notin> out - set (acked (pl_ack st)))
          (overlay (reported (pl_set_errs st)) rep j))
     \<and> (\<forall>j \<in> fst ` set (drop k P). overlay (reported (pl_set_errs st)) rep j = None)"

lemma verified_append [simp]: "verified verify (xs @ ys) = verified verify xs @ verified verify ys"
  by (simp add: verified_def)

lemma overlay_other: "j \<notin> Mapping.keys m \<Longrightarrow> overlay m f j = f j"
  by (simp add: overlay_def lookup_None_keys [symmetric])

locale poll_endpoint =
  fixes exchange :: "poll_post \<Rightarrow> 't \<Rightarrow> post_outcome \<times> 't"
    and accepts :: "poll_post \<Rightarrow> bool"
    and ready :: "'t \<Rightarrow> bool"
    and queue :: "'t \<Rightarrow> (string \<times> string) list"
    and outstanding :: "'t \<Rightarrow> string set"
    and reports :: "'t \<Rightarrow> string \<Rightarrow> set_err option"
  assumes queue_ids: "ready t \<Longrightarrow> distinct (map fst (queue t))"
    and answers: "accepts post \<Longrightarrow> ready t \<Longrightarrow>
      \<exists>ra body resp sets. fst (exchange post t) = Response 200 ra body
        \<and> decode_stream dec_poll_response body = Inr resp \<and> pr_sets resp = Some sets \<and> finite (Mapping.keys sets)
        \<and> (\<forall>j w. Mapping.lookup sets j = Some w \<longleftrightarrow> (j, w) \<in> set (take (asked_for post) (queue t)))"
    and stays_ready: "accepts post \<Longrightarrow> ready t \<Longrightarrow> ready (snd (exchange post t))"
    and dequeues: "accepts post \<Longrightarrow> ready t \<Longrightarrow> queue (snd (exchange post t)) = drop (asked_for post) (queue t)"
    and takes_acks: "accepts post \<Longrightarrow> ready t \<Longrightarrow> outstanding (snd (exchange post t))
      = (outstanding t - set (acked (pq_ack (pp_body post)))) \<union> fst ` set (take (asked_for post) (queue t))"
    and takes_reports: "accepts post \<Longrightarrow> ready t \<Longrightarrow>
      reports (snd (exchange post t)) = overlay (reported (pq_set_errs (pp_body post))) (reports t)"
begin

text \<open>What a round does to both ends, the batch being the oldest SETs of the queue.\<close>

lemma one_round:
  assumes "quiet e" and "accepts (request_of st)" and "ready t"
    and "exchange (request_of st) t = (outcome, t')"
    and "st' = snd (snd (poll_round verify sink pt (e\<lparr>re_outcome := outcome\<rparr>) st))"
    and "batch = take (nat (po_max_events (pl_poller st))) (queue t)"
  shows "same_setup (pl_poller st') (pl_poller st)"
    and "\<exists>es. mset es = mset batch \<and> pl_sink st' = fold (\<lambda>p s. snd (sink p s)) (verified verify es) (pl_sink st)"
    and "set (acked (pl_ack st')) \<union> Mapping.keys (reported (pl_set_errs st')) \<subseteq> fst ` set batch"
    and "(j, w) \<in> set batch \<Longrightarrow>
      answered verify sink w (j \<in> set (acked (pl_ack st'))) (Mapping.lookup (reported (pl_set_errs st')) j)"
proof -
  have asked: "asked_for (request_of st) = nat (po_max_events (pl_poller st))"
    by (simp add: asked_for_def request_of_def buildRequest_def)
  obtain ra body resp sets where o: "outcome = Response 200 ra body"
    and d: "decode_stream dec_poll_response body = Inr resp" "pr_sets resp = Some sets" "finite (Mapping.keys sets)"
    and look: "\<forall>j w. Mapping.lookup sets j = Some w \<longleftrightarrow> (j, w) \<in> set batch"
    using answers [OF assms(2,3)] unfolding assms(4) asked assms(6) by auto
  let ?e = "e\<lparr>re_outcome := outcome\<rparr>"
  obtain oc s' where run: "process verify sink (po_parallelism (pl_poller st)) (re_enum e) (re_landing e) resp (pl_sink st) = (oc, s')"
    by (metis surj_pair)
  have e: "alive ?e" "re_outcome ?e = Response 200 ra body" "re_enum ?e = re_enum e" "re_landing ?e = re_landing e"
    using assms(1) by (simp_all add: quiet_def alive_def o)
  note p = answered_round [OF e(1,2) d(1), unfolded e(3,4), OF run assms(5)]
  have enum: "distinct (map fst (re_enum e sets))"
    "\<forall>j w. (j, w) \<in> set (re_enum e sets) \<longleftrightarrow> Mapping.lookup sets j = Some w" and land: "\<forall>rs. mset (re_landing e rs) = mset rs"
    using assms(1) d(3) by (simp_all add: quiet_def enumerates_def)
  note acc = process_accounts [OF run d(2) refl enum(2,1) land]
  have keys: "Mapping.keys sets = fst ` set batch"
    using look by (force simp: keys_dom_lookup)
  show "same_setup (pl_poller st') (pl_poller st)" by (rule p(4))
  have "distinct batch" using queue_ids [OF assms(3)] assms(6) by (metis distinct_map distinct_take take_map)
  moreover have "distinct (re_enum e sets)" using enum(1) by (metis distinct_map)
  moreover have "set (re_enum e sets) = set batch" using enum(2) look by auto
  ultimately have "mset (re_enum e sets) = mset batch" using set_eq_iff_mset_eq_distinct by blast
  then show "\<exists>es. mset es = mset batch \<and> pl_sink st' = fold (\<lambda>p s. snd (sink p s)) (verified verify es) (pl_sink st)"
    using acc p(3) by auto
  show "set (acked (pl_ack st')) \<union> Mapping.keys (reported (pl_set_errs st')) \<subseteq> fst ` set batch"
    using acc p(1,2) keys by simp
  show "answered verify sink w (j \<in> set (acked (pl_ack st'))) (Mapping.lookup (reported (pl_set_errs st')) j)"
    if "(j, w) \<in> set batch" using acc p(1,2) look that by simp
qed

lemma handed_over_round:
  assumes "quiet e" and "accepts (request_of st)" and "ready t"
    and "exchange (request_of st) t = (outcome, t')"
    and "st' = snd (snd (poll_round verify sink pt (e\<lparr>re_outcome := outcome\<rparr>) st))"
    and "distinct (map fst P)"
    and "handed_over verify sink s0 P k st (queue t) (outstanding t) (reports t)"
  shows "handed_over verify sink s0 P (k + nat (po_max_events (pl_poller st))) st' (queue t') (outstanding t') (reports t')"
proof -
  define m where "m = nat (po_max_events (pl_poller st))"
  define batch where "batch = take m (queue t)"
  note one = one_round [OF assms(1-5) batch_def [unfolded m_def]]
  have q: "queue t = drop k P" and old: "\<And>j w. (j, w) \<in> set (take k P) \<Longrightarrow> answered verify sink w
        (j \<notin> outstanding t - set (acked (pl_ack st))) (overlay (reported (pl_set_errs st)) (reports t) j)"
    and todo: "\<And>j. j \<in> fst ` set (drop k P) \<Longrightarrow> overlay (reported (pl_set_errs st)) (reports t) j = None"
    using assms(7) by (auto simp: handed_over_def)
  have split: "take (k + m) P = take k P @ batch" "P = (take k P @ batch) @ drop (k + m) P"
    by (simp_all add: batch_def q take_add [symmetric])
  have apart: "fst ` set (take k P) \<inter> fst ` set batch = {}" "fst ` set (drop (k + m) P) \<inter> fst ` set batch = {}"
  proof -
    have "distinct (map fst ((take k P @ batch) @ drop (k + m) P))" by (simp only: split(2) [symmetric] assms(6))
    then show "fst ` set (take k P) \<inter> fst ` set batch = {}" "fst ` set (drop (k + m) P) \<inter> fst ` set batch = {}"
      by auto
  qed
  have asked: "asked_for (request_of st) = m"
    and body: "pq_ack (pp_body (request_of st)) = pl_ack st" "pq_set_errs (pp_body (request_of st)) = pl_set_errs st"
    by (simp_all add: m_def asked_for_def request_of_def buildRequest_def)
  have out: "outstanding t' = (outstanding t - set (acked (pl_ack st))) \<union> fst ` set batch"
    and rep: "reports t' = overlay (reported (pl_set_errs st)) (reports t)"
    and que: "queue t' = drop (k + m) P"
    using takes_acks [OF assms(2,3)] takes_reports [OF assms(2,3)] dequeues [OF assms(2,3)]
    by (simp_all add: assms(4) asked body batch_def q add.commute)
  have view: "overlay (reported (pl_set_errs st')) (reports t') j = overlay (reported (pl_set_errs st)) (reports t) j"
    if "j \<notin> fst ` set batch" for j
    using one(3) that by (auto simp: rep intro: overlay_other)
  have ans: "answered verify sink w (j \<notin> outstanding t' - set (acked (pl_ack st'))) (overlay (reported (pl_set_errs st')) (reports t') j)"
    if mem: "(j, w) \<in> set (take k P @ batch)" for j w
  proof (cases "(j, w) \<in> set batch")
    case True
    then have "j \<in> fst ` set (drop k P)" by (metis batch_def q image_eqI fst_conv in_set_takeD)
    then have "overlay (reported (pl_set_errs st')) (reports t') j = Mapping.lookup (reported (pl_set_errs st')) j"
      using todo by (simp add: overlay_def rep split: option.split)
    moreover have "j \<in> outstanding t'" using True by (force simp: out)
    ultimately show ?thesis using one(4) [OF True] by simp
  next
    case False
    then have prev: "(j, w) \<in> set (take k P)" using mem by simp
    then have "j \<notin> fst ` set batch" using apart(1) by force
    moreover from this have "j \<in> outstanding t' - set (acked (pl_ack st')) \<longleftrightarrow> j \<in> outstanding t - set (acked (pl_ack st))"
      using one(3) by (auto simp: out)
    ultimately show ?thesis using old [OF prev] view by simp
  qed
  have taken: "\<exists>es. mset es = mset (take k P @ batch)
      \<and> pl_sink st' = fold (\<lambda>p s. snd (sink p s)) (verified verify es) s0"
  proof -
    obtain es where "mset es = mset (take k P)" "pl_sink st = fold (\<lambda>p s. snd (sink p s)) (verified verify es) s0"
      using assms(7) by (auto simp: handed_over_def)
    with one(2) show ?thesis by (metis fold_append comp_apply mset_append verified_append)
  qed
  have later: "overlay (reported (pl_set_errs st')) (reports t') j = None" if "j \<in> fst ` set (drop (k + m) P)" for j
  proof -
    have "j \<notin> fst ` set batch" using that apart(2) by blast
    moreover have "set (drop (k + m) P) \<subseteq> set (drop k P)" by (rule set_drop_subset_set_drop) simp
    then have "j \<in> fst ` set (drop k P)" using that by blast
    ultimately show ?thesis using view todo by simp
  qed
  show ?thesis unfolding handed_over_def m_def [symmetric] split(1) que
  proof (intro conjI ballI refl taken)
    show "case p of (j, w) \<Rightarrow> answered verify sink w (j \<notin> outstanding t' - set (acked (pl_ack st')))
        (overlay (reported (pl_set_errs st')) (reports t') j)" if "p \<in> set (take k P @ batch)" for p
      using ans [of "fst p" "snd p"] that by (simp only: case_prod_beta prod.collapse)
  qed (rule later)
qed

text \<open>After \<open>n\<close> rounds, each of which asks for \<open>m\<close> SETs.\<close>

lemma linked_handed_over:
  assumes "\<forall>n. quiet (env n)" and "ready t"
    and "acked (pl_ack st) = []" and "reported (pl_set_errs st) = Mapping.empty"
    and "\<forall>j \<in> fst ` set (queue t). reports t j = None" and "m = nat (po_max_events (pl_poller st))"
    and "\<forall>i < n. accepts (request_of (fst (linked exchange verify sink pt env (st, t) i)))"
    and "linked exchange verify sink pt env (st, t) n = (st', t')"
  shows "ready t' \<and> m = nat (po_max_events (pl_poller st'))
    \<and> handed_over verify sink (pl_sink st) (queue t) (n * m) st' (queue t') (outstanding t') (reports t')
    \<and> set (acked (pl_ack st')) \<union> Mapping.keys (reported (pl_set_errs st')) \<subseteq> fst ` set (drop ((n - 1) * m) (queue t))"
  using assms(7,8)
proof (induction n arbitrary: st' t')
  case 0
  then show ?case using assms(2-6) by (auto simp: handed_over_def overlay_def lookup_empty verified_def intro: exI [of _ "[]"])
next
  case (Suc n)
  obtain st1 t1 where l: "linked exchange verify sink pt env (st, t) n = (st1, t1)" by (metis surj_pair)
  obtain outcome t2 where ex: "exchange (request_of st1) t1 = (outcome, t2)" by (metis surj_pair)
  have st': "st' = snd (snd (poll_round verify sink pt ((env n)\<lparr>re_outcome := outcome\<rparr>) st1))" and t': "t' = t2"
    using Suc.prems(2) by (simp_all add: l ex)
  have q: "quiet (env n)" and acc: "accepts (request_of st1)" using assms(1) Suc.prems(1) l by (simp, force)
  from Suc.IH [OF _ l] Suc.prems(1) have ih: "ready t1" "m = nat (po_max_events (pl_poller st1))"
    "handed_over verify sink (pl_sink st) (queue t) (n * m) st1 (queue t1) (outstanding t1) (reports t1)" by auto
  note one = one_round [OF q acc ih(1) ex st' refl]
  have "handed_over verify sink (pl_sink st) (queue t) (Suc n * m) st' (queue t') (outstanding t') (reports t')"
    using handed_over_round [OF q acc ih(1) ex st' queue_ids [OF assms(2)] ih(3)] ih(2) t' by (simp add: add.commute)
  moreover have "ready t'" using stays_ready [OF acc ih(1)] by (simp add: ex t')
  moreover have "po_max_events (pl_poller st') = po_max_events (pl_poller st1)" using one(1) by (simp add: same_setup_def)
  moreover have "queue t1 = drop (n * m) (queue t)" using ih(3) by (simp add: handed_over_def)
  then have "fst ` set (take m (queue t1)) \<subseteq> fst ` set (drop (n * m) (queue t))"
    using set_take_subset [of m "queue t1"] by auto
  then have "set (acked (pl_ack st')) \<union> Mapping.keys (reported (pl_set_errs st')) \<subseteq> fst ` set (drop ((Suc n - 1) * m) (queue t))"
    using one(3) ih(2) by auto
  ultimately show ?case using ih(2) by simp
qed

text \<open>When the queue has been asked for in full and one more round was made, everything is settled.\<close>

lemma linked_settles:
  assumes "\<forall>n. quiet (env n)" and "ready t"
    and "acked (pl_ack st) = []" and "reported (pl_set_errs st) = Mapping.empty"
    and "\<forall>j \<in> fst ` set (queue t). reports t j = None"
    and "\<forall>i < n. accepts (request_of (fst (linked exchange verify sink pt env (st, t) i)))"
    and "linked exchange verify sink pt env (st, t) n = (st', t')"
    and "length (queue t) \<le> r * nat (po_max_events (pl_poller st))" and "r < n"
  shows "queue t' = []"
    and "\<exists>es. mset es = mset (queue t) \<and> pl_sink st' = fold (\<lambda>p s. snd (sink p s)) (verified verify es) (pl_sink st)"
    and "(j, w) \<in> set (queue t) \<Longrightarrow> answered verify sink w (j \<notin> outstanding t') (reports t' j)"
proof -
  let ?m = "nat (po_max_events (pl_poller st))"
  note run = linked_handed_over [OF assms(1-5) refl assms(6,7)]
  have "r * ?m \<le> (n - 1) * ?m" "r * ?m \<le> n * ?m" using assms(9) by (auto intro: mult_le_mono1)
  from this [THEN order_trans [OF assms(8)]] have all: "take (n * ?m) (queue t) = queue t" "drop (n * ?m) (queue t) = []" "drop ((n - 1) * ?m) (queue t) = []"
    by (simp_all only: take_all drop_all)
  then have none: "acked (pl_ack st') = []" "Mapping.keys (reported (pl_set_errs st')) = {}" using run by auto
  then have "overlay (reported (pl_set_errs st')) (reports t') j = reports t' j" for j by (simp add: overlay_other)
  then show "queue t' = []"
    and "\<exists>es. mset es = mset (queue t) \<and> pl_sink st' = fold (\<lambda>p s. snd (sink p s)) (verified verify es) (pl_sink st)"
    and "(j, w) \<in> set (queue t) \<Longrightarrow> answered verify sink w (j \<notin> outstanding t') (reports t' j)"
    using run all(1,2) none(1) by (auto simp: handed_over_def)
qed

end

end
