(* ===== verification/Mem_Store.thy ===== *)
theory Mem_Store
  imports Subject_Key
begin

text \<open>
  The in-memory stream store (\<open>memstore/memstore.go\<close>). Its four maps and the id counter are the
  record \<open>mem_store\<close>; each method holds the store's mutex from beginning to end, so it is one
  function from a store to a result and a store. A nil request is \<open>None\<close>.

  Values are copied in and out, so that a store shares no slice with its caller: in the model the copies are the
  values, which \<open>clone_ids\<close> states of the \<open>clone\<close> functions. What the copies leave shared is the subject of
  \<open>Store_Aliasing\<close>.
\<close>

section \<open>State\<close>

record mem_store =
  ms_streams :: "(string, stream_config) mapping"
  ms_statuses :: "(string, (string, status_response) mapping) mapping"
  ms_subjects :: "(string, string set) mapping"
  ms_queues :: "(string, string list) mapping"
  ms_next_id :: int
  ms_id_seed :: string

text \<open>The seed is eight hexadecimal digits from \<open>crypto/rand\<close>: an argument.\<close>

definition NewInMemoryStore :: "string \<Rightarrow> mem_store" where
  "NewInMemoryStore seed = \<lparr>ms_streams = Mapping.empty, ms_statuses = Mapping.empty,
     ms_subjects = Mapping.empty, ms_queues = Mapping.empty, ms_next_id = 0, ms_id_seed = seed\<rparr>"

section \<open>Copies\<close>

definition cloneRaw :: "string \<Rightarrow> string" where
  "cloneRaw raw = (if length raw = 0 then [] else raw)"

definition cloneStrings :: "string list option \<Rightarrow> string list option" where
  "cloneStrings xs = (case xs of None \<Rightarrow> None | Some ys \<Rightarrow> Some ys)"

definition cloneStreamConfig :: "stream_config \<Rightarrow> stream_config" where
  "cloneStreamConfig cfg = cfg\<lparr>sc_aud := cloneRaw (sc_aud cfg),
     sc_events_supported := cloneStrings (sc_events_supported cfg),
     sc_events_requested := cloneStrings (sc_events_requested cfg),
     sc_events_delivered := cloneStrings (sc_events_delivered cfg)\<rparr>"

definition cloneStatusResponse :: "status_response \<Rightarrow> status_response" where
  "cloneStatusResponse resp = resp\<lparr>sr_subject := cloneRaw (sr_subject resp)\<rparr>"

lemma clone_ids [simp]:
  "cloneRaw raw = raw" "cloneStrings xs = xs" "cloneStreamConfig cfg = cfg" "cloneStatusResponse r = r"
  by (simp_all add: cloneRaw_def cloneStrings_def cloneStreamConfig_def cloneStatusResponse_def
      split: option.split)

section \<open>Operations\<close>

definition store_err :: "string \<Rightarrow> string \<Rightarrow> gerror \<Rightarrow> string \<Rightarrow> gerror" where
  "store_err meth stream_id e post = Wrapf (''memstore: '' @ meth @ '' '' @ quoted stream_id @ '': '') e post"

definition not_found :: "string \<Rightarrow> string \<Rightarrow> gerror" where
  "not_found meth stream_id = store_err meth stream_id (Sentinel ErrStreamNotFound) []"

definition nil_config :: "string \<Rightarrow> gerror" where
  "nil_config meth = Wrapf (''memstore: '' @ meth @ '': '') (Sentinel ErrInvalidConfig) '': nil config''"

definition nil_request :: "string \<Rightarrow> string \<Rightarrow> gerror" where
  "nil_request meth stream_id = store_err meth stream_id (Sentinel ErrInvalidConfig) '': nil request''"

definition minted_id :: "mem_store \<Rightarrow> string" where
  "minted_id s = ''stream-'' @ ms_id_seed s @ ''-'' @ itoa (wrap64 (ms_next_id s + 1))"

definition CreateStream :: "stream_config option \<Rightarrow> mem_store \<Rightarrow> stream_config result \<times> mem_store" where
  "CreateStream c s =
     (case c of
        None \<Rightarrow> (Inl (nil_config ''CreateStream''), s)
      | Some cfg \<Rightarrow>
          if sc_stream_id cfg \<noteq> [] \<and> Mapping.lookup (ms_streams s) (sc_stream_id cfg) \<noteq> None
          then (Inl (store_err ''CreateStream'' (sc_stream_id cfg) (Sentinel ErrInvalidConfig)
                  '': stream_id already in use''), s)
          else
            (let stream_id = (if sc_stream_id cfg = [] then minted_id s else sc_stream_id cfg);
                 next_id = (if sc_stream_id cfg = [] then wrap64 (ms_next_id s + 1) else ms_next_id s);
                 stored = (cloneStreamConfig cfg)\<lparr>sc_stream_id := stream_id\<rparr>;
                 whole = \<lparr>sr_status = StreamStatusEnabled, sr_reason = [], sr_subject = []\<rparr>
             in (Inr (cloneStreamConfig stored),
                 s\<lparr>ms_streams := Mapping.update stream_id stored (ms_streams s),
                   ms_statuses := Mapping.update stream_id (Mapping.update [] whole Mapping.empty) (ms_statuses s),
                   ms_subjects := Mapping.update stream_id {} (ms_subjects s),
                   ms_queues := Mapping.update stream_id [] (ms_queues s),
                   ms_next_id := next_id\<rparr>)))"

definition GetStream :: "string \<Rightarrow> mem_store \<Rightarrow> stream_config result" where
  "GetStream stream_id s =
     (case Mapping.lookup (ms_streams s) stream_id of
        None \<Rightarrow> Inl (not_found ''GetStream'' stream_id)
      | Some cfg \<Rightarrow> Inr (cloneStreamConfig cfg))"

definition ListStreams :: "string \<Rightarrow> mem_store \<Rightarrow> (stream_config list \<times> string) result" where
  "ListStreams page_token s =
     Inr (map (\<lambda>stream_id. cloneStreamConfig (the (Mapping.lookup (ms_streams s) stream_id)))
            (Mapping.ordered_keys (ms_streams s)), [])"

definition UpdateStream :: "stream_config option \<Rightarrow> mem_store \<Rightarrow> stream_config result \<times> mem_store" where
  "UpdateStream c s =
     (case c of
        None \<Rightarrow> (Inl (nil_config ''UpdateStream''), s)
      | Some cfg \<Rightarrow>
          if Mapping.lookup (ms_streams s) (sc_stream_id cfg) = None
          then (Inl (not_found ''UpdateStream'' (sc_stream_id cfg)), s)
          else
            (let stored = cloneStreamConfig cfg
             in (Inr (cloneStreamConfig stored),
                 s\<lparr>ms_streams := Mapping.update (sc_stream_id cfg) stored (ms_streams s)\<rparr>)))"

definition DeleteStream :: "string \<Rightarrow> mem_store \<Rightarrow> mem_store" where
  "DeleteStream stream_id s = s\<lparr>ms_streams := Mapping.delete stream_id (ms_streams s),
     ms_statuses := Mapping.delete stream_id (ms_statuses s),
     ms_subjects := Mapping.delete stream_id (ms_subjects s),
     ms_queues := Mapping.delete stream_id (ms_queues s)\<rparr>"

definition GetStreamStatus :: "string \<Rightarrow> string \<Rightarrow> mem_store \<Rightarrow> status_response result" where
  "GetStreamStatus stream_id subject s =
     (case Mapping.lookup (ms_statuses s) stream_id of
        None \<Rightarrow> Inl (not_found ''GetStreamStatus'' stream_id)
      | Some bucket \<Rightarrow>
          (case canonicalSubjectKey subject of
             Inl e \<Rightarrow> Inl (store_err ''GetStreamStatus'' stream_id e [])
           | Inr key \<Rightarrow>
               (case Mapping.lookup bucket key of
                  Some resp \<Rightarrow> Inr (cloneStatusResponse resp)
                | None \<Rightarrow>
                    (case Mapping.lookup bucket [] of
                       Some resp \<Rightarrow> Inr ((cloneStatusResponse resp)\<lparr>sr_subject := cloneRaw subject\<rparr>)
                     | None \<Rightarrow> Inr \<lparr>sr_status = StreamStatusEnabled, sr_reason = [],
                         sr_subject = cloneRaw subject\<rparr>))))"

definition SetStreamStatus ::
  "string \<Rightarrow> status_update_request option \<Rightarrow> mem_store \<Rightarrow> status_response result \<times> mem_store" where
  "SetStreamStatus stream_id r s =
     (case r of
        None \<Rightarrow> (Inl (nil_request ''SetStreamStatus'' stream_id), s)
      | Some req \<Rightarrow>
          (case Mapping.lookup (ms_statuses s) stream_id of
             None \<Rightarrow> (Inl (not_found ''SetStreamStatus'' stream_id), s)
           | Some bucket \<Rightarrow>
               (case canonicalSubjectKey (su_subject req) of
                  Inl e \<Rightarrow> (Inl (store_err ''SetStreamStatus'' stream_id e []), s)
                | Inr key \<Rightarrow>
                    (let resp = \<lparr>sr_status = su_status req, sr_reason = su_reason req,
                           sr_subject = cloneRaw (su_subject req)\<rparr>
                     in (Inr (cloneStatusResponse resp),
                         s\<lparr>ms_statuses := Mapping.update stream_id (Mapping.update key resp bucket)
                             (ms_statuses s)\<rparr>)))))"

definition AddSubject ::
  "('sid \<Rightarrow> string option) \<Rightarrow> string \<Rightarrow> 'sid add_subject_request option \<Rightarrow> mem_store
     \<Rightarrow> unit result \<times> mem_store" where
  "AddSubject sid_marshal stream_id r s =
     (case r of
        None \<Rightarrow> (Inl (nil_request ''AddSubject'' stream_id), s)
      | Some req \<Rightarrow>
          (case Mapping.lookup (ms_subjects s) stream_id of
             None \<Rightarrow> (Inl (not_found ''AddSubject'' stream_id), s)
           | Some members \<Rightarrow>
               (case canonicalSubjectKeyFromIdentifier sid_marshal (as_subject req) of
                  Inl e \<Rightarrow> (Inl (store_err ''AddSubject'' stream_id e []), s)
                | Inr key \<Rightarrow>
                    (Inr (), s\<lparr>ms_subjects := Mapping.update stream_id (insert key members) (ms_subjects s)\<rparr>))))"

definition RemoveSubject ::
  "('sid \<Rightarrow> string option) \<Rightarrow> string \<Rightarrow> 'sid remove_subject_request option \<Rightarrow> mem_store
     \<Rightarrow> unit result \<times> mem_store" where
  "RemoveSubject sid_marshal stream_id r s =
     (case r of
        None \<Rightarrow> (Inl (nil_request ''RemoveSubject'' stream_id), s)
      | Some req \<Rightarrow>
          (case Mapping.lookup (ms_subjects s) stream_id of
             None \<Rightarrow> (Inl (not_found ''RemoveSubject'' stream_id), s)
           | Some members \<Rightarrow>
               (case canonicalSubjectKeyFromIdentifier sid_marshal (rs_subject req) of
                  Inl e \<Rightarrow> (Inl (store_err ''RemoveSubject'' stream_id e []), s)
                | Inr key \<Rightarrow>
                    (Inr (), s\<lparr>ms_subjects := Mapping.update stream_id (members - {key}) (ms_subjects s)\<rparr>))))"

definition EnqueueSET :: "string \<Rightarrow> string \<Rightarrow> mem_store \<Rightarrow> unit result \<times> mem_store" where
  "EnqueueSET stream_id jws s =
     (if Mapping.lookup (ms_streams s) stream_id = None then (Inl (not_found ''EnqueueSET'' stream_id), s)
      else (let q = (case Mapping.lookup (ms_queues s) stream_id of None \<Rightarrow> [] | Some q \<Rightarrow> q)
            in (Inr (), s\<lparr>ms_queues := Mapping.update stream_id (q @ [jws]) (ms_queues s)\<rparr>)))"

definition HasSubject :: "('sid \<Rightarrow> string option) \<Rightarrow> string \<Rightarrow> 'sid any_subject \<Rightarrow> mem_store \<Rightarrow> bool result" where
  "HasSubject sid_marshal stream_id subject s =
     (case Mapping.lookup (ms_subjects s) stream_id of
        None \<Rightarrow> Inl (not_found ''HasSubject'' stream_id)
      | Some members \<Rightarrow>
          (case canonicalSubjectKeyFromAny sid_marshal subject of
             Inl e \<Rightarrow> Inl (store_err ''HasSubject'' stream_id e [])
           | Inr key \<Rightarrow> Inr (key \<in> members)))"

definition QueuedSETs :: "string \<Rightarrow> mem_store \<Rightarrow> string list result" where
  "QueuedSETs stream_id s =
     (if Mapping.lookup (ms_streams s) stream_id = None then Inl (not_found ''QueuedSETs'' stream_id)
      else Inr (case Mapping.lookup (ms_queues s) stream_id of None \<Rightarrow> [] | Some q \<Rightarrow> q))"

end
