(* ===== verification/Store_Spec.thy ===== *)
theory Store_Spec
  imports Mem_Store
begin

text \<open>
  What the in-memory store promises, and that it keeps it. The specification is a finite map from
  stream ids to one view per stream; \<open>spec_op\<close> says what each method of \<open>ssf.StreamStore\<close> does
  to it and returns. \<open>exec\<close> runs the methods of \<open>Mem_Store\<close>, \<open>store_reachable\<close> are the stores
  any sequence of calls can lead to, \<open>store_inv\<close> is their invariant, and \<open>exec_refines\<close> the
  simulation. The laws of the interface are the locale \<open>stream_store\<close>.
\<close>

section \<open>Calls\<close>

datatype 'sid store_op =
    OpCreate "stream_config option"
  | OpGet string
  | OpList string
  | OpUpdate "stream_config option"
  | OpDelete string
  | OpGetStatus string string
  | OpSetStatus string "status_update_request option"
  | OpAdd string "'sid add_subject_request option"
  | OpRemove string "'sid remove_subject_request option"
  | OpEnqueue string string
  | OpHas string "'sid any_subject"
  | OpQueued string

datatype store_out =
    OutConfig stream_config
  | OutConfigs "stream_config list" string
  | OutStatus status_response
  | OutBool bool
  | OutQueue "string list"
  | OutUnit
  | OutErr gerror

definition out_of :: "('a \<Rightarrow> store_out) \<Rightarrow> 'a result \<Rightarrow> store_out" where
  "out_of f r = (case r of Inl e \<Rightarrow> OutErr e | Inr a \<Rightarrow> f a)"

fun exec :: "('sid \<Rightarrow> string option) \<Rightarrow> 'sid store_op \<Rightarrow> mem_store \<Rightarrow> store_out \<times> mem_store" where
  "exec sm (OpCreate c) s = map_prod (out_of OutConfig) id (CreateStream c s)"
| "exec sm (OpGet i) s = (out_of OutConfig (GetStream i s), s)"
| "exec sm (OpList tok) s = (out_of (\<lambda>(cs, t). OutConfigs cs t) (ListStreams tok s), s)"
| "exec sm (OpUpdate c) s = map_prod (out_of OutConfig) id (UpdateStream c s)"
| "exec sm (OpDelete i) s = (OutUnit, DeleteStream i s)"
| "exec sm (OpGetStatus i sub) s = (out_of OutStatus (GetStreamStatus i sub s), s)"
| "exec sm (OpSetStatus i r) s = map_prod (out_of OutStatus) id (SetStreamStatus i r s)"
| "exec sm (OpAdd i r) s = map_prod (out_of (\<lambda>_. OutUnit)) id (AddSubject sm i r s)"
| "exec sm (OpRemove i r) s = map_prod (out_of (\<lambda>_. OutUnit)) id (RemoveSubject sm i r s)"
| "exec sm (OpEnqueue i jws) s = map_prod (out_of (\<lambda>_. OutUnit)) id (EnqueueSET i jws s)"
| "exec sm (OpHas i v) s = (out_of OutBool (HasSubject sm i v s), s)"
| "exec sm (OpQueued i) s = (out_of OutQueue (QueuedSETs i s), s)"

inductive store_reachable :: "('sid \<Rightarrow> string option) \<Rightarrow> mem_store \<Rightarrow> bool" for sm where
  new: "store_reachable sm (NewInMemoryStore seed)"
| call: "store_reachable sm s \<Longrightarrow> exec sm op s = (out, s') \<Longrightarrow> store_reachable sm s'"

section \<open>Specification\<close>

record stream_view =
  v_config :: stream_config
  v_status :: "string \<Rightarrow> status_response option"
  v_subjects :: "string set"
  v_queue :: "string list"

type_synonym spec_store = "string \<Rightarrow> stream_view option"

definition fresh_view :: "stream_config \<Rightarrow> stream_view" where
  "fresh_view c = \<lparr>v_config = c,
     v_status = [[] \<mapsto> \<lparr>sr_status = StreamStatusEnabled, sr_reason = [], sr_subject = []\<rparr>],
     v_subjects = {}, v_queue = []\<rparr>"

text \<open>A subject without a status of its own has that of the stream.\<close>

definition status_of :: "stream_view \<Rightarrow> string \<Rightarrow> string \<Rightarrow> status_response" where
  "status_of v key subject =
     (case v_status v key of Some r \<Rightarrow> r | None \<Rightarrow> (the (v_status v []))\<lparr>sr_subject := subject\<rparr>)"

text \<open>Run \<open>f\<close> on the view of a stream, or report that there is none.\<close>

definition on_stream ::
  "string \<Rightarrow> string \<Rightarrow> spec_store \<Rightarrow> (stream_view \<Rightarrow> store_out \<times> spec_store) \<Rightarrow> store_out \<times> spec_store" where
  "on_stream meth i a f =
     (case a i of None \<Rightarrow> (OutErr (not_found meth i), a) | Some v \<Rightarrow> f v)"

definition with_key ::
  "string \<Rightarrow> string \<Rightarrow> spec_store \<Rightarrow> string result \<Rightarrow> (string \<Rightarrow> store_out \<times> spec_store) \<Rightarrow> store_out \<times> spec_store" where
  "with_key meth i a k f = (case k of Inl e \<Rightarrow> (OutErr (store_err meth i e []), a) | Inr key \<Rightarrow> f key)"

fun spec_op ::
  "('sid \<Rightarrow> string option) \<Rightarrow> string \<Rightarrow> 'sid store_op \<Rightarrow> spec_store \<Rightarrow> store_out \<times> spec_store" where
  "spec_op sm mint (OpCreate None) a = (OutErr (nil_config ''CreateStream''), a)"
| "spec_op sm mint (OpCreate (Some c)) a =
     (if sc_stream_id c \<noteq> [] \<and> a (sc_stream_id c) \<noteq> None
      then (OutErr (store_err ''CreateStream'' (sc_stream_id c) (Sentinel ErrInvalidConfig)
              '': stream_id already in use''), a)
      else (let c' = c\<lparr>sc_stream_id := if sc_stream_id c = [] then mint else sc_stream_id c\<rparr>
            in (OutConfig c', a(sc_stream_id c' \<mapsto> fresh_view c'))))"
| "spec_op sm mint (OpGet i) a = on_stream ''GetStream'' i a (\<lambda>v. (OutConfig (v_config v), a))"
| "spec_op sm mint (OpList tok) a =
     (OutConfigs (map (\<lambda>i. v_config (the (a i))) (sorted_list_of_set (dom a))) [], a)"
| "spec_op sm mint (OpUpdate None) a = (OutErr (nil_config ''UpdateStream''), a)"
| "spec_op sm mint (OpUpdate (Some c)) a = on_stream ''UpdateStream'' (sc_stream_id c) a
     (\<lambda>v. (OutConfig c, a(sc_stream_id c \<mapsto> v\<lparr>v_config := c\<rparr>)))"
| "spec_op sm mint (OpDelete i) a = (OutUnit, a(i := None))"
| "spec_op sm mint (OpGetStatus i sub) a = on_stream ''GetStreamStatus'' i a (\<lambda>v.
     with_key ''GetStreamStatus'' i a (canonicalSubjectKey sub) (\<lambda>key. (OutStatus (status_of v key sub), a)))"
| "spec_op sm mint (OpSetStatus i None) a = (OutErr (nil_request ''SetStreamStatus'' i), a)"
| "spec_op sm mint (OpSetStatus i (Some r)) a = on_stream ''SetStreamStatus'' i a (\<lambda>v.
     with_key ''SetStreamStatus'' i a (canonicalSubjectKey (su_subject r)) (\<lambda>key.
       let resp = \<lparr>sr_status = su_status r, sr_reason = su_reason r, sr_subject = su_subject r\<rparr>
       in (OutStatus resp, a(i \<mapsto> v\<lparr>v_status := (v_status v)(key \<mapsto> resp)\<rparr>))))"
| "spec_op sm mint (OpAdd i None) a = (OutErr (nil_request ''AddSubject'' i), a)"
| "spec_op sm mint (OpAdd i (Some r)) a = on_stream ''AddSubject'' i a (\<lambda>v.
     with_key ''AddSubject'' i a (canonicalSubjectKeyFromIdentifier sm (as_subject r)) (\<lambda>key.
       (OutUnit, a(i \<mapsto> v\<lparr>v_subjects := insert key (v_subjects v)\<rparr>))))"
| "spec_op sm mint (OpRemove i None) a = (OutErr (nil_request ''RemoveSubject'' i), a)"
| "spec_op sm mint (OpRemove i (Some r)) a = on_stream ''RemoveSubject'' i a (\<lambda>v.
     with_key ''RemoveSubject'' i a (canonicalSubjectKeyFromIdentifier sm (rs_subject r)) (\<lambda>key.
       (OutUnit, a(i \<mapsto> v\<lparr>v_subjects := v_subjects v - {key}\<rparr>))))"
| "spec_op sm mint (OpEnqueue i jws) a = on_stream ''EnqueueSET'' i a (\<lambda>v.
     (OutUnit, a(i \<mapsto> v\<lparr>v_queue := v_queue v @ [jws]\<rparr>)))"
| "spec_op sm mint (OpHas i subj) a = on_stream ''HasSubject'' i a (\<lambda>v.
     with_key ''HasSubject'' i a (canonicalSubjectKeyFromAny sm subj) (\<lambda>key.
       (OutBool (key \<in> v_subjects v), a)))"
| "spec_op sm mint (OpQueued i) a = on_stream ''QueuedSETs'' i a (\<lambda>v. (OutQueue (v_queue v), a))"

text \<open>The specification a concrete store stands for.\<close>

definition abs_store :: "mem_store \<Rightarrow> spec_store" where
  "abs_store s i =
     (case Mapping.lookup (ms_streams s) i of
        None \<Rightarrow> None
      | Some c \<Rightarrow> Some \<lparr>v_config = c,
          v_status = Mapping.lookup (the (Mapping.lookup (ms_statuses s) i)),
          v_subjects = the (Mapping.lookup (ms_subjects s) i),
          v_queue = the (Mapping.lookup (ms_queues s) i)\<rparr>)"

section \<open>Invariant\<close>

text \<open>
  The four maps have the same finite set of ids; a configuration is filed under its own id, which
  is not empty; every stream has a whole-stream status; a status is filed under the canonical key
  of its subject.
\<close>

definition same_ids :: "mem_store \<Rightarrow> bool" where
  "same_ids s \<longleftrightarrow> finite (Mapping.keys (ms_streams s))
     \<and> Mapping.keys (ms_statuses s) = Mapping.keys (ms_streams s)
     \<and> Mapping.keys (ms_subjects s) = Mapping.keys (ms_streams s)
     \<and> Mapping.keys (ms_queues s) = Mapping.keys (ms_streams s)"

definition bucket_ok :: "(string, status_response) mapping \<Rightarrow> bool" where
  "bucket_ok b \<longleftrightarrow> Mapping.lookup b [] \<noteq> None
     \<and> (\<forall>k r. Mapping.lookup b k = Some r \<longrightarrow> canonicalSubjectKey (sr_subject r) = Inr k)"

definition store_inv :: "mem_store \<Rightarrow> bool" where
  "store_inv s \<longleftrightarrow> same_ids s
     \<and> (\<forall>i c. Mapping.lookup (ms_streams s) i = Some c \<longrightarrow> sc_stream_id c = i \<and> i \<noteq> [])
     \<and> (\<forall>i b. Mapping.lookup (ms_statuses s) i = Some b \<longrightarrow> bucket_ok b)"

lemma same_ids_lookup:
  assumes "same_ids s"
  shows "Mapping.lookup (ms_statuses s) i = None \<longleftrightarrow> Mapping.lookup (ms_streams s) i = None"
    and "Mapping.lookup (ms_subjects s) i = None \<longleftrightarrow> Mapping.lookup (ms_streams s) i = None"
    and "Mapping.lookup (ms_queues s) i = None \<longleftrightarrow> Mapping.lookup (ms_streams s) i = None"
  using assms by (simp_all add: same_ids_def lookup_None_keys)

lemmas op_defs = CreateStream_def GetStream_def ListStreams_def UpdateStream_def DeleteStream_def
  GetStreamStatus_def SetStreamStatus_def AddSubject_def RemoveSubject_def EnqueueSET_def
  HasSubject_def QueuedSETs_def

lemma bucket_ok_new [simp]:
  "bucket_ok (Mapping.update [] \<lparr>sr_status = st, sr_reason = re, sr_subject = []\<rparr> Mapping.empty)"
  by (auto simp: bucket_ok_def mapping_simps canonicalSubjectKey_def)

lemma bucket_ok_update:
  "bucket_ok b \<Longrightarrow> canonicalSubjectKey (sr_subject r) = Inr k \<Longrightarrow> bucket_ok (Mapping.update k r b)"
  by (auto simp: bucket_ok_def mapping_simps)

lemma minted_id_nonempty [simp]: "minted_id s \<noteq> []"
  by (simp add: minted_id_def)

lemma inv_new: "store_inv (NewInMemoryStore seed)"
  by (simp add: store_inv_def NewInMemoryStore_def same_ids_def mapping_simps)

lemma inv_create: "store_inv s \<Longrightarrow> store_inv (snd (CreateStream c s))"
  by (auto simp: store_inv_def same_ids_def CreateStream_def mapping_simps Let_def split: option.split)

lemma inv_update: "store_inv s \<Longrightarrow> store_inv (snd (UpdateStream c s))"
  by (auto simp: store_inv_def same_ids_def UpdateStream_def mapping_simps Let_def
      dest: lookup_Some_keys split: option.split)

lemma inv_delete: "store_inv s \<Longrightarrow> store_inv (DeleteStream i s)"
  by (auto simp: store_inv_def same_ids_def DeleteStream_def mapping_simps split: if_splits)

lemma inv_set_status: "store_inv s \<Longrightarrow> store_inv (snd (SetStreamStatus i r s))"
  by (auto simp: store_inv_def same_ids_def SetStreamStatus_def mapping_simps Let_def bucket_ok_update
      dest: lookup_Some_keys split: option.split sum.split)

lemma inv_subjects:
  "store_inv s \<Longrightarrow> store_inv (snd (AddSubject sm i ra s))"
  "store_inv s \<Longrightarrow> store_inv (snd (RemoveSubject sm i rr s))"
  by (auto simp: store_inv_def same_ids_def AddSubject_def RemoveSubject_def
      dest: lookup_Some_keys split: option.split sum.split)

lemma inv_enqueue: "store_inv s \<Longrightarrow> store_inv (snd (EnqueueSET i jws s))"
  by (auto simp: store_inv_def same_ids_def EnqueueSET_def Let_def dest: lookup_Some_keys)

lemmas inv_ops = inv_create inv_update inv_delete inv_set_status inv_subjects inv_enqueue

lemma exec_inv: "store_inv s \<Longrightarrow> store_inv (snd (exec sm op s))"
  by (cases op) (simp_all add: inv_ops)

lemma reachable_inv: "store_reachable sm s \<Longrightarrow> store_inv s"
proof (induction rule: store_reachable.induct)
  case (call s op out s')
  then show ?case using exec_inv [of s sm op] by simp
qed (rule inv_new)

section \<open>Refinement\<close>

lemma abs_store_None: "abs_store s i = None \<longleftrightarrow> Mapping.lookup (ms_streams s) i = None"
  by (simp add: abs_store_def split: option.split)

lemma abs_store_Some:
  assumes "store_inv s" and "Mapping.lookup (ms_streams s) i = Some c"
  obtains b m q where "Mapping.lookup (ms_statuses s) i = Some b" and "bucket_ok b"
    and "Mapping.lookup (ms_subjects s) i = Some m" and "Mapping.lookup (ms_queues s) i = Some q"
    and "abs_store s i = Some \<lparr>v_config = c, v_status = Mapping.lookup b, v_subjects = m, v_queue = q\<rparr>"
proof -
  from assms same_ids_lookup [of s i] obtain b m q where
    "Mapping.lookup (ms_statuses s) i = Some b" "Mapping.lookup (ms_subjects s) i = Some m"
    "Mapping.lookup (ms_queues s) i = Some q"
    by (force simp: store_inv_def)
  with assms that show thesis by (simp add: abs_store_def store_inv_def)
qed

lemma dom_abs_store: "dom (abs_store s) = Mapping.keys (ms_streams s)"
  by (auto simp: abs_store_def keys_dom_lookup split: option.splits)

text \<open>A stream that exists, with its entries; or one that does not, anywhere.\<close>

lemma stream_cases :
  assumes "store_inv s"
  obtains "Mapping.lookup (ms_streams s) i = None" "Mapping.lookup (ms_statuses s) i = None"
      "Mapping.lookup (ms_subjects s) i = None" "abs_store s i = None"
    | c b m q where "Mapping.lookup (ms_streams s) i = Some c" "Mapping.lookup (ms_statuses s) i = Some b"
      "bucket_ok b" "Mapping.lookup (ms_subjects s) i = Some m" "Mapping.lookup (ms_queues s) i = Some q"
      "abs_store s i = Some \<lparr>v_config = c, v_status = Mapping.lookup b, v_subjects = m, v_queue = q\<rparr>"
proof (cases "Mapping.lookup (ms_streams s) i")
  case None
  then show thesis using assms that(1) same_ids_lookup [of s i]
    by (simp add: store_inv_def abs_store_None)
next
  case (Some c)
  then show thesis using that(2) abs_store_Some [OF assms Some] by metis
qed

lemma spec_store_eq:
  "(\<And>i. abs_store s i = a i) \<Longrightarrow> abs_store s = a"
  by (rule ext)

lemmas spec_simps = on_stream_def with_key_def out_of_def fresh_view_def status_of_def

lemma refines_create:
  assumes "store_inv s"
  shows "map_prod (out_of OutConfig) abs_store (CreateStream c s)
    = spec_op sm (minted_id s) (OpCreate c) (abs_store s)"
  by (cases c)
    (auto simp: CreateStream_def out_of_def Let_def abs_store_None fresh_view_def fun_eq_iff abs_store_def
      mapping_simps cong: option.case_cong)

lemma refines_update:
  assumes "store_inv s"
  shows "map_prod (out_of OutConfig) abs_store (UpdateStream c s)
    = spec_op sm mint (OpUpdate c) (abs_store s)"
proof (cases c)
  case (Some cfg)
  show ?thesis
    by (rule stream_cases [OF assms, of "sc_stream_id cfg"])
      (auto simp: Some UpdateStream_def spec_simps Let_def fun_eq_iff mapping_simps abs_store_def cong: option.case_cong)
qed (simp add: UpdateStream_def out_of_def)

lemma refines_delete: "abs_store (DeleteStream i s) = (abs_store s)(i := None)"
  by (auto simp: fun_eq_iff abs_store_def DeleteStream_def mapping_simps split: option.split)

lemma refines_get_status:
  assumes "store_inv s"
  shows "(out_of OutStatus (GetStreamStatus i sub s), abs_store s)
    = spec_op sm mint (OpGetStatus i sub) (abs_store s)"
  by (rule stream_cases [OF assms, of i])
    (auto simp: GetStreamStatus_def spec_simps bucket_ok_def split: sum.split option.split)

lemma refines_set_status:
  assumes "store_inv s"
  shows "map_prod (out_of OutStatus) abs_store (SetStreamStatus i r s)
    = spec_op sm mint (OpSetStatus i r) (abs_store s)"
proof (cases r)
  case (Some req)
  show ?thesis
    by (rule stream_cases [OF assms, of i])
      (auto simp: Some SetStreamStatus_def spec_simps Let_def fun_eq_iff mapping_simps abs_store_def
        split: sum.split cong: option.case_cong)
qed (simp add: SetStreamStatus_def out_of_def)

lemma refines_subjects:
  assumes "store_inv s"
  shows "map_prod (out_of (\<lambda>_. OutUnit)) abs_store (AddSubject sm i ra s)
      = spec_op sm mint (OpAdd i ra) (abs_store s)"
    and "map_prod (out_of (\<lambda>_. OutUnit)) abs_store (RemoveSubject sm i rr s)
      = spec_op sm mint (OpRemove i rr) (abs_store s)"
proof -
  show "map_prod (out_of (\<lambda>_. OutUnit)) abs_store (AddSubject sm i ra s)
      = spec_op sm mint (OpAdd i ra) (abs_store s)"
  proof (cases ra)
    case (Some req)
    show ?thesis
      by (rule stream_cases [OF assms, of i])
        (auto simp: Some AddSubject_def spec_simps fun_eq_iff mapping_simps abs_store_def split: sum.split cong: option.case_cong)
  qed (simp add: AddSubject_def out_of_def)
  show "map_prod (out_of (\<lambda>_. OutUnit)) abs_store (RemoveSubject sm i rr s)
      = spec_op sm mint (OpRemove i rr) (abs_store s)"
  proof (cases rr)
    case (Some req)
    show ?thesis
      by (rule stream_cases [OF assms, of i])
        (auto simp: Some RemoveSubject_def spec_simps fun_eq_iff mapping_simps abs_store_def split: sum.split cong: option.case_cong)
  qed (simp add: RemoveSubject_def out_of_def)
qed

lemma refines_queue:
  assumes "store_inv s"
  shows "map_prod (out_of (\<lambda>_. OutUnit)) abs_store (EnqueueSET i jws s)
      = spec_op sm mint (OpEnqueue i jws) (abs_store s)"
    and "(out_of OutQueue (QueuedSETs i s), abs_store s) = spec_op sm mint (OpQueued i) (abs_store s)"
  by (rule stream_cases [OF assms, of i];
      auto simp: EnqueueSET_def QueuedSETs_def spec_simps Let_def fun_eq_iff mapping_simps abs_store_def cong: option.case_cong)+

lemma refines_reads:
  assumes "store_inv s"
  shows "(out_of OutConfig (GetStream i s), abs_store s) = spec_op sm mint (OpGet i) (abs_store s)"
    and "(out_of (\<lambda>(cs, t). OutConfigs cs t) (ListStreams tok s), abs_store s)
      = spec_op sm mint (OpList tok) (abs_store s)"
    and "(out_of OutBool (HasSubject sm i v s), abs_store s) = spec_op sm mint (OpHas i v) (abs_store s)"
proof -
  show "(out_of OutConfig (GetStream i s), abs_store s) = spec_op sm mint (OpGet i) (abs_store s)"
    and "(out_of OutBool (HasSubject sm i v s), abs_store s) = spec_op sm mint (OpHas i v) (abs_store s)"
    by (rule stream_cases [OF assms, of i]; auto simp: GetStream_def HasSubject_def spec_simps split: sum.split)+
  have "v_config (the (abs_store s i)) = the (Mapping.lookup (ms_streams s) i)"
    if "i \<in> Mapping.keys (ms_streams s)" for i
    using that by (auto simp: abs_store_def keys_dom_lookup)
  moreover have "finite (Mapping.keys (ms_streams s))" using assms by (simp add: store_inv_def same_ids_def)
  ultimately show "(out_of (\<lambda>(cs, t). OutConfigs cs t) (ListStreams tok s), abs_store s)
      = spec_op sm mint (OpList tok) (abs_store s)"
    by (simp add: ListStreams_def out_of_def dom_abs_store ordered_keys_def)
qed

lemma exec_spec:
  assumes "store_inv s"
  shows "map_prod id abs_store (exec sm op s) = spec_op sm (minted_id s) op (abs_store s)"
  using refines_create [OF assms] refines_update [OF assms] refines_get_status [OF assms]
    refines_set_status [OF assms] refines_subjects [OF assms] refines_queue [OF assms]
    refines_reads [OF assms]
  by (cases op) (simp_all add: refines_delete map_prod_compose map_prod.comp comp_def prod.map_comp)

section \<open>Properties\<close>

definition sample_store :: mem_store where
  "sample_store = snd (CreateStream (Some (zero_config\<lparr>sc_stream_id := ''s''\<rparr>)) (NewInMemoryStore ''00''))"

lemma sample_store_reachable: "store_reachable sm sample_store"
proof -
  have "exec sm (OpCreate (Some (zero_config\<lparr>sc_stream_id := ''s''\<rparr>))) (NewInMemoryStore ''00'')
      = (OutConfig (zero_config\<lparr>sc_stream_id := ''s''\<rparr>), sample_store)"
    by (simp add: sample_store_def CreateStream_def NewInMemoryStore_def zero_config_def out_of_def
        mapping_simps Let_def)
  then show ?thesis by (rule store_reachable.call [OF store_reachable.new])
qed

lemma sample_store_simps:
  "Mapping.lookup (ms_streams sample_store) i = (if i = ''s'' then Some (zero_config\<lparr>sc_stream_id := ''s''\<rparr>) else None)"
  "Mapping.lookup (ms_statuses sample_store) i =
     (if i = ''s'' then Some (Mapping.update [] \<lparr>sr_status = StreamStatusEnabled, sr_reason = [], sr_subject = []\<rparr>
        Mapping.empty) else None)"
  "Mapping.lookup (ms_subjects sample_store) i = (if i = ''s'' then Some {} else None)"
  "Mapping.lookup (ms_queues sample_store) i = (if i = ''s'' then Some [] else None)"
  by (simp_all add: sample_store_def CreateStream_def NewInMemoryStore_def zero_config_def mapping_simps Let_def)

text \<open>
  Claim C1: The store keeps its promise. In every store that calls can lead to, each call
  returns what the specification returns (the value, or which error) and leaves a store that stands
  for the specification's next state; an id the store mints is the only freedom left to it.
\<close>

theorem store_refines:
  assumes "store_reachable sm s" and "exec sm op s = (out, s')"
  shows "spec_op sm (minted_id s) op (abs_store s) = (out, abs_store s')"
  using exec_spec [OF reachable_inv [OF assms(1)], of sm op] assms(2) by simp

theorem store_refines_witness:
  "spec_op Some (minted_id sample_store) (OpDelete ''s'') (abs_store sample_store)
     = (OutUnit, abs_store (DeleteStream ''s'' sample_store))"
  by (rule store_refines [OF sample_store_reachable]) simp

text \<open>
  Claim C14: Every store that calls can lead to has the same finite set of ids in its four maps,
  every configuration filed under its own non-empty id, a whole-stream status for every stream, and
  every status filed under the canonical key of the subject it carries.
\<close>

theorem store_reachable_inv:
  assumes "store_reachable sm s"
  shows "store_inv s"
  by (rule reachable_inv [OF assms])

theorem store_reachable_inv_witness: "store_inv sample_store"
  by (rule store_reachable_inv [OF sample_store_reachable [of Some]])

lemma set_status_effect:
  assumes "SetStreamStatus i (Some r) s = (Inr resp, s')"
  obtains b k where "Mapping.lookup (ms_statuses s) i = Some b" and "canonicalSubjectKey (su_subject r) = Inr k"
    and "resp = \<lparr>sr_status = su_status r, sr_reason = su_reason r, sr_subject = su_subject r\<rparr>"
    and "s' = s\<lparr>ms_statuses := Mapping.update i (Mapping.update k resp b) (ms_statuses s)\<rparr>"
  using assms by (auto simp: SetStreamStatus_def Let_def split: option.splits sum.splits)

lemma whole_key: "canonicalSubjectKey raw = Inr [] \<longleftrightarrow> raw = []"
  using key_cases [of raw "[]"] by (auto simp: canonicalSubjectKey_def)


definition pause_subject :: status_update_request where
  "pause_subject = \<lparr>su_status = StreamStatusPaused, su_reason = [], su_subject = sample_subject\<rparr>"

lemma pause_subject_ok:
  "\<exists>s'. SetStreamStatus ''s'' (Some pause_subject) sample_store
     = (Inr \<lparr>sr_status = StreamStatusPaused, sr_reason = [], sr_subject = sample_subject\<rparr>, s')"
  by (simp add: SetStreamStatus_def sample_store_simps pause_subject_def sample_subject_key Let_def)


lemma any_identifier_key:
  "canonicalSubjectKeyFromAny sm (AnyAdd (Some r)) = canonicalSubjectKeyFromIdentifier sm (as_subject r)"
  "canonicalSubjectKeyFromAny sm (AnyRemove (Some q)) = canonicalSubjectKeyFromIdentifier sm (rs_subject q)"
  by (simp_all add: canonicalSubjectKeyFromAny_def)

lemma add_effect:
  assumes "AddSubject sm i (Some r) s = (Inr (), s')"
  obtains m k where "Mapping.lookup (ms_subjects s) i = Some m"
    and "canonicalSubjectKeyFromAny sm (AnyAdd (Some r)) = Inr k"
    and "s' = s\<lparr>ms_subjects := Mapping.update i (insert k m) (ms_subjects s)\<rparr>"
  using assms by (auto simp: AddSubject_def any_identifier_key split: option.splits sum.splits)

lemma remove_effect:
  assumes "RemoveSubject sm i (Some r) s = (Inr (), s')"
  obtains m k where "Mapping.lookup (ms_subjects s) i = Some m"
    and "canonicalSubjectKeyFromAny sm (AnyRemove (Some r)) = Inr k"
    and "s' = s\<lparr>ms_subjects := Mapping.update i (m - {k}) (ms_subjects s)\<rparr>"
  using assms by (auto simp: RemoveSubject_def any_identifier_key split: option.splits sum.splits)

text \<open>
  A subject is a member after it was added and is none after it was removed, whichever
  equal spelling is asked about; every other subject, and every other stream, is as before.
\<close>

theorem subject_membership:
  assumes "AddSubject sm i (Some ra) s = (Inr (), sa)" and "RemoveSubject sm i (Some rr) s = (Inr (), sr)"
  shows "HasSubject sm j v sa =
      (if i = j \<and> canonicalSubjectKeyFromAny sm v = canonicalSubjectKeyFromAny sm (AnyAdd (Some ra))
       then Inr True else HasSubject sm j v s)
    \<and> HasSubject sm j v sr =
      (if i = j \<and> canonicalSubjectKeyFromAny sm v = canonicalSubjectKeyFromAny sm (AnyRemove (Some rr))
       then Inr False else HasSubject sm j v s)"
proof -
  from assms(1) obtain m k where "Mapping.lookup (ms_subjects s) i = Some m"
    "canonicalSubjectKeyFromAny sm (AnyAdd (Some ra)) = Inr k"
    "sa = s\<lparr>ms_subjects := Mapping.update i (insert k m) (ms_subjects s)\<rparr>"
    by (rule add_effect)
  moreover from assms(2) obtain m' k' where "Mapping.lookup (ms_subjects s) i = Some m'"
    "canonicalSubjectKeyFromAny sm (AnyRemove (Some rr)) = Inr k'"
    "sr = s\<lparr>ms_subjects := Mapping.update i (m' - {k'}) (ms_subjects s)\<rparr>"
    by (rule remove_effect)
  ultimately show ?thesis
    by (cases "i = j"; cases "canonicalSubjectKeyFromAny sm v")
      (auto simp: HasSubject_def mapping_simps)
qed

definition sample_add :: "string add_subject_request" where
  "sample_add = \<lparr>as_subject = Some ''true'', as_verified = None\<rparr>"

definition sample_remove :: "string remove_subject_request" where
  "sample_remove = \<lparr>rs_subject = Some ''true''\<rparr>"

lemma sample_identifier_key: "canonicalSubjectKeyFromIdentifier Some (Some ''true'') = Inr ''true''"
proof -
  have "parse ''true'' = Some (JBool True)" using parse_jprint [of "JBool True"] by simp
  then show ?thesis
    by (simp add: canonicalSubjectKeyFromIdentifier_def raw_json_def canonicalSubjectKey_def
        unmarshal_any_def unmarshal_def)
qed

theorem subject_membership_witness:
  "\<exists>sa sr. HasSubject Some ''s'' (AnyAdd (Some sample_add)) sa = Inr True
     \<and> HasSubject Some ''s'' (AnyAdd (Some sample_add)) sr = Inr False"
proof -
  obtain sa where sa: "AddSubject Some ''s'' (Some sample_add) sample_store = (Inr (), sa)"
    by (simp add: AddSubject_def sample_store_simps sample_add_def sample_identifier_key)
  obtain sr where sr: "RemoveSubject Some ''s'' (Some sample_remove) sample_store = (Inr (), sr)"
    by (simp add: RemoveSubject_def sample_store_simps sample_remove_def sample_identifier_key)
  show ?thesis
    using subject_membership [OF sa sr, of "''s''" "AnyAdd (Some sample_add)"]
    by (auto simp: any_identifier_key sample_add_def sample_remove_def)
qed

text \<open>
  \<open>ListStreams\<close> returns every stream exactly once, in increasing order of id, in one
  page with an empty continuation token.
\<close>

theorem list_streams_complete:
  assumes "store_reachable sm s"
  shows "\<exists>cs. ListStreams tok s = Inr (cs, []) \<and> sorted_wrt (<) (map sc_stream_id cs)
    \<and> set cs = {c. \<exists>i. GetStream i s = Inr c}"
proof -
  let ?ids = "sorted_list_of_set (Mapping.keys (ms_streams s))"
  let ?c = "\<lambda>i. the (Mapping.lookup (ms_streams s) i)"
  from reachable_inv [OF assms] have fin: "finite (Mapping.keys (ms_streams s))"
    and own: "\<And>i c. Mapping.lookup (ms_streams s) i = Some c \<Longrightarrow> sc_stream_id c = i"
    by (simp_all add: store_inv_def same_ids_def)
  have look: "Mapping.lookup (ms_streams s) i = Some (?c i)" if "i \<in> Mapping.keys (ms_streams s)" for i
    using that by (auto simp: keys_dom_lookup)
  have "sc_stream_id (?c i) = i" if "i \<in> Mapping.keys (ms_streams s)" for i
    by (rule own [OF look [OF that]])
  then have "map sc_stream_id (map ?c ?ids) = ?ids"
    using fin unfolding map_map by (intro map_idI) simp
  moreover have "set (map ?c ?ids) = {c. \<exists>i. GetStream i s = Inr c}"
    using fin look by (force simp: GetStream_def keys_dom_lookup split: option.splits)
  ultimately show ?thesis
    using fin by (simp add: ListStreams_def ordered_keys_def)
qed

theorem list_streams_complete_witness:
  "\<exists>cs. ListStreams [] sample_store = Inr (cs, []) \<and> sorted_wrt (<) (map sc_stream_id cs)
     \<and> set cs = {c. \<exists>i. GetStream i sample_store = Inr c}"
  by (rule list_streams_complete [OF sample_store_reachable [of Some]])

text \<open>
  \<open>CreateStream\<close> does not check an id it mints against the ids in use: when a caller
  has named a stream as the store will name its next one, creating a stream without an id replaces
  that stream, its statuses, subjects and queue, and reports success.
\<close>

theorem mint_overwrites:
  assumes "store_reachable sm s" and "GetStream (minted_id s) s = Inr old"
    and "sc_stream_id c = []"
  shows "\<exists>s'. CreateStream (Some c) s = (Inr (c\<lparr>sc_stream_id := minted_id s\<rparr>), s')
    \<and> GetStream (minted_id s) s' = Inr (c\<lparr>sc_stream_id := minted_id s\<rparr>)
    \<and> QueuedSETs (minted_id s) s' = Inr [] \<and> dom (abs_store s') = dom (abs_store s)"
  using assms
  by (auto simp: CreateStream_def Let_def GetStream_def QueuedSETs_def mapping_simps dom_abs_store
      dest: lookup_Some_keys split: option.splits)

definition clash_store :: mem_store where
  "clash_store = snd (CreateStream (Some (zero_config\<lparr>sc_stream_id := ''stream-00-1''\<rparr>)) (NewInMemoryStore ''00''))"

lemma itoa_1: "itoa 1 = ''1''"
  by (simp add: itoa_def show_nat.simps digit_char_def char_of_eq_iff)

lemma clash_store_props:
  "minted_id clash_store = ''stream-00-1''"
  "GetStream ''stream-00-1'' clash_store = Inr (zero_config\<lparr>sc_stream_id := ''stream-00-1''\<rparr>)"
  by (simp_all add: clash_store_def CreateStream_def NewInMemoryStore_def zero_config_def mapping_simps
      Let_def minted_id_def GetStream_def itoa_1 int64_def)

lemma clash_store_reachable: "store_reachable sm clash_store"
proof -
  have "exec sm (OpCreate (Some (zero_config\<lparr>sc_stream_id := ''stream-00-1''\<rparr>))) (NewInMemoryStore ''00'')
      = (OutConfig (zero_config\<lparr>sc_stream_id := ''stream-00-1''\<rparr>), clash_store)"
    by (simp add: clash_store_def CreateStream_def NewInMemoryStore_def zero_config_def out_of_def
        mapping_simps Let_def)
  then show ?thesis by (rule store_reachable.call [OF store_reachable.new])
qed

theorem mint_overwrites_witness:
  "\<exists>s'. CreateStream (Some (zero_config\<lparr>sc_format := ''new''\<rparr>)) clash_store
      = (Inr (zero_config\<lparr>sc_format := ''new'', sc_stream_id := ''stream-00-1''\<rparr>), s')
    \<and> GetStream ''stream-00-1'' s' = Inr (zero_config\<lparr>sc_format := ''new'', sc_stream_id := ''stream-00-1''\<rparr>)"
  using mint_overwrites [OF clash_store_reachable [of Some],
      of "zero_config\<lparr>sc_stream_id := ''stream-00-1''\<rparr>" "zero_config\<lparr>sc_format := ''new''\<rparr>"]
  by (auto simp: clash_store_props zero_config_def)

end
