(* ===== verification/Store_Interface.thy ===== *)
theory Store_Interface
  imports Store_Spec
begin

text \<open>
  The contract of \<open>ssf.StreamStore\<close> (\<open>streamstore.go\<close>) as a locale: what its documentation asks
  of every implementation, over an abstract state. Lemmas a client can rely on are proved once
  inside it; the in-memory store is its interpretation.
\<close>

definition is_not_found :: "'a result \<Rightarrow> bool" where
  "is_not_found r \<longleftrightarrow> (\<exists>e. r = Inl e \<and> errors_is e ErrStreamNotFound)"

lemma is_not_found_simps [simp]:
  "is_not_found (Inl e) \<longleftrightarrow> errors_is e ErrStreamNotFound" "\<not> is_not_found (Inr a)"
  by (simp_all add: is_not_found_def)

locale stream_store =
  fixes ok :: "'s \<Rightarrow> bool"
    and create :: "stream_config option \<Rightarrow> 's \<Rightarrow> stream_config result \<times> 's"
    and get :: "string \<Rightarrow> 's \<Rightarrow> stream_config result"
    and update :: "stream_config option \<Rightarrow> 's \<Rightarrow> stream_config result \<times> 's"
    and remove :: "string \<Rightarrow> 's \<Rightarrow> 's"
    and get_status :: "string \<Rightarrow> string \<Rightarrow> 's \<Rightarrow> status_response result"
    and set_status :: "string \<Rightarrow> status_update_request option \<Rightarrow> 's \<Rightarrow> status_response result \<times> 's"
    and enqueue :: "string \<Rightarrow> string \<Rightarrow> 's \<Rightarrow> unit result \<times> 's"
  assumes ok_create: "ok s \<Longrightarrow> ok (snd (create c s))"
    and ok_update: "ok s \<Longrightarrow> ok (snd (update c s))"
    and ok_remove: "ok s \<Longrightarrow> ok (remove i s)"
    and ok_set_status: "ok s \<Longrightarrow> ok (snd (set_status i r s))"
    and ok_enqueue: "ok s \<Longrightarrow> ok (snd (enqueue i jws s))"
    and get_create: "ok s \<Longrightarrow> create c s = (Inr c', s') \<Longrightarrow>
      get i s' = (if i = sc_stream_id c' then Inr c' else get i s)"
    and get_update: "ok s \<Longrightarrow> update c s = (Inr c', s') \<Longrightarrow>
      c = Some c' \<and> get i s' = (if i = sc_stream_id c' then Inr c' else get i s)"
    and update_missing: "ok s \<Longrightarrow> is_not_found (get (sc_stream_id cfg) s) \<Longrightarrow>
      is_not_found (fst (update (Some cfg) s)) \<and> snd (update (Some cfg) s) = s"
    and get_remove: "ok s \<Longrightarrow> is_not_found (get i (remove i s))"
    and get_remove_other: "ok s \<Longrightarrow> i \<noteq> j \<Longrightarrow> get j (remove i s) = get j s"
    and remove_twice: "remove i (remove i s) = remove i s"
    and get_outcome: "ok s \<Longrightarrow> is_not_found (get i s) \<or> (\<exists>cfg. get i s = Inr cfg \<and> sc_stream_id cfg = i)"
    and status_missing: "ok s \<Longrightarrow> is_not_found (get i s) \<Longrightarrow> is_not_found (get_status i sub s)"
    and set_status_missing: "ok s \<Longrightarrow> is_not_found (get i s) \<Longrightarrow> is_not_found (fst (set_status i (Some req) s))"
    and enqueue_missing: "ok s \<Longrightarrow> is_not_found (get i s) \<longleftrightarrow> is_not_found (fst (enqueue i jws s))"
    and status_frame: "ok s \<Longrightarrow> get i (snd (set_status j r s)) = get i s"
    and enqueue_frame: "ok s \<Longrightarrow> get i (snd (enqueue j jws s)) = get i s"
begin

text \<open>A removed stream is gone for every operation, and removing is not an error to repeat.\<close>

lemma removed:
  assumes "ok s"
  shows "is_not_found (get i (remove i s))" and "is_not_found (get_status i sub (remove i s))"
    and "is_not_found (fst (set_status i (Some r) (remove i s)))"
    and "is_not_found (fst (enqueue i jws (remove i s)))"
    and "sc_stream_id c = i \<Longrightarrow> is_not_found (fst (update (Some c) (remove i s)))"
    and "remove i (remove i s) = remove i s"
  using ok_remove [OF assms, of i] get_remove [OF assms, of i] status_missing set_status_missing
    enqueue_missing update_missing remove_twice by blast+

text \<open>An update writes what the next read returns, and creates nothing.\<close>

lemma read_your_update:
  assumes "ok s" and "update (Some c) s = (Inr c', s')"
  shows "c' = c" and "get (sc_stream_id c) s' = Inr c" and "\<not> is_not_found (get (sc_stream_id c) s)"
proof -
  show "c' = c" "get (sc_stream_id c) s' = Inr c"
    using get_update [OF assms, of "sc_stream_id c"] by auto
  show "\<not> is_not_found (get (sc_stream_id c) s)"
    using update_missing [OF assms(1), of c] assms(2) by auto
qed

lemma update_keeps_domain:
  assumes "ok s" and "update (Some c) s = (Inr c', s')"
  shows "is_not_found (get i s') \<longleftrightarrow> is_not_found (get i s)"
  using get_update [OF assms, of i] read_your_update [OF assms] by auto

lemma create_then_enqueue:
  assumes "ok s" and "create c s = (Inr c', s')"
  shows "\<not> is_not_found (fst (enqueue (sc_stream_id c') jws s'))"
proof -
  have "ok s'" using ok_create [OF assms(1), of c] assms(2) by simp
  with get_create [OF assms, of "sc_stream_id c'"] enqueue_missing [of s' "sc_stream_id c'" jws]
  show ?thesis by simp
qed

end

section \<open>The in-memory store fulfils it\<close>

lemma get_not_found: "is_not_found (GetStream i s) \<longleftrightarrow> Mapping.lookup (ms_streams s) i = None"
  by (simp add: GetStream_def not_found_def store_err_def split: option.split)

lemma mem_get_create:
  "CreateStream c s = (Inr c', s') \<Longrightarrow> GetStream i s' = (if i = sc_stream_id c' then Inr c' else GetStream i s)"
  by (auto simp: CreateStream_def GetStream_def Let_def mapping_simps split: option.splits if_splits)

lemma mem_get_update:
  "UpdateStream c s = (Inr c', s') \<Longrightarrow>
     c = Some c' \<and> GetStream i s' = (if i = sc_stream_id c' then Inr c' else GetStream i s)"
  by (auto simp: UpdateStream_def GetStream_def Let_def mapping_simps split: option.splits if_splits)

lemma mem_update_missing:
  "is_not_found (GetStream (sc_stream_id c) s) \<Longrightarrow>
     is_not_found (fst (UpdateStream (Some c) s)) \<and> snd (UpdateStream (Some c) s) = s"
  by (simp add: get_not_found UpdateStream_def not_found_def store_err_def)

lemma mem_remove:
  "is_not_found (GetStream i (DeleteStream i s))"
  "i \<noteq> j \<Longrightarrow> GetStream j (DeleteStream i s) = GetStream j s"
  "DeleteStream i (DeleteStream i s) = DeleteStream i s"
  by (simp_all add: get_not_found) (simp_all add: DeleteStream_def GetStream_def mapping_simps delete_idem)

lemma mem_get_outcome:
  "store_inv s \<Longrightarrow> is_not_found (GetStream i s) \<or> (\<exists>c. GetStream i s = Inr c \<and> sc_stream_id c = i)"
  by (cases "Mapping.lookup (ms_streams s) i")
    (simp_all add: get_not_found, simp add: GetStream_def store_inv_def)

lemma mem_missing:
  assumes "store_inv s"
  shows "is_not_found (GetStream i s) \<Longrightarrow> is_not_found (GetStreamStatus i sub s)"
    and "is_not_found (GetStream i s) \<Longrightarrow> is_not_found (fst (SetStreamStatus i (Some r) s))"
    and "is_not_found (GetStream i s) \<longleftrightarrow> is_not_found (fst (EnqueueSET i jws s))"
proof -
  have "Mapping.lookup (ms_statuses s) i = None \<longleftrightarrow> Mapping.lookup (ms_streams s) i = None"
    using assms same_ids_lookup by (simp add: store_inv_def)
  then show "is_not_found (GetStream i s) \<Longrightarrow> is_not_found (GetStreamStatus i sub s)"
    "is_not_found (GetStream i s) \<Longrightarrow> is_not_found (fst (SetStreamStatus i (Some r) s))"
    "is_not_found (GetStream i s) \<longleftrightarrow> is_not_found (fst (EnqueueSET i jws s))"
    by (simp_all add: get_not_found GetStreamStatus_def SetStreamStatus_def EnqueueSET_def Let_def
        not_found_def store_err_def)
qed

lemma mem_frame:
  "GetStream i (snd (SetStreamStatus j r s)) = GetStream i s"
  "GetStream i (snd (EnqueueSET j jws s)) = GetStream i s"
  by (simp_all add: GetStream_def SetStreamStatus_def EnqueueSET_def Let_def
      split: option.split sum.split)

lemmas mem_laws = inv_ops mem_get_create mem_get_update mem_update_missing mem_remove
  mem_get_outcome mem_missing mem_frame

interpretation mem: stream_store store_inv CreateStream GetStream UpdateStream DeleteStream
  GetStreamStatus SetStreamStatus EnqueueSET
  by unfold_locales (fact mem_laws | rule mem_laws; assumption)+

text \<open>
  After \<open>DeleteStream\<close> the stream is gone for every operation (each reports
  \<open>ErrStreamNotFound\<close>), the other streams read as before, and deleting again changes nothing.
\<close>

theorem delete_is_final:
  assumes "store_reachable sm s"
  shows "is_not_found (GetStream i (DeleteStream i s))
    \<and> is_not_found (GetStreamStatus i sub (DeleteStream i s))
    \<and> is_not_found (fst (SetStreamStatus i (Some r) (DeleteStream i s)))
    \<and> is_not_found (fst (EnqueueSET i jws (DeleteStream i s)))
    \<and> is_not_found (fst (UpdateStream (Some (c\<lparr>sc_stream_id := i\<rparr>)) (DeleteStream i s)))
    \<and> DeleteStream i (DeleteStream i s) = DeleteStream i s
    \<and> (i \<noteq> j \<longrightarrow> GetStream j (DeleteStream i s) = GetStream j s)"
  using mem.removed [OF reachable_inv [OF assms], where i = i] mem.get_remove_other [OF reachable_inv [OF assms]]
  by simp

theorem delete_is_final_witness:
  "is_not_found (GetStream ''s'' (DeleteStream ''s'' sample_store))"
  using delete_is_final [OF sample_store_reachable [of Some], of "''s''"] by blast

text \<open>
  \<open>UpdateStream\<close> replaces the whole configuration, so the next read returns exactly what
  was written; it never creates a stream, nor removes one.
\<close>

theorem update_replaces:
  assumes "store_reachable sm s" and "UpdateStream (Some c) s = (Inr c', s')"
  shows "c' = c \<and> GetStream (sc_stream_id c) s' = Inr c
    \<and> (is_not_found (GetStream i s') \<longleftrightarrow> is_not_found (GetStream i s))"
  using mem.read_your_update [OF reachable_inv [OF assms(1)] assms(2)]
    mem.update_keeps_domain [OF reachable_inv [OF assms(1)] assms(2)] by simp

theorem update_replaces_witness:
  "\<exists>s'. GetStream ''s'' s' = Inr (zero_config\<lparr>sc_stream_id := ''s'', sc_format := ''f''\<rparr>)"
proof -
  let ?c = "zero_config\<lparr>sc_stream_id := ''s'', sc_format := ''f''\<rparr>"
  obtain s' where "UpdateStream (Some ?c) sample_store = (Inr ?c, s')"
    by (simp add: UpdateStream_def sample_store_simps Let_def)
  from update_replaces [OF sample_store_reachable [of Some] this] show ?thesis by auto
qed

end
