(* ===== verification/Interop.thy ===== *)
theory Interop
  imports Store_Interface Transmitter_Api
begin

text \<open>
  The loopback \<open>MemstoreTransmitter\<close> (\<open>internal/interop/interop.go\<close>): an in-memory store with,
  per stream, a FIFO of SETs to poll, the SETs delivered and not yet acknowledged, and the errors
  the receiver reported. A nil or missing inner map and an empty one are told apart nowhere in the
  code, but for the entry itself, which the model keeps.
\<close>

section \<open>State\<close>

record queue_entry =
  qe_jti :: string
  qe_jws :: string

record interop =
  it_store :: mem_store
  it_pending :: "(string, queue_entry list) mapping"
  it_outstanding :: "(string, (string, string) mapping) mapping"
  it_set_errs :: "(string, (string, set_err) mapping) mapping"

definition NewMemstoreTransmitter :: "mem_store \<Rightarrow> interop" where
  "NewMemstoreTransmitter store = \<lparr>it_store = store, it_pending = Mapping.empty,
     it_outstanding = Mapping.empty, it_set_errs = Mapping.empty\<rparr>"

text \<open>Reading a map entry that may be absent, as Go does: the zero value.\<close>

definition get_list :: "(string, 'a list) mapping \<Rightarrow> string \<Rightarrow> 'a list" where
  "get_list m k = (case Mapping.lookup m k of None \<Rightarrow> [] | Some xs \<Rightarrow> xs)"

definition get_map :: "(string, (string, 'a) mapping) mapping \<Rightarrow> string \<Rightarrow> (string, 'a) mapping" where
  "get_map m k = (case Mapping.lookup m k of None \<Rightarrow> Mapping.empty | Some xs \<Rightarrow> xs)"

section \<open>Operations\<close>

definition EnqueueForPoll :: "string \<Rightarrow> string \<Rightarrow> string \<Rightarrow> interop \<Rightarrow> unit result \<times> interop" where
  "EnqueueForPoll stream jti jws t =
     (case EnqueueSET stream jws (it_store t) of
        (Inl e, st) \<Rightarrow> (Inl (Wrapf ''interop: enqueue via store: '' e []), t\<lparr>it_store := st\<rparr>)
      | (Inr _, st) \<Rightarrow> (Inr (), t\<lparr>it_store := st,
          it_pending := Mapping.update stream
            (get_list (it_pending t) stream @ [\<lparr>qe_jti = jti, qe_jws = jws\<rparr>]) (it_pending t)\<rparr>))"

definition ObservedSetErrs :: "interop \<Rightarrow> (string, (string, set_err) mapping) mapping" where
  "ObservedSetErrs t = it_set_errs t"

definition OutstandingCount :: "string \<Rightarrow> interop \<Rightarrow> nat" where
  "OutstandingCount stream t = Mapping.size (get_map (it_outstanding t) stream)"

definition defaultPollBatchCap :: int where "defaultPollBatchCap = 64"

definition put_all :: "(string, 'a) mapping \<Rightarrow> (string, 'a) mapping \<Rightarrow> (string, 'a) mapping" where
  "put_all new old = Mapping.combine (\<lambda>a b. a) new old"

definition batch_cap :: "poll_request \<Rightarrow> int" where
  "batch_cap req = (let c = (case pq_max_events req of None \<Rightarrow> defaultPollBatchCap | Some m \<Rightarrow> m)
                    in if c < 0 then 0 else c)"

text \<open>The three steps of \<open>PollEvents\<close> on the harness state: acks, reported errors, the next batch.\<close>

definition apply_acks :: "string \<Rightarrow> poll_request \<Rightarrow> interop \<Rightarrow> interop" where
  "apply_acks stream req t =
     (case (Mapping.lookup (it_outstanding t) stream, pq_ack req) of
        (Some out, Some (j # js)) \<Rightarrow>
          t\<lparr>it_outstanding := Mapping.update stream (fold Mapping.delete (j # js) out) (it_outstanding t)\<rparr>
      | _ \<Rightarrow> t)"

definition record_set_errs :: "string \<Rightarrow> poll_request \<Rightarrow> interop \<Rightarrow> interop" where
  "record_set_errs stream req t =
     (case pq_set_errs req of
        None \<Rightarrow> t
      | Some es \<Rightarrow>
          if Mapping.is_empty es then t
          else t\<lparr>it_set_errs := Mapping.update stream (put_all es (get_map (it_set_errs t) stream))
                 (it_set_errs t)\<rparr>)"

definition put_entries :: "queue_entry list \<Rightarrow> (string, string) mapping \<Rightarrow> (string, string) mapping" where
  "put_entries es m = fold (\<lambda>e. Mapping.update (qe_jti e) (qe_jws e)) es m"

definition next_batch :: "string \<Rightarrow> poll_request \<Rightarrow> interop \<Rightarrow> poll_response \<times> interop" where
  "next_batch stream req t =
     (let pending = get_list (it_pending t) stream;
          n = (if int (length pending) < batch_cap req then length pending else nat (batch_cap req));
          batch = take n pending
      in (\<lparr>pr_sets = Some (put_entries batch Mapping.empty),
           pr_more_available = (if n < length pending then Some True else None)\<rparr>,
          t\<lparr>it_outstanding :=
              (if n = 0 then it_outstanding t
               else Mapping.update stream (put_entries batch (get_map (it_outstanding t) stream))
                      (it_outstanding t)),
            it_pending := Mapping.update stream (drop n pending) (it_pending t)\<rparr>))"

definition PollEvents :: "string \<Rightarrow> poll_request \<Rightarrow> interop \<Rightarrow> poll_response result \<times> interop" where
  "PollEvents stream req t =
     (case GetStream stream (it_store t) of
        Inl e \<Rightarrow> (Inl e, t)
      | Inr _ \<Rightarrow> (case next_batch stream req (record_set_errs stream req (apply_acks stream req t)) of
                   (resp, t') \<Rightarrow> (Inr resp, t')))"

definition DeleteConfig :: "string \<Rightarrow> interop \<Rightarrow> unit result \<times> interop" where
  "DeleteConfig stream t = (Inr (), t\<lparr>it_pending := Mapping.delete stream (it_pending t),
     it_outstanding := Mapping.delete stream (it_outstanding t),
     it_set_errs := Mapping.delete stream (it_set_errs t),
     it_store := DeleteStream stream (it_store t)\<rparr>)"

definition on_store :: "(mem_store \<Rightarrow> 'a result \<times> mem_store) \<Rightarrow> interop \<Rightarrow> 'a result \<times> interop" where
  "on_store f t = (case f (it_store t) of (r, st) \<Rightarrow> (r, t\<lparr>it_store := st\<rparr>))"

text \<open>\<open>Verify\<close> is the embedded one.\<close>

definition MemstoreTransmitter :: "('sid \<Rightarrow> string option) \<Rightarrow> ('sid, interop) transmitter" where
  "MemstoreTransmitter sid_marshal = NotImplementedTransmitter\<lparr>
     tm_GetConfig := (\<lambda>i. on_store (\<lambda>s. (GetStream i s, s))),
     tm_ListConfig := (\<lambda>tok. on_store (\<lambda>s. (map_sum (\<lambda>e. e) (apfst (map Some)) (ListStreams tok s), s))),
     tm_CreateConfig := (\<lambda>c. on_store (CreateStream (Some c))),
     tm_UpdateConfig := (\<lambda>c. on_store (UpdateStream (Some c))),
     tm_DeleteConfig := DeleteConfig,
     tm_GetStatus := (\<lambda>i sub. on_store (\<lambda>s. (GetStreamStatus i sub s, s))),
     tm_UpdateStatus := (\<lambda>i r. on_store (SetStreamStatus i (Some r))),
     tm_AddSubject := (\<lambda>i r. on_store (AddSubject sid_marshal i (Some r))),
     tm_RemoveSubject := (\<lambda>i r. on_store (RemoveSubject sid_marshal i (Some r))),
     tm_PollEvents := PollEvents\<rparr>"

section \<open>One poll\<close>

lemma get_list_update [simp]:
  "get_list (Mapping.update k v m) k' = (if k = k' then v else get_list m k')"
  by (simp add: get_list_def mapping_simps)

lemma get_map_update [simp]:
  "get_map (Mapping.update k v m) k' = (if k = k' then v else get_map m k')"
  by (simp add: get_map_def mapping_simps)

lemma lookup_fold_delete:
  "Mapping.lookup (fold Mapping.delete js m) j = (if j \<in> set js then None else Mapping.lookup m j)"
  by (induction js arbitrary: m) (auto simp: mapping_simps)

lemma lookup_put_entries_notin:
  "j \<notin> qe_jti ` set es \<Longrightarrow> Mapping.lookup (put_entries es m) j = Mapping.lookup m j"
  by (induction es arbitrary: m) (auto simp: put_entries_def mapping_simps)

lemma lookup_put_entries_in:
  "j \<in> qe_jti ` set es \<Longrightarrow> Mapping.lookup (put_entries es m) j \<noteq> None"
proof (induction es arbitrary: m)
  case (Cons e es)
  then show ?case
    by (cases "j \<in> qe_jti ` set es")
      (auto simp: put_entries_def mapping_simps dest: lookup_put_entries_notin [unfolded put_entries_def, where m = "Mapping.update (qe_jti e) (qe_jws e) m"])
qed simp

lemma lookup_put_entries:
  "distinct (map qe_jti es) \<Longrightarrow> e \<in> set es \<Longrightarrow> Mapping.lookup (put_entries es m) (qe_jti e) = Some (qe_jws e)"
proof (induction es arbitrary: m)
  case (Cons x es)
  show ?case
  proof (cases "e \<in> set es")
    case True
    with Cons show ?thesis by (simp add: put_entries_def)
  next
    case False
    with Cons.prems have "e = x" "qe_jti x \<notin> qe_jti ` set es" by auto
    then show ?thesis
      using lookup_put_entries_notin [of "qe_jti x" es "Mapping.update (qe_jti x) (qe_jws x) m"]
      by (simp add: put_entries_def mapping_simps)
  qed
qed simp

lemma acks_effect:
  "get_list (it_pending (apply_acks i req t)) j = get_list (it_pending t) j"
  "it_store (apply_acks i req t) = it_store t"
  "Mapping.lookup (get_map (it_outstanding (apply_acks i req t)) i) k =
     (if k \<in> set (case pq_ack req of None \<Rightarrow> [] | Some js \<Rightarrow> js) then None
      else Mapping.lookup (get_map (it_outstanding t) i) k)"
  "i \<noteq> j \<Longrightarrow> get_map (it_outstanding (apply_acks i req t)) j = get_map (it_outstanding t) j"
  by (auto simp: apply_acks_def get_map_def mapping_simps lookup_fold_delete simp del: fold.simps
      split: option.split list.split)

lemma errs_effect [simp]:
  "it_pending (record_set_errs i req t) = it_pending t"
  "it_outstanding (record_set_errs i req t) = it_outstanding t"
  "it_store (record_set_errs i req t) = it_store t"
  by (simp_all add: record_set_errs_def split: option.split)

definition batch_size :: "string \<Rightarrow> poll_request \<Rightarrow> interop \<Rightarrow> nat" where
  "batch_size i req t = min (length (get_list (it_pending t) i)) (nat (batch_cap req))"

lemma batch_cap_nonneg: "0 \<le> batch_cap req"
  by (simp add: batch_cap_def Let_def defaultPollBatchCap_def split: option.split)

lemma next_batch_eq:
  "next_batch i req t =
     (let pending = get_list (it_pending t) i; n = batch_size i req t in
      (\<lparr>pr_sets = Some (put_entries (take n pending) Mapping.empty),
        pr_more_available = (if n < length pending then Some True else None)\<rparr>,
       t\<lparr>it_outstanding := (if n = 0 then it_outstanding t
           else Mapping.update i (put_entries (take n pending) (get_map (it_outstanding t) i)) (it_outstanding t)),
         it_pending := Mapping.update i (drop n pending) (it_pending t)\<rparr>))"
proof -
  have "(if int (length xs) < batch_cap req then length xs else nat (batch_cap req))
      = min (length xs) (nat (batch_cap req))" for xs :: "queue_entry list"
    using batch_cap_nonneg [of req] by (auto simp: min_def)
  then show ?thesis by (simp add: next_batch_def batch_size_def Let_def)
qed

text \<open>The part of a poll under the transmitter's own lock.\<close>

definition queue_poll :: "string \<Rightarrow> poll_request \<Rightarrow> interop \<Rightarrow> poll_response \<times> interop" where
  "queue_poll stream req t = next_batch stream req (record_set_errs stream req (apply_acks stream req t))"

lemma PollEvents_Inr:
  "PollEvents i req t = (Inr resp, t') \<longleftrightarrow> (\<exists>c. GetStream i (it_store t) = Inr c) \<and> queue_poll i req t = (resp, t')"
  by (auto simp: PollEvents_def queue_poll_def split: sum.splits prod.splits)

lemma queue_poll_effect:
  assumes "queue_poll i req t = (resp, t')"
  obtains batch where
    "get_list (it_pending t) i = batch @ get_list (it_pending t') i"
    "length batch = batch_size i req t"
    "pr_sets resp = Some (put_entries batch Mapping.empty)"
    "pr_more_available resp = Some True \<longleftrightarrow> get_list (it_pending t') i \<noteq> []"
    "\<And>k. Mapping.lookup (get_map (it_outstanding t') i) k =
       Mapping.lookup (put_entries batch (get_map (it_outstanding (apply_acks i req t)) i)) k"
    "\<And>j. j \<noteq> i \<Longrightarrow> get_list (it_pending t') j = get_list (it_pending t) j"
    "\<And>j. j \<noteq> i \<Longrightarrow> get_map (it_outstanding t') j = get_map (it_outstanding t) j"
    "it_store t' = it_store t"
proof -
  let ?t = "record_set_errs i req (apply_acks i req t)"
  have p: "get_list (it_pending ?t) i = get_list (it_pending t) i"
    "batch_size i req ?t = batch_size i req t"
    by (simp_all add: acks_effect batch_size_def)
  from assms have "next_batch i req ?t = (resp, t')" by (simp add: queue_poll_def)
  then show thesis
    using p acks_effect(1,4) [where i = i and req = req and t = t]
    by (intro that [of "take (batch_size i req t) (get_list (it_pending t) i)"])
      (auto simp: next_batch_eq Let_def acks_effect batch_size_def put_entries_def not_le)
qed

section \<open>Properties\<close>

text \<open>
  A poll returns the oldest pending SETs in order, as many as asked for (64 when the
  request does not say, none for a negative number) and as there are; with distinct ids the response
  carries each of them, \<open>moreAvailable\<close> says whether some are left, other streams are untouched.
\<close>

theorem poll_batch:
  assumes "PollEvents i req t = (Inr resp, t')"
    and "distinct (map qe_jti (get_list (it_pending t) i))"
  shows "\<exists>batch. get_list (it_pending t) i = batch @ get_list (it_pending t') i
    \<and> length batch = min (length (get_list (it_pending t) i)) (nat (batch_cap req))
    \<and> (\<exists>sets. pr_sets resp = Some sets
         \<and> (\<forall>e \<in> set batch. Mapping.lookup sets (qe_jti e) = Some (qe_jws e))
         \<and> Mapping.keys sets = qe_jti ` set batch)
    \<and> (pr_more_available resp = Some True \<longleftrightarrow> get_list (it_pending t') i \<noteq> [])
    \<and> (\<forall>j. j \<noteq> i \<longrightarrow> get_list (it_pending t') j = get_list (it_pending t) j
         \<and> get_map (it_outstanding t') j = get_map (it_outstanding t) j)"
proof -
  from assms(1) obtain batch where b: "get_list (it_pending t) i = batch @ get_list (it_pending t') i"
    "length batch = batch_size i req t" "pr_sets resp = Some (put_entries batch Mapping.empty)"
    "pr_more_available resp = Some True \<longleftrightarrow> get_list (it_pending t') i \<noteq> []"
    and frame: "\<And>j. j \<noteq> i \<Longrightarrow> get_list (it_pending t') j = get_list (it_pending t) j"
    "\<And>j. j \<noteq> i \<Longrightarrow> get_map (it_outstanding t') j = get_map (it_outstanding t) j"
    using assms(1) [unfolded PollEvents_Inr] by (elim conjE queue_poll_effect) blast
  from assms(2) have "distinct (map qe_jti batch)" by (simp add: b(1))
  moreover have "Mapping.keys (put_entries batch Mapping.empty) = qe_jti ` set batch"
    using lookup_put_entries_in [of _ batch Mapping.empty]
      lookup_put_entries_notin [of _ batch Mapping.empty]
    by (fastforce simp: keys_dom_lookup lookup_empty)
  ultimately show ?thesis using b frame
    by (intro exI [of _ batch]) (auto simp: batch_size_def lookup_put_entries)
qed

text \<open>
  A history of one stream \<open>i\<close>: the SETs enqueued, in order, those delivered, in order, and the ids
  acknowledged. Calls about other streams, and calls on the store, may come in between.
\<close>

inductive stream_run ::
  "string \<Rightarrow> queue_entry list \<Rightarrow> queue_entry list \<Rightarrow> string set \<Rightarrow> interop \<Rightarrow> bool" for i where
  start: "stream_run i [] [] {} (NewMemstoreTransmitter store)"
| enqueue: "stream_run i enq del acks t \<Longrightarrow> EnqueueForPoll i jti jws t = (Inr (), t') \<Longrightarrow>
    stream_run i (enq @ [\<lparr>qe_jti = jti, qe_jws = jws\<rparr>]) del acks t'"
| poll: "stream_run i enq del acks t \<Longrightarrow> PollEvents i req t = (Inr resp, t') \<Longrightarrow>
    get_list (it_pending t) i = batch @ get_list (it_pending t') i \<Longrightarrow>
    stream_run i enq (del @ batch) (acks \<union> set (case pq_ack req of None \<Rightarrow> [] | Some js \<Rightarrow> js)) t'"
| poll_other: "stream_run i enq del acks t \<Longrightarrow> j \<noteq> i \<Longrightarrow> PollEvents j req t = (r, t') \<Longrightarrow>
    stream_run i enq del acks t'"
| enqueue_other: "stream_run i enq del acks t \<Longrightarrow> j \<noteq> i \<Longrightarrow> EnqueueForPoll j jti jws t = (r, t') \<Longrightarrow>
    stream_run i enq del acks t'"
| delete_other: "stream_run i enq del acks t \<Longrightarrow> j \<noteq> i \<Longrightarrow> DeleteConfig j t = (r, t') \<Longrightarrow>
    stream_run i enq del acks t'"
| store_call: "stream_run i enq del acks t \<Longrightarrow> stream_run i enq del acks (t\<lparr>it_store := s\<rparr>)"

lemma poll_error: "PollEvents i req t = (Inl e, t') \<Longrightarrow> t' = t"
  by (auto simp: PollEvents_def split: sum.splits prod.splits)

lemma enqueue_effect:
  assumes "EnqueueForPoll j jti jws t = (r, t')"
  shows "get_list (it_pending t') k =
      get_list (it_pending t) k @ (if r = Inr () \<and> k = j then [\<lparr>qe_jti = jti, qe_jws = jws\<rparr>] else [])"
    and "it_outstanding t' = it_outstanding t"
  using assms by (auto simp: EnqueueForPoll_def split: prod.splits sum.splits)

lemma delete_effect:
  assumes "DeleteConfig j t = (r, t')" and "k \<noteq> j"
  shows "get_list (it_pending t') k = get_list (it_pending t) k"
    and "get_map (it_outstanding t') k = get_map (it_outstanding t) k"
  using assms by (auto simp: DeleteConfig_def get_list_def get_map_def mapping_simps)

text \<open>What a history keeps: order, and an acknowledgement or a place for everything delivered.\<close>

definition accounted :: "string \<Rightarrow> queue_entry list \<Rightarrow> queue_entry list \<Rightarrow> string set \<Rightarrow> interop \<Rightarrow> bool" where
  "accounted i enq del acks t \<longleftrightarrow> enq = del @ get_list (it_pending t) i
     \<and> (\<forall>e \<in> set del. qe_jti e \<in> acks
          \<or> Mapping.lookup (get_map (it_outstanding t) i) (qe_jti e) \<noteq> None)"

lemma accounted_poll:
  assumes "accounted i enq del acks t" and "queue_poll i req t = (resp, t')"
    and "get_list (it_pending t) i = batch @ get_list (it_pending t') i"
  shows "accounted i enq (del @ batch) (acks \<union> set (case pq_ack req of None \<Rightarrow> [] | Some js \<Rightarrow> js)) t'"
proof -
  from assms(2) obtain b where b: "get_list (it_pending t) i = b @ get_list (it_pending t') i"
    and out: "\<And>k. Mapping.lookup (get_map (it_outstanding t') i) k =
       Mapping.lookup (put_entries b (get_map (it_outstanding (apply_acks i req t)) i)) k"
    by (rule queue_poll_effect) blast
  from b assms(3) have "b = batch" by simp
  have "qe_jti e \<in> acks \<union> set (case pq_ack req of None \<Rightarrow> [] | Some js \<Rightarrow> js)
      \<or> Mapping.lookup (get_map (it_outstanding t') i) (qe_jti e) \<noteq> None" if "e \<in> set (del @ batch)" for e
  proof (cases "qe_jti e \<in> qe_jti ` set batch")
    case True
    then show ?thesis using lookup_put_entries_in by (simp add: out \<open>b = batch\<close>)
  next
    case False
    with that have "e \<in> set del" by auto
    with assms(1) have "qe_jti e \<in> acks
        \<or> Mapping.lookup (get_map (it_outstanding t) i) (qe_jti e) \<noteq> None"
      by (simp add: accounted_def)
    with False show ?thesis
      by (auto simp: out \<open>b = batch\<close> lookup_put_entries_notin acks_effect(3))
  qed
  moreover have "enq = (del @ batch) @ get_list (it_pending t') i"
    using assms(1,3) by (simp add: accounted_def)
  ultimately show ?thesis unfolding accounted_def by blast
qed

lemma accounted_frame:
  assumes "accounted i enq del acks t" and "get_list (it_pending t') i = get_list (it_pending t) i"
    and "get_map (it_outstanding t') i = get_map (it_outstanding t) i"
  shows "accounted i enq del acks t'"
  using assms by (simp add: accounted_def)

text \<open>
  No SET is lost. In every history of a stream, what was enqueued is exactly what was
  delivered, in the same order, followed by what is pending; and every delivered SET was either
  acknowledged in a poll or is still outstanding.
\<close>

theorem no_set_lost:
  assumes "stream_run i enq del acks t"
  shows "enq = del @ get_list (it_pending t) i
    \<and> (\<forall>e \<in> set del. qe_jti e \<in> acks
         \<or> Mapping.lookup (get_map (it_outstanding t) i) (qe_jti e) \<noteq> None)"
proof -
  from assms have "accounted i enq del acks t"
  proof (induction rule: stream_run.induct)
    case (start store)
    then show ?case by (simp add: accounted_def NewMemstoreTransmitter_def get_list_def lookup_empty)
  next
    case (enqueue enq del acks t jti jws t')
    then show ?case using enqueue_effect [OF enqueue.hyps(2)] by (simp add: accounted_def)
  next
    case (poll enq del acks t req resp t' batch)
    show ?case using accounted_poll [OF poll.IH _ poll.hyps(3)] poll.hyps(2) by (simp add: PollEvents_Inr)
  next
    case (poll_other enq del acks t j req r t')
    show ?case
    proof (cases r)
      case (Inl e)
      with poll_other show ?thesis using poll_error by blast
    next
      case (Inr resp)
      with poll_other.hyps(3) obtain "get_list (it_pending t') i = get_list (it_pending t) i"
        and "get_map (it_outstanding t') i = get_map (it_outstanding t) i"
        using poll_other.hyps(2) by (auto simp: PollEvents_Inr elim!: queue_poll_effect)
      with poll_other.IH show ?thesis by (rule accounted_frame)
    qed
  next
    case (enqueue_other enq del acks t j jti jws r t')
    then show ?case using enqueue_effect [OF enqueue_other.hyps(3)]
      by (auto intro: accounted_frame)
  next
    case (delete_other enq del acks t j r t')
    then show ?case using delete_effect [OF delete_other.hyps(3)] by (auto intro: accounted_frame)
  next
    case (store_call enq del acks t s)
    then show ?case by (auto intro: accounted_frame)
  qed
  then show ?thesis by (simp add: accounted_def)
qed

section \<open>Example\<close>

definition poll_one :: poll_request where
  "poll_one = \<lparr>pq_ack = None, pq_set_errs = None, pq_max_events = Some 1, pq_return_immediately = None\<rparr>"

definition demo_a :: interop where
  "demo_a = snd (EnqueueForPoll ''s'' ''a'' ''A'' (NewMemstoreTransmitter sample_store))"

definition demo_b :: interop where "demo_b = snd (EnqueueForPoll ''s'' ''b'' ''B'' demo_a)"

lemma demo_a_step: "EnqueueForPoll ''s'' ''a'' ''A'' (NewMemstoreTransmitter sample_store) = (Inr (), demo_a)"
  by (simp add: demo_a_def EnqueueForPoll_def NewMemstoreTransmitter_def EnqueueSET_def
      sample_store_simps Let_def)

lemma demo_b_step: "EnqueueForPoll ''s'' ''b'' ''B'' demo_a = (Inr (), demo_b)"
  by (simp add: demo_b_def demo_a_def EnqueueForPoll_def NewMemstoreTransmitter_def EnqueueSET_def
      sample_store_simps Let_def)

lemma demo_pending:
  "get_list (it_pending demo_b) ''s'' = [\<lparr>qe_jti = ''a'', qe_jws = ''A''\<rparr>, \<lparr>qe_jti = ''b'', qe_jws = ''B''\<rparr>]"
  using enqueue_effect(1) [OF demo_b_step] enqueue_effect(1) [OF demo_a_step]
  by (simp add: NewMemstoreTransmitter_def get_list_def lookup_empty)

lemma demo_store: "GetStream ''s'' (it_store demo_b) = Inr (zero_config\<lparr>sc_stream_id := ''s''\<rparr>)"
  by (simp add: demo_b_def demo_a_def EnqueueForPoll_def NewMemstoreTransmitter_def EnqueueSET_def
      sample_store_simps Let_def GetStream_def)

lemma demo_poll:
  obtains resp t' where "PollEvents ''s'' poll_one demo_b = (Inr resp, t')"
  by (cases "next_batch ''s'' poll_one (record_set_errs ''s'' poll_one (apply_acks ''s'' poll_one demo_b))")
    (simp add: PollEvents_def demo_store)

theorem poll_batch_witness:
  "\<exists>resp t' batch. PollEvents ''s'' poll_one demo_b = (Inr resp, t')
     \<and> get_list (it_pending demo_b) ''s'' = batch @ get_list (it_pending t') ''s'' \<and> length batch = 1"
proof -
  obtain resp t' where p: "PollEvents ''s'' poll_one demo_b = (Inr resp, t')" by (rule demo_poll)
  have "nat (batch_cap poll_one) = 1" by (simp add: batch_cap_def poll_one_def)
  with poll_batch [OF p] p show ?thesis by (auto simp: demo_pending)
qed

theorem no_set_lost_witness:
  "\<exists>t' :: interop. [\<lparr>qe_jti = ''a'', qe_jws = ''A''\<rparr>, \<lparr>qe_jti = ''b'', qe_jws = ''B''\<rparr>]
       = [\<lparr>qe_jti = ''a'', qe_jws = ''A''\<rparr>] @ get_list (it_pending t') ''s''
     \<and> Mapping.lookup (get_map (it_outstanding t') ''s'') ''a'' \<noteq> None"
proof -
  have "stream_run ''s'' [\<lparr>qe_jti = ''a'', qe_jws = ''A''\<rparr>, \<lparr>qe_jti = ''b'', qe_jws = ''B''\<rparr>] [] {} demo_b"
    using stream_run.enqueue [OF stream_run.enqueue [OF stream_run.start demo_a_step] demo_b_step] by simp
  moreover obtain resp t' where p: "PollEvents ''s'' poll_one demo_b = (Inr resp, t')" by (rule demo_poll)
  moreover obtain batch where "get_list (it_pending demo_b) ''s'' = batch @ get_list (it_pending t') ''s''"
    "length batch = batch_size ''s'' poll_one demo_b"
    using p [unfolded PollEvents_Inr] by (elim conjE queue_poll_effect)
  moreover have "batch_size ''s'' poll_one demo_b = 1"
    by (simp add: batch_size_def demo_pending batch_cap_def poll_one_def)
  ultimately have run: "stream_run ''s'' [\<lparr>qe_jti = ''a'', qe_jws = ''A''\<rparr>, \<lparr>qe_jti = ''b'', qe_jws = ''B''\<rparr>]
      batch {} t'" and "batch = [\<lparr>qe_jti = ''a'', qe_jws = ''A''\<rparr>]"
    using stream_run.poll [of "''s''" _ "[]" "{}" demo_b poll_one resp t' batch]
    by (auto simp: poll_one_def demo_pending length_Suc_conv)
  from no_set_lost [OF run] \<open>batch = _\<close> show ?thesis by (intro exI [where x = t']) simp
qed

end
