(* ===== verification/Loopback_Store.thy ===== *)
theory Loopback_Store
  imports Loopback Interop
begin

text \<open>
  The client over the in-memory store: the transmitter of \<open>internal/interop\<close> served over HTTP. What it stores
  and returns stays within what JSON can carry as long as the calls do, so that the agreement of \<open>Loopback\<close> holds
  with no condition on the answers.
\<close>

definition wire_safe :: "delivery_registry \<Rightarrow> interop \<Rightarrow> bool" where
  "wire_safe reg t \<longleftrightarrow>
     (\<forall>i g. Mapping.lookup (ms_streams (it_store t)) i = Some g \<longrightarrow> config_ok reg g)
     \<and> (\<forall>i b k r. Mapping.lookup (ms_statuses (it_store t)) i = Some b \<longrightarrow> Mapping.lookup b k = Some r
          \<longrightarrow> raw_ok (sr_subject r))"

fun compact_call :: "'sid call \<Rightarrow> bool" where
  "compact_call (Get_Status i j) = raw_ok j"
| "compact_call _ = True"

lemma wire_safe_new: "wire_safe reg (NewMemstoreTransmitter (NewInMemoryStore seed))"
  by (simp add: wire_safe_def NewMemstoreTransmitter_def NewInMemoryStore_def lookup_empty)

lemma config_ok_id [simp]: "config_ok reg (g\<lparr>sc_stream_id := i\<rparr>) = config_ok reg g"
  by (simp add: config_ok_def)

lemma config_ok_norm [simp]: "config_ok reg (norm_config g) = config_ok reg g"
  by (simp add: config_ok_def norm_config_def)

lemma raw_ok_Nil [simp]: "raw_ok []"
  by (simp add: raw_ok_def)

lemma wire_safe_streams:
  "wire_safe reg t \<Longrightarrow> Mapping.lookup (ms_streams (it_store t)) i = Some g \<Longrightarrow> config_ok reg g"
  by (auto simp: wire_safe_def)

lemma wire_safe_statuses:
  "wire_safe reg t \<Longrightarrow> Mapping.lookup (ms_statuses (it_store t)) i = Some b \<Longrightarrow> Mapping.lookup b k = Some r
    \<Longrightarrow> raw_ok (sr_subject r)"
  by (auto simp: wire_safe_def)

lemma wire_safe_frame:
  assumes "wire_safe reg t" and "ms_streams (it_store t') = ms_streams (it_store t)"
    and "ms_statuses (it_store t') = ms_statuses (it_store t)"
  shows "wire_safe reg t'"
  using assms by (simp add: wire_safe_def)

lemma CreateStream_wire:
  assumes "wire_safe reg t" and "config_ok reg g" and "CreateStream (Some g) (it_store t) = (r, st)"
  shows "wire_safe reg (t\<lparr>it_store := st\<rparr>)" "r = Inr a \<Longrightarrow> config_ok reg a"
proof -
  show "r = Inr a \<Longrightarrow> config_ok reg a"
    using assms(2,3) by (auto simp: CreateStream_def Let_def split: if_splits)
  show "wire_safe reg (t\<lparr>it_store := st\<rparr>)"
    using assms unfolding wire_safe_def CreateStream_def Let_def
    by (auto simp: lookup_update' lookup_empty split: if_splits)
qed

lemma UpdateStream_wire:
  assumes "wire_safe reg t" and "config_ok reg g" and "UpdateStream (Some g) (it_store t) = (r, st)"
  shows "wire_safe reg (t\<lparr>it_store := st\<rparr>)" "r = Inr a \<Longrightarrow> config_ok reg a"
proof -
  show "r = Inr a \<Longrightarrow> config_ok reg a"
    using assms(2,3) by (auto simp: UpdateStream_def Let_def split: if_splits)
  show "wire_safe reg (t\<lparr>it_store := st\<rparr>)"
    using assms unfolding wire_safe_def UpdateStream_def Let_def
    by (auto simp: lookup_update' split: if_splits)
qed

lemma status_wire:
  assumes "wire_safe reg t"
  shows "raw_ok j \<Longrightarrow> GetStreamStatus i j (it_store t) = Inr a \<Longrightarrow> raw_ok (sr_subject a)"
    "raw_ok (su_subject u) \<Longrightarrow> SetStreamStatus i (Some u) (it_store t) = (r, st) \<Longrightarrow> r = Inr a' \<Longrightarrow> raw_ok (sr_subject a')"
    "raw_ok (su_subject u) \<Longrightarrow> SetStreamStatus i (Some u) (it_store t) = (r, st) \<Longrightarrow> wire_safe reg (t\<lparr>it_store := st\<rparr>)"
proof -
  show "raw_ok j \<Longrightarrow> GetStreamStatus i j (it_store t) = Inr a \<Longrightarrow> raw_ok (sr_subject a)"
    using wire_safe_statuses [OF assms]
    by (auto simp: GetStreamStatus_def split: option.splits sum.splits)
  show "raw_ok (su_subject u) \<Longrightarrow> SetStreamStatus i (Some u) (it_store t) = (r, st) \<Longrightarrow> r = Inr a' \<Longrightarrow> raw_ok (sr_subject a')"
    by (auto simp: SetStreamStatus_def Let_def split: option.splits sum.splits)
  show "raw_ok (su_subject u) \<Longrightarrow> SetStreamStatus i (Some u) (it_store t) = (r, st) \<Longrightarrow> wire_safe reg (t\<lparr>it_store := st\<rparr>)"
    using assms unfolding wire_safe_def SetStreamStatus_def Let_def
    by (auto simp: lookup_update' split: option.splits sum.splits if_splits)
qed

lemma subjects_wire:
  "AddSubject sm i (Some r) (it_store t) = (x, st) \<Longrightarrow> ms_streams st = ms_streams (it_store t) \<and> ms_statuses st = ms_statuses (it_store t)"
  "RemoveSubject sm i (Some d) (it_store t) = (x, st) \<Longrightarrow> ms_streams st = ms_streams (it_store t) \<and> ms_statuses st = ms_statuses (it_store t)"
  by (auto simp: AddSubject_def RemoveSubject_def split: option.splits sum.splits)

lemma DeleteStream_wire: "wire_safe reg t \<Longrightarrow> wire_safe reg (t\<lparr>it_store := DeleteStream i (it_store t)\<rparr>)"
  by (auto simp: wire_safe_def DeleteStream_def lookup_delete' split: if_splits)

lemma PollEvents_wire:
  assumes "PollEvents i r t = (x, t')"
  shows "it_store t' = it_store t" "x = Inr a \<Longrightarrow> poll_response_ok a"
proof -
  have fin: "finite (Mapping.keys (put_entries es m)) \<longleftrightarrow> finite (Mapping.keys m)" for es m
    by (induction es arbitrary: m) (simp_all add: put_entries_def)
  show "x = Inr a \<Longrightarrow> poll_response_ok a"
    using assms by (auto simp: PollEvents_def next_batch_def Let_def poll_response_ok_def fin split: sum.splits)
  have acks: "it_store (apply_acks i r t) = it_store t" "it_store (record_set_errs i r t) = it_store t" for t
    by (auto simp: apply_acks_def record_set_errs_def split: option.split list.split)
  show "it_store t' = it_store t"
    using assms by (auto simp: PollEvents_def next_batch_def Let_def acks split: sum.splits)
qed


section \<open>Calls keep the store wire safe\<close>

lemma tagged_result_ok: "result_ok reg (fst (tagged f r)) \<longleftrightarrow> (\<forall>a. fst r = Inr a \<longrightarrow> answer_ok reg (f a))"
  by (cases "fst r") (simp_all add: tagged_def result_ok_def)

lemma tagged_state [simp]: "snd (tagged f r) = snd r"
  by (simp add: tagged_def)

lemma on_store_parts:
  "fst (on_store f t) = fst (f (it_store t))" "snd (on_store f t) = t\<lparr>it_store := snd (f (it_store t))\<rparr>"
  by (simp_all add: on_store_def split: prod.split)

lemma call_wire_safe:
  assumes "wire_safe (sv_registry sv) t" and "call_ok sv sm k" and "compact_call k"
    and "sv_transmitter sv = MemstoreTransmitter sm'"
  defines "out \<equiv> direct_call (sv_transmitter sv) (sent_call k) t"
  shows "result_ok (sv_registry sv) (fst out) \<and> wire_safe (sv_registry sv) (snd out)"
proof -
  have store: "t\<lparr>it_store := it_store t\<rparr> = t" by simp
  note defs = out_def assms(4) MemstoreTransmitter_def NotImplementedTransmitter_def tagged_result_ok on_store_parts
  show ?thesis
  proof (cases k)
    case (Get_Config i)
    then show ?thesis using assms(1) wire_safe_streams [OF assms(1)]
      by (auto simp: defs GetStream_def split: option.splits)
  next
    case (List_Config tok)
    have "config_ok (sv_registry sv) (the (Mapping.lookup (ms_streams (it_store t)) i))"
      if "i \<in> set (Mapping.ordered_keys (ms_streams (it_store t)))" for i
    proof -
      have "i \<in> Mapping.keys (ms_streams (it_store t))" using that by (auto simp: ordered_keys_def split: if_splits)
      then show ?thesis using wire_safe_streams [OF assms(1), of i] by (auto simp: keys_dom_lookup)
    qed
    then show ?thesis using assms(1) by (auto simp: List_Config defs ListStreams_def list_all_iff apfst_def)
  next
    case (Create_Config g)
    obtain r st where c: "CreateStream (Some (norm_config g)) (it_store t) = (r, st)"
      by (cases "CreateStream (Some (norm_config g)) (it_store t)")
    have "config_ok (sv_registry sv) (norm_config g)" using assms(2) Create_Config by simp
    from CreateStream_wire [OF assms(1) this c] show ?thesis by (simp add: Create_Config defs c)
  next
    case (Update_Config g)
    obtain r st where c: "UpdateStream (Some (norm_config g)) (it_store t) = (r, st)"
      by (cases "UpdateStream (Some (norm_config g)) (it_store t)")
    have "config_ok (sv_registry sv) (norm_config g)" using assms(2) Update_Config by simp
    from UpdateStream_wire [OF assms(1) this c] show ?thesis by (simp add: Update_Config defs c)
  next
    case (Delete_Config i)
    have "wire_safe (sv_registry sv) (snd (DeleteConfig i t))"
      using wire_safe_frame [OF DeleteStream_wire [OF assms(1), of i]] by (simp add: DeleteConfig_def)
    then show ?thesis by (simp add: Delete_Config defs)
  next
    case (Get_Status i j)
    then show ?thesis using assms(1,3) status_wire(1) [OF assms(1)] by (auto simp: defs)
  next
    case (Update_Status i u)
    obtain r st where c: "SetStreamStatus i (Some u) (it_store t) = (r, st)"
      by (cases "SetStreamStatus i (Some u) (it_store t)")
    have "raw_ok (su_subject u)" using assms(2) Update_Status by simp
    from status_wire(2,3) [OF assms(1) this c] show ?thesis by (simp add: Update_Status defs c)
  next
    case (Add_Subject i r)
    obtain x st where c: "AddSubject sm' i (Some r) (it_store t) = (x, st)"
      by (cases "AddSubject sm' i (Some r) (it_store t)")
    from subjects_wire(1) [OF this] wire_safe_frame [OF assms(1)] show ?thesis by (simp add: Add_Subject defs c)
  next
    case (Remove_Subject i r)
    obtain x st where c: "RemoveSubject sm' i (Some r) (it_store t) = (x, st)"
      by (cases "RemoveSubject sm' i (Some r) (it_store t)")
    from subjects_wire(2) [OF this] wire_safe_frame [OF assms(1)] show ?thesis by (simp add: Remove_Subject defs c)
  next
    case (Verify_Stream i r)
    then show ?thesis using assms(1) by (simp add: defs)
  next
    case (Poll_Events i r)
    obtain x t' where c: "PollEvents i (norm_poll_request r) t = (x, t')" by (cases "PollEvents i (norm_poll_request r) t")
    from PollEvents_wire [OF c] wire_safe_frame [OF assms(1), of t'] show ?thesis by (simp add: Poll_Events defs c)
  qed
qed

text \<open>
  Claim C24: Well-formed calls have well-formed answers. Served over HTTP from a wire-safe state, such
  as the empty one, the in-memory transmitter answers every sequence of well-formed calls of the client exactly as
  it answers them in process, up to empty lists and the client's form of errors, and is left in the same state,
  which is wire safe again.
\<close>

theorem memstore_over_http:
  assumes "served_by c sv auth m" and "sv_transmitter sv = MemstoreTransmitter sm'"
    and "wire_safe (sv_registry sv) t" and "\<forall>k \<in> set ks. call_ok sv sm k \<and> compact_call k"
  shows "session (remote_call ip (sv_registry sv) sm c) ks t
      = (map (map_sum client_error sent_answer) (fst (direct_session sv ks t)), snd (direct_session sv ks t))
    \<and> wire_safe (sv_registry sv) (snd (direct_session sv ks t))"
  using assms(3,4)
proof (induction ks arbitrary: t)
  case Nil then show ?case by (simp add: direct_session_def)
next
  case (Cons k ks)
  obtain r t' where d: "direct_call (sv_transmitter sv) (sent_call k) t = (r, t')"
    by (cases "direct_call (sv_transmitter sv) (sent_call k) t")
  obtain rs t'' where ds: "direct_session sv ks t' = (rs, t'')" by (cases "direct_session sv ks t'")
  have k: "result_ok (sv_registry sv) r" "wire_safe (sv_registry sv) t'"
    using call_wire_safe [OF Cons.prems(1) _ _ assms(2), of sm k] Cons.prems(2) d by simp_all
  have "remote_call ip (sv_registry sv) sm c k t = (map_sum client_error sent_answer r, t')"
    using remote_call_step [OF assms(1), of sm k t ip] Cons.prems(2) k(1) d by (simp add: transported_def)
  moreover note Cons.IH [OF k(2)]
  moreover have "direct_session sv (k # ks) t = (r # rs, t'')" using d ds by (simp add: direct_session_def)
  ultimately show ?case using Cons.prems(2) ds by simp
qed

text \<open>
  The harness: \<open>StartTransmitter\<close> serves the transmitter behind \<open>AlwaysAllow\<close>. Its mux never panics, and a client
  pointed at the server's address has what the theorem asks for.
\<close>

definition StartTransmitter ::
  "delivery_registry \<Rightarrow> (string \<Rightarrow> 'sid result) \<Rightarrow> ('sid \<Rightarrow> string option) \<Rightarrow> (string \<times> interop handler) list option" where
  "StartTransmitter reg sid_parse sid_marshal =
     MuxHandler (Some \<lparr>sv_registry = reg, sv_sid_parse = sid_parse, sv_transmitter = MemstoreTransmitter sid_marshal\<rparr>)
       (Some AlwaysAllow) []"

lemma StartTransmitter_serves:
  assumes "plain_host h" and "sv = \<lparr>sv_registry = reg, sv_sid_parse = sp, sv_transmitter = MemstoreTransmitter sm\<rparr>"
  obtains routes c where "StartTransmitter reg sp sm = Some routes"
    and "NewClient ip default_client (plain_text ''http'' h [] []) [WithHTTPDoer (Some (loopback routes))] = Inr c"
    and "served_by c sv AlwaysAllow defaultMuxConfig"
proof -
  have routes: "StartTransmitter reg sp sm = Some (mux_routes sv (Some AlwaysAllow) defaultMuxConfig)"
  proof -
    have "map fst (mux_routes sv (Some AlwaysAllow) defaultMuxConfig) = mux_paths defaultMuxConfig"
      by (simp add: mux_routes_def mux_paths_def Let_def)
    moreover have "[] \<notin> set (mux_paths defaultMuxConfig)" by code_simp
    ultimately show ?thesis using default_paths(2)
      by (simp add: StartTransmitter_def assms(2) MuxHandler_def Let_def flip: set_map)
  qed
  have "plain_scheme ''http''" by (simp add: plain_scheme_def)
  from new_client_connected [OF this assms(1), of AlwaysAllow ip default_client sv] obtain c where
    "NewClient ip default_client (plain_text ''http'' h [] [])
      [WithHTTPDoer (Some (loopback (mux_routes sv (Some AlwaysAllow) defaultMuxConfig)))] = Inr c"
    "served_by c sv AlwaysAllow defaultMuxConfig"
    by (auto simp: AlwaysAllow_def)
  with routes show thesis by (rule that)
qed

text \<open>A stream created, read, deleted and looked for over HTTP.\<close>

definition store_service :: "(unit, interop) service" where
  "store_service = \<lparr>sv_registry = builtinDeliveryMethods, sv_sid_parse = (\<lambda>_. Inr ()),
     sv_transmitter = MemstoreTransmitter (\<lambda>_. None)\<rparr>"

definition small_config :: stream_config where
  "small_config = zero_config\<lparr>sc_stream_id := ''s-1'', sc_delivery := zero_delivery\<lparr>dl_method := DeliveryMethodPoll\<rparr>\<rparr>"

lemma small_config_ok: "config_ok builtinDeliveryMethods small_config" "fits (enc_config small_config)"
    "norm_config small_config = small_config"
proof -
  have "plain_factory builtinDeliveryMethods DeliveryMethodPoll"
    using registry_builtin [OF registry_reachable.builtin] by simp
  then show "config_ok builtinDeliveryMethods small_config"
    by (simp add: config_ok_def small_config_def delivery_ok_def zero_config_def zero_delivery_def int64_def)
  have q: "quote ''stream_id'' = ''stream_id''" "quote ''s-1'' = ''s-1''" "quote ''delivery'' = ''delivery''"
    "quote ''method'' = ''method''" "quote DeliveryMethodPoll = DeliveryMethodPoll"
    by code_simp+
  have "enc_config small_config = Some (mk_obj [(''stream_id'', JStr ''s-1''),
      (''delivery'', mk_obj [(''method'', JStr DeliveryMethodPoll)])])"
    by (simp add: enc_config_def small_config_def zero_config_def zero_delivery_def enc_delivery_def om_defs q)
      (simp add: DeliveryMethodPoll_def)
  then show "fits (enc_config small_config)"
    by (simp add: fits_def mk_obj_def maxBody_def DeliveryMethodPoll_def)
  show "norm_config small_config = small_config"
    by (simp add: norm_config_def small_config_def zero_config_def norm_strs_def)
qed

theorem memstore_over_http_witness:
  "\<exists>c. let t0 = NewMemstoreTransmitter (NewInMemoryStore ''00000000'');
       ks = [Create_Config small_config, Get_Config ''s-1'', Delete_Config ''s-1'', Get_Config ''s-1'']
   in fst (session (remote_call Inr builtinDeliveryMethods (\<lambda>_ :: unit. None) c) ks t0)
      = [Inr (Config_Answer small_config), Inr (Config_Answer small_config), Inr Done_Answer,
         Inl (client_error (not_found ''GetStream'' ''s-1''))]"
proof -
  let ?t = "NewMemstoreTransmitter (NewInMemoryStore ''00000000'')"
    and ?ks = "[Create_Config small_config, Get_Config ''s-1'', Delete_Config ''s-1'', Get_Config ''s-1'']"
  have "plain_host ''127.0.0.1:8080''" by code_simp
  from StartTransmitter_serves [OF this store_service_def] obtain c where
    c: "served_by c store_service AlwaysAllow defaultMuxConfig" by metis
  have id: "sc_stream_id small_config = ''s-1''" "small_config\<lparr>sc_stream_id := ''s-1''\<rparr> = small_config"
    by (simp_all add: small_config_def)
  have "fst (direct_session store_service ?ks ?t)
      = [Inr (Config_Answer small_config), Inr (Config_Answer small_config), Inr Done_Answer, Inl (not_found ''GetStream'' ''s-1'')]"
    by (simp add: direct_session_def store_service_def MemstoreTransmitter_def DeleteConfig_def on_store_def GetStream_def
        CreateStream_def Let_def id small_config_ok(3) DeleteStream_def NewMemstoreTransmitter_def NewInMemoryStore_def
        lookup_delete' lookup_update' lookup_empty)
  moreover have "session (remote_call Inr (sv_registry store_service) (\<lambda>_ :: unit. None) c) ?ks ?t
      = (map (map_sum client_error sent_answer) (fst (direct_session store_service ?ks ?t)), snd (direct_session store_service ?ks ?t))
      \<and> wire_safe (sv_registry store_service) (snd (direct_session store_service ?ks ?t))"
    by (rule memstore_over_http [OF c]) (simp_all add: store_service_def wire_safe_new small_config_ok)
  ultimately show ?thesis unfolding Let_def by (intro exI [of _ c]) (simp add: store_service_def small_config_ok)
qed

end
