(* ===== verification/Poll_Over_Http.thy ===== *)
theory Poll_Over_Http
  imports Poll_Link Loopback_Store
begin

text \<open>
  The poller against the library's own poll endpoint: its requests are served by the mux over the in-memory
  transmitter, which is an interpretation of \<open>poll_endpoint\<close>; so what is enqueued for a stream reaches the sink, and
  the transmitter learns what became of it.
\<close>

section \<open>The exchange\<close>

definition poll_exchange ::
  "(string \<Rightarrow> string + string) \<Rightarrow> (string \<times> 's handler) list \<Rightarrow> poll_post \<Rightarrow> 's \<Rightarrow> post_outcome \<times> 's" where
  "poll_exchange ip routes post t =
     (case NewRequest ip ''POST'' (pp_url post) (Some (jprint (enc_poll_request (pp_body post)))) of
        Inl e \<Rightarrow> (Build_Error e, t)
      | Inr req \<Rightarrow> (case serve_mux routes (server_request req) t of
          (resp, t') \<Rightarrow> (Response (rs_status resp)
             (case map_of (rs_headers resp) ''Retry-After'' of None \<Rightarrow> [] | Some v \<Rightarrow> v) (rs_body resp), t')))"

text \<open>A poll URL of stream \<open>i\<close>, and a service that serves it with the polls of the in-memory transmitter.\<close>

definition poll_url :: "string \<Rightarrow> string \<Rightarrow> string list \<Rightarrow> string \<Rightarrow> string" where
  "poll_url scheme h es i = plain_text scheme h es (values_Encode (by_stream i))"

definition polls_at :: "('sid, interop) service \<Rightarrow> auth_func \<Rightarrow> mux_config \<Rightarrow> string \<Rightarrow> string \<Rightarrow> bool" where
  "polls_at sv auth mc i url \<longleftrightarrow>
     tm_PollEvents (sv_transmitter sv) = PollEvents \<and> (\<forall>rq. \<exists>scope. auth rq = Inr scope) \<and> distinct (mux_paths mc)
     \<and> i \<noteq> []
     \<and> (\<exists>scheme h es. plain_scheme scheme \<and> plain_host h \<and> list_all plain_seg es \<and> mc_poll mc = path_of es
          \<and> url = poll_url scheme h es i)"

definition poll_accepts :: "('sid, interop) service \<Rightarrow> auth_func \<Rightarrow> mux_config \<Rightarrow> string \<Rightarrow> poll_post \<Rightarrow> bool" where
  "poll_accepts sv auth mc i post \<longleftrightarrow> polls_at sv auth mc i (pp_url post)
     \<and> poll_request_ok (pp_body post) \<and> fits (Some (enc_poll_request (pp_body post))) \<and> pq_max_events (pp_body post) \<noteq> None"

definition poll_queue :: "string \<Rightarrow> interop \<Rightarrow> (string \<times> string) list" where
  "poll_queue i t = map (\<lambda>e. (qe_jti e, qe_jws e)) (get_list (it_pending t) i)"

definition poll_ready :: "string \<Rightarrow> interop \<Rightarrow> bool" where
  "poll_ready i t \<longleftrightarrow> \<not> isl (GetStream i (it_store t)) \<and> distinct (map fst (poll_queue i t))"

definition poll_outstanding :: "string \<Rightarrow> interop \<Rightarrow> string set" where
  "poll_outstanding i t = Mapping.keys (get_map (it_outstanding t) i)"

definition poll_reports :: "string \<Rightarrow> interop \<Rightarrow> string \<Rightarrow> set_err option" where
  "poll_reports i t = Mapping.lookup (get_map (it_set_errs t) i)"

lemma poll_exchange_served:
  assumes "poll_accepts sv auth mc i post"
  shows "poll_exchange ip (mux_routes sv (Some auth) mc) post t =
    (case PollEvents i (norm_poll_request (pp_body post)) t of (r, t') \<Rightarrow>
       (let resp = (case r of Inl e \<Rightarrow> writeProblem e | Inr a \<Rightarrow> writeJSON 200 (Some (enc_poll_response a))) in
        (Response (rs_status resp) (case map_of (rs_headers resp) ''Retry-After'' of None \<Rightarrow> [] | Some v \<Rightarrow> v) (rs_body resp), t')))"
proof -
  obtain scheme h es where u: "plain_scheme scheme" "plain_host h" "list_all plain_seg es" "mc_poll mc = path_of es"
      "pp_url post = plain_text scheme h es (values_Encode (by_stream i))"
    and sv: "tm_PollEvents (sv_transmitter sv) = PollEvents" "\<forall>rq. \<exists>scope. auth rq = Inr scope" "distinct (mux_paths mc)" "i \<noteq> []"
    using assms by (auto simp: poll_accepts_def polls_at_def poll_url_def)
  let ?body = "jprint (enc_poll_request (pp_body post))"
  let ?rq = "served ''POST'' (mc_poll mc) (by_stream i) ?body"
  have "NewRequest ip ''POST'' (pp_url post) (Some ?body)
      = Inr \<lparr>cq_method = ''POST'', cq_url = plain_url scheme h es (values_Encode (by_stream i)), cq_headers = [], cq_body = Some ?body\<rparr>"
    using url_Parse_plain [OF u(1-3), of "values_Encode (by_stream i)" ip] u(2,5)
    by (simp add: NewRequest_def) (simp add: plain_url_def)
  moreover have "by_stream i \<noteq> Mapping.empty" using lookup_update' [of "''stream_id''" "[i]" Mapping.empty "''stream_id''"]
    by (metis lookup_empty option.distinct(1))
  then have "server_request \<lparr>cq_method = ''POST'', cq_url = plain_url scheme h es (values_Encode (by_stream i)), cq_headers = [],
      cq_body = Some ?body\<rparr> = ?rq"
    by (simp add: server_request_def served_def plain_url_def u(4))
  moreover have "rq_path ?rq = mc_poll mc" by (simp add: served_def)
  moreover have "runAuth (Some auth) ?rq = None" using sv(2) by (simp add: runAuth_def) (metis sum.case(2))
  moreover have "query_get ?rq ''stream_id'' = i" by (simp add: query_served lookup_update')
  moreover have "body_read (Some (enc_poll_request (pp_body post))) (\<lambda>d. of_json (unmarshal dec_poll_request d)) (norm_poll_request (pp_body post))"
    using carries_body_read [OF carries_poll_request] assms by (simp add: poll_accepts_def)
  from with_body_served [OF this] have "with_body (\<lambda>d. of_json (unmarshal dec_poll_request d)) ?rq t f = f (norm_poll_request (pp_body post))" for f
    using assms by (simp add: poll_accepts_def fits_def)
  ultimately show ?thesis
    using mux_routes_path(6) [OF sv(3), of sv "Some auth"] sv(1,4)
    by (simp add: poll_exchange_def serve_mux_def PollHandler_def post_handler_def Let_def reply_def
        split: prod.split sum.split)
qed

section \<open>What a poll does to the transmitter\<close>

lemma acked_norm [simp]: "acked (pq_ack (norm_poll_request r)) = acked (pq_ack r)"
  by (simp add: norm_poll_request_def norm_strs_def)

lemma asked_norm [simp]: "pq_max_events (norm_poll_request r) = pq_max_events r"
  by (simp add: norm_poll_request_def)

lemma lookup_no_keys: "Mapping.keys m = {} \<Longrightarrow> Mapping.lookup m j = None"
  by (simp add: lookup_None_keys)

lemma reported_norm:
  assumes "poll_request_ok r"
  shows "Mapping.lookup (reported (pq_set_errs (norm_poll_request r))) j = Mapping.lookup (reported (pq_set_errs r)) j"
proof (cases "pq_set_errs r")
  case (Some m)
  then have "Mapping.ordered_keys m = [] \<Longrightarrow> Mapping.lookup m j = None"
    using assms by (intro lookup_no_keys) (simp add: poll_request_ok_def ordered_keys_def)
  with Some show ?thesis by (simp add: norm_poll_request_def lookup_empty)
qed (simp add: norm_poll_request_def)

lemma record_reports:
  "Mapping.lookup (get_map (it_set_errs (record_set_errs i req t)) i) j = overlay (reported (pq_set_errs req)) (poll_reports i t) j"
proof (cases "pq_set_errs req")
  case None
  then show ?thesis by (simp add: record_set_errs_def overlay_def lookup_empty poll_reports_def)
next
  case (Some m)
  have "Mapping.is_empty m \<Longrightarrow> Mapping.lookup m j = None" by (rule lookup_no_keys) (simp add: Mapping.is_empty_def)
  with Some show ?thesis
    by (simp add: record_set_errs_def overlay_def poll_reports_def put_all_def lookup_combine combine_options_def split: option.split)
qed

lemma poll_reports_effect:
  assumes "PollEvents i req t = (Inr resp, t')"
  shows "poll_reports i t' = overlay (reported (pq_set_errs req)) (poll_reports i t)"
proof
  fix j
  let ?t = "record_set_errs i req (apply_acks i req t)"
  have "next_batch i req ?t = (resp, t')" using assms by (simp add: PollEvents_def split: sum.splits prod.splits)
  then have "it_set_errs t' = it_set_errs ?t" by (auto simp: next_batch_def Let_def)
  then have "poll_reports i t' j = overlay (reported (pq_set_errs req)) (poll_reports i (apply_acks i req t)) j"
    by (simp add: poll_reports_def [of i t'] record_reports)
  also have "poll_reports i (apply_acks i req t) = poll_reports i t"
    by (simp add: poll_reports_def apply_acks_def split: option.split list.split)
  finally show "poll_reports i t' j = overlay (reported (pq_set_errs req)) (poll_reports i t) j" .
qed

text \<open>A poll of a stream that exists, in the terms of the interface.\<close>

text \<open>The entries a poll takes off the queue: as many as the request asks for.\<close>

lemma served_entries:
  assumes "poll_accepts sv auth mc i post" and "poll_ready i t"
    and "PollEvents i (norm_poll_request (pp_body post)) t = (Inr resp, t2)"
  obtains es where "take (asked_for post) (poll_queue i t) = map (\<lambda>e. (qe_jti e, qe_jws e)) es" "distinct (map qe_jti es)"
    "poll_queue i t2 = drop (asked_for post) (poll_queue i t)" "pr_sets resp = Some (put_entries es Mapping.empty)"
    "\<And>k. Mapping.lookup (get_map (it_outstanding t2) i) k = Mapping.lookup
        (put_entries es (get_map (it_outstanding (apply_acks i (norm_poll_request (pp_body post)) t)) i)) k"
    "it_store t2 = it_store t"
proof -
  let ?req = "norm_poll_request (pp_body post)"
  obtain es where es: "get_list (it_pending t) i = es @ get_list (it_pending t2) i"
      "length es = batch_size i ?req t" "pr_sets resp = Some (put_entries es Mapping.empty)"
    and out: "\<And>k. Mapping.lookup (get_map (it_outstanding t2) i) k =
        Mapping.lookup (put_entries es (get_map (it_outstanding (apply_acks i ?req t)) i)) k"
    and store: "it_store t2 = it_store t"
    using assms(3) [unfolded PollEvents_Inr] by (elim conjE queue_poll_effect) blast
  have "nat (batch_cap ?req) = asked_for post"
    using assms(1) by (auto simp: poll_accepts_def batch_cap_def asked_for_def)
  then have "length es = min (length (get_list (it_pending t) i)) (asked_for post)"
    by (simp add: es(2) batch_size_def)
  then have "es = take (asked_for post) (get_list (it_pending t) i)"
    "get_list (it_pending t2) i = drop (asked_for post) (get_list (it_pending t) i)"
    using es(1) by (auto simp: min_def split: if_splits)
  then have b: "take (asked_for post) (poll_queue i t) = map (\<lambda>e. (qe_jti e, qe_jws e)) es"
    and q: "poll_queue i t2 = drop (asked_for post) (poll_queue i t)"
    by (simp_all add: poll_queue_def take_map drop_map)
  have "distinct (map fst (take (asked_for post) (poll_queue i t)))"
    using assms(2) by (simp add: poll_ready_def take_map [symmetric])
  then have "distinct (map qe_jti es)" by (simp add: b comp_def)
  then show thesis using that b q es(3) out store by blast
qed

lemma poll_served:
  assumes "poll_accepts sv auth mc i post" and "poll_ready i t"
    and "poll_exchange ip (mux_routes sv (Some auth) mc) post t = (outcome, t')"
  defines "batch \<equiv> take (asked_for post) (poll_queue i t)"
  shows "\<exists>ra body resp sets. outcome = Response 200 ra body
      \<and> decode_stream dec_poll_response body = Inr resp \<and> pr_sets resp = Some sets \<and> finite (Mapping.keys sets)
      \<and> (\<forall>j w. Mapping.lookup sets j = Some w \<longleftrightarrow> (j, w) \<in> set batch)"
    and "poll_ready i t'" and "poll_queue i t' = drop (asked_for post) (poll_queue i t)"
    and "poll_outstanding i t' = (poll_outstanding i t - set (acked (pq_ack (pp_body post)))) \<union> fst ` set batch"
    and "poll_reports i t' = overlay (reported (pq_set_errs (pp_body post))) (poll_reports i t)"
proof -
  let ?req = "norm_poll_request (pp_body post)"
  obtain cfg where "GetStream i (it_store t) = Inr cfg"
    using assms(2) by (cases "GetStream i (it_store t)") (simp_all add: poll_ready_def)
  then obtain resp t2 where poll: "PollEvents i ?req t = (Inr resp, t2)"
    by (cases "next_batch i ?req (record_set_errs i ?req (apply_acks i ?req t))") (simp add: PollEvents_def)
  have o: "outcome = Response 200 [] (jprint (enc_poll_response resp))" "t' = t2"
    using poll_exchange_served [OF assms(1), of ip t] assms(3) by (simp_all add: poll writeJSON_def)
  obtain es where b: "batch = map (\<lambda>e. (qe_jti e, qe_jws e)) es" and dist: "distinct (map qe_jti es)"
    and q: "poll_queue i t2 = drop (asked_for post) (poll_queue i t)" and sets: "pr_sets resp = Some (put_entries es Mapping.empty)"
    and out: "\<And>k. Mapping.lookup (get_map (it_outstanding t2) i) k =
        Mapping.lookup (put_entries es (get_map (it_outstanding (apply_acks i ?req t)) i)) k"
    and store: "it_store t2 = it_store t"
    by (rule served_entries [OF assms(1,2) poll, folded batch_def]) (rule that)
  have jtis: "fst ` set batch = qe_jti ` set es" by (force simp: b)
  have look: "Mapping.lookup (put_entries es Mapping.empty) j = Some w \<longleftrightarrow> (j, w) \<in> set batch" for j w
    using lookup_put_entries [OF dist, of _ Mapping.empty] lookup_put_entries_notin [of j es Mapping.empty]
    by (cases "j \<in> qe_jti ` set es") (auto simp: b lookup_empty)
  have "poll_response_ok resp" using PollEvents_wire(2) [OF poll refl] .
  then have doc: "decode_stream dec_poll_response (jprint (enc_poll_response resp)) = Inr resp" and
      fin: "finite (Mapping.keys (put_entries es Mapping.empty))"
    using carries_poll_response [of resp] parse_prefix_jprint [of "enc_poll_response resp" "[]"]
    by (auto simp: carries_def decode_stream_def poll_response_ok_def sets)
  show "\<exists>ra body resp sets. outcome = Response 200 ra body
      \<and> decode_stream dec_poll_response body = Inr resp \<and> pr_sets resp = Some sets \<and> finite (Mapping.keys sets)
      \<and> (\<forall>j w. Mapping.lookup sets j = Some w \<longleftrightarrow> (j, w) \<in> set batch)"
    using o(1) doc sets fin look by blast
  show "poll_queue i t' = drop (asked_for post) (poll_queue i t)" using q o(2) by simp
  then show "poll_ready i t'" using assms(2) by (simp add: poll_ready_def o(2) store drop_map [symmetric])
  have "k \<in> poll_outstanding i t2 \<longleftrightarrow> k \<in> (poll_outstanding i t - set (acked (pq_ack (pp_body post)))) \<union> fst ` set batch" for k
  proof -
    have acks: "(case pq_ack ?req of None \<Rightarrow> [] | Some js \<Rightarrow> js) = acked (pq_ack (pp_body post))"
      using acked_norm [of "pp_body post"] unfolding acked_def .
    show ?thesis
      using lookup_put_entries_in [of k es] lookup_put_entries_notin [of k es]
      by (cases "k \<in> qe_jti ` set es")
        (auto simp: jtis poll_outstanding_def keys_dom_lookup out acks_effect(3) acks split: if_splits)
  qed
  then show "poll_outstanding i t' = (poll_outstanding i t - set (acked (pq_ack (pp_body post)))) \<union> fst ` set batch"
    using o(2) by blast
  have "overlay (reported (pq_set_errs ?req)) f = overlay (reported (pq_set_errs (pp_body post))) f" for f
    using reported_norm assms(1) by (simp add: overlay_def [abs_def] poll_accepts_def)
  then show "poll_reports i t' = overlay (reported (pq_set_errs (pp_body post))) (poll_reports i t)"
    using poll_reports_effect [OF poll] o(2) by simp
qed

interpretation mem_poll: poll_endpoint "poll_exchange ip (mux_routes sv (Some auth) mc)" "poll_accepts sv auth mc i"
    "poll_ready i" "poll_queue i" "poll_outstanding i" "poll_reports i"
  for ip sv auth mc i
proof unfold_locales
  fix post t
  assume p: "poll_accepts sv auth mc i post" "poll_ready i t"
  note served = poll_served [OF p prod.collapse [symmetric], where ip = ip]
  show "\<exists>ra body resp sets. fst (poll_exchange ip (mux_routes sv (Some auth) mc) post t) = Response 200 ra body
      \<and> decode_stream dec_poll_response body = Inr resp \<and> pr_sets resp = Some sets \<and> finite (Mapping.keys sets)
      \<and> (\<forall>j w. Mapping.lookup sets j = Some w \<longleftrightarrow> (j, w) \<in> set (take (asked_for post) (poll_queue i t)))"
    by (rule served(1))
qed (simp add: poll_ready_def, (rule poll_served(2-5) [OF _ _ prod.collapse [symmetric]]; assumption)+)

section \<open>From the queue to the sink\<close>

text \<open>The states of both ends, and the environment of the poller.\<close>

definition polling ::
  "(string \<Rightarrow> string + string) \<Rightarrow> ('sid, interop) service \<Rightarrow> auth_func \<Rightarrow> mux_config \<Rightarrow> (string \<Rightarrow> string result) \<Rightarrow> 's sink
     \<Rightarrow> (string \<Rightarrow> int option) \<Rightarrow> (nat \<Rightarrow> round_env) \<Rightarrow> 's poll_state \<Rightarrow> interop \<Rightarrow> nat \<Rightarrow> 's poll_state \<times> interop" where
  "polling ip sv auth mc verify sink pt env st t = linked (poll_exchange ip (mux_routes sv (Some auth) mc)) verify sink pt env (st, t)"

definition polling_env ::
  "(string \<Rightarrow> string + string) \<Rightarrow> ('sid, interop) service \<Rightarrow> auth_func \<Rightarrow> mux_config \<Rightarrow> (string \<Rightarrow> string result) \<Rightarrow> 's sink
     \<Rightarrow> (string \<Rightarrow> int option) \<Rightarrow> (nat \<Rightarrow> round_env) \<Rightarrow> 's poll_state \<Rightarrow> interop \<Rightarrow> nat \<Rightarrow> round_env" where
  "polling_env ip sv auth mc verify sink pt env st t
     = linked_env (poll_exchange ip (mux_routes sv (Some auth) mc)) verify sink pt env (st, t)"

lemma polling_accepts:
  assumes "polls_at sv auth mc i (po_endpoint p)" and "int64 (po_max_events p)"
    and "fits (Some (enc_poll_request (pp_body (request_of (fst (linked ex verify sink pt env (start_poller p s, t) k))))))"
  shows "poll_accepts sv auth mc i (request_of (fst (linked ex verify sink pt env (start_poller p s, t) k)))"
proof -
  let ?st = "fst (linked ex verify sink pt env (start_poller p s, t) k)"
  have "same_setup (pl_poller ?st) p" "finite (Mapping.keys (reported (pl_set_errs ?st)))"
    using linked_keeps [of "start_poller p s" ex verify sink pt env t k] by (simp_all add: start_poller_def)
  then show ?thesis
    using assms by (auto simp: poll_accepts_def request_of_def buildRequest_def same_setup_def poll_request_ok_def split: option.split)
qed

lemma polling_settles:
  assumes "polls_at sv auth mc i (po_endpoint p)" and "int64 (po_max_events p)" and "poll_ready i t"
    and "\<forall>j \<in> fst ` set (poll_queue i t). poll_reports i t j = None" and "\<forall>k. quiet (env k)"
    and "\<forall>k < n. fits (Some (enc_poll_request (pp_body (request_of
           (fst (polling ip sv auth mc verify sink pt env (start_poller p s) t k))))))"
    and "length (poll_queue i t) \<le> r * nat (po_max_events p)" and "r < n"
    and "polling ip sv auth mc verify sink pt env (start_poller p s) t n = (st', t')"
  shows "\<exists>evs. poll_run verify sink pt (polling_env ip sv auth mc verify sink pt env (start_poller p s) t) n 0 (start_poller p s)
        = (None, evs, st')"
    and "\<exists>es. mset es = mset (poll_queue i t) \<and> pl_sink st' = fold (\<lambda>p s. snd (sink p s)) (verified verify es) s"
    and "poll_queue i t' = []"
    and "(j, w) \<in> set (poll_queue i t) \<Longrightarrow> answered verify sink w (j \<notin> poll_outstanding i t') (poll_reports i t' j)"
proof -
  note defs = polling_def polling_env_def
  have acc: "\<forall>k < n. poll_accepts sv auth mc i (request_of (fst (linked (poll_exchange ip (mux_routes sv (Some auth) mc))
      verify sink pt env (start_poller p s, t) k)))"
    by (intro allI impI polling_accepts [OF assms(1,2)]) (use assms(6) in \<open>simp add: defs\<close>)
  have start: "acked (pl_ack (start_poller p s)) = []" "reported (pl_set_errs (start_poller p s)) = Mapping.empty"
    "pl_poller (start_poller p s) = p" "pl_sink (start_poller p s) = s"
    by (simp_all add: start_poller_def)
  note settled = mem_poll.linked_settles [OF assms(5,3) start(1,2) assms(4) acc assms(9) [unfolded defs] _ assms(8), unfolded start,
    OF assms(7)]
  have "\<forall>k. alive (env k)" using assms(5) by (simp add: quiet_def)
  from linked_is_run [OF this, of verify sink pt] assms(9)
  show "\<exists>evs. poll_run verify sink pt (polling_env ip sv auth mc verify sink pt env (start_poller p s) t) n 0 (start_poller p s)
        = (None, evs, st')" unfolding defs by (metis fst_conv)
  show "\<exists>es. mset es = mset (poll_queue i t) \<and> pl_sink st' = fold (\<lambda>p s. snd (sink p s)) (verified verify es) s"
    "poll_queue i t' = []" by (rule settled(2), rule settled(1))
  show "answered verify sink w (j \<notin> poll_outstanding i t') (poll_reports i t' j)" if "(j, w) \<in> set (poll_queue i t)"
    using settled(3) [OF that] .
qed

text \<open>
  Claim C5: What is enqueued is delivered. While nothing cancels it, a poller whose endpoint is the poll URL of a
  stream served from the in-memory transmitter hands each SET that was pending to the verifier and the verified ones
  to the sink, once, within the rounds the size of the queue asks for; one round later the queue is empty, the
  transmitter waits for no acknowledgement of a SET the sink took or refused for good, still waits for those that
  failed verification or were refused for now, and knows the error of each SET that was refused.
\<close>

theorem polled_sets_settle:
  assumes "polls_at sv auth mc i (po_endpoint p)" and "int64 (po_max_events p)" and "poll_ready i t"
    and "\<forall>j \<in> fst ` set (poll_queue i t). poll_reports i t j = None" and "\<forall>k. quiet (env k)"
    and "\<forall>k < n. fits (Some (enc_poll_request (pp_body (request_of
           (fst (polling ip sv auth mc verify sink pt env (start_poller p s) t k))))))"
    and "length (poll_queue i t) \<le> r * nat (po_max_events p)" and "r < n"
    and "polling ip sv auth mc verify sink pt env (start_poller p s) t n = (st', t')"
  shows "(\<exists>evs. poll_run verify sink pt (polling_env ip sv auth mc verify sink pt env (start_poller p s) t) n 0 (start_poller p s)
        = (None, evs, st'))
    \<and> (\<exists>es. mset es = mset (poll_queue i t) \<and> pl_sink st' = fold (\<lambda>p s. snd (sink p s)) (verified verify es) s)
    \<and> poll_queue i t' = []
    \<and> (\<forall>j w. (j, w) \<in> set (poll_queue i t) \<longrightarrow> answered verify sink w (j \<notin> poll_outstanding i t') (poll_reports i t' j))"
  using polling_settles [OF assms] by (intro conjI allI impI) assumption+

section \<open>Example\<close>

definition sorted_entries :: "(string, string) mapping \<Rightarrow> (string \<times> string) list" where
  "sorted_entries m = map (\<lambda>k. (k, case Mapping.lookup m k of None \<Rightarrow> [] | Some v \<Rightarrow> v)) (Mapping.ordered_keys m)"

lemma sorted_enumerates: "enumerates sorted_entries"
  by (auto simp: enumerates_def sorted_entries_def ordered_keys_def comp_def keys_dom_lookup image_iff split: option.split)

definition quiet_round :: round_env where
  "quiet_round = (sample_round (Transport_Error (Opaque [])))\<lparr>re_enum := sorted_entries\<rparr>"

lemma quiet_round_quiet: "quiet quiet_round"
  by (simp add: quiet_def quiet_round_def sample_round_def alive_def sorted_enumerates)

definition queued :: interop where
  "queued = snd (EnqueueForPoll ''s'' ''a'' ''.k.payload'' (NewMemstoreTransmitter sample_store))"

lemma queued_facts: "poll_queue ''s'' queued = [(''a'', ''.k.payload'')]" "poll_ready ''s'' queued"
    "poll_reports ''s'' queued j = None"
  by (simp_all add: queued_def poll_queue_def poll_ready_def poll_reports_def EnqueueForPoll_def NewMemstoreTransmitter_def
      EnqueueSET_def sample_store_simps Let_def GetStream_def get_list_def get_map_def lookup_empty lookup_update')

definition queued_poller :: poller where
  "queued_poller = NewPoller (poll_url ''https'' ''t.example'' [''streams'', ''poll''] ''s'') []"

lemma queued_poller_facts: "polls_at store_service AlwaysAllow defaultMuxConfig ''s'' (po_endpoint queued_poller)"
    "po_max_events queued_poller = 100" "po_parallelism queued_poller = 1"
proof -
  have "plain_host ''t.example''" "list_all plain_seg [''streams'', ''poll'']" "mc_poll defaultMuxConfig = path_of [''streams'', ''poll'']"
    by code_simp+
  moreover have "plain_scheme ''https''" by (simp add: plain_scheme_def)
  ultimately have "\<exists>scheme h es. plain_scheme scheme \<and> plain_host h \<and> list_all plain_seg es \<and> mc_poll defaultMuxConfig = path_of es
      \<and> po_endpoint queued_poller = poll_url scheme h es ''s''"
    by (intro exI [of _ "''https''"] exI [of _ "''t.example''"] exI [of _ "[''streams'', ''poll'']"])
      (simp add: queued_poller_def NewPoller_def)
  then show "polls_at store_service AlwaysAllow defaultMuxConfig ''s'' (po_endpoint queued_poller)"
    unfolding polls_at_def using default_paths(2) by (auto simp: store_service_def AlwaysAllow_def MemstoreTransmitter_def)
  show "po_max_events queued_poller = 100" "po_parallelism queued_poller = 1"
    by (simp_all add: queued_poller_def NewPoller_def defaultMaxEvents_def defaultParallelism_def)
qed

lemma small_requests:
  "jprint (enc_poll_request \<lparr>pq_ack = None, pq_set_errs = None, pq_max_events = Some 100, pq_return_immediately = None\<rparr>)
     = ''{\"maxEvents\":100}''"
  "jprint (enc_poll_request \<lparr>pq_ack = Some [''a''], pq_set_errs = None, pq_max_events = Some 100, pq_return_immediately = None\<rparr>)
     = ''{\"ack\":[\"a\"],\"maxEvents\":100}''"
  by code_simp+

abbreviation toy_verifier :: "string \<Rightarrow> string result" where
  "toy_verifier \<equiv> Verify (\<lambda>_. []) toy_jose [''a'', ''k'']"

lemma distinct_one: "distinct xs \<Longrightarrow> set xs = {a} \<Longrightarrow> xs = [a]"
  by (cases xs rule: remdups_adj.cases) auto

lemma process_single:
  assumes "pr_sets pr = Some sets" and "enum sets = [(j, w)]" and "Mapping.lookup sets j \<noteq> None"
    and "verify w = Inr payload" and "fst (sink payload s) = None"
  shows "\<exists>oc. process verify sink 1 enum landing pr s = (oc, snd (sink payload s))
    \<and> pt_ack oc = Some [j] \<and> pt_set_errs oc = None"
proof -
  have "\<not> Mapping.is_empty sets" using assms(3) by (auto simp: Mapping.is_empty_def lookup_no_keys)
  then show ?thesis using assms(1,2,4,5)
    by (cases "sink payload s") (simp add: process_def deliverOne_def collect_acks_def collect_errs_def)
qed

text \<open>One SET with the id \<open>a\<close> that is taken: the requests of both rounds are small.\<close>

lemma single_requests:
  fixes t :: interop and s :: "'s"
  assumes at: "polls_at sv AlwaysAllow defaultMuxConfig ''s'' (po_endpoint queued_poller)"
    and queue: "poll_queue ''s'' t = [(''a'', w)]" "poll_ready ''s'' t"
    and taken: "verify w = Inr payload" "fst (sink payload s) = None" and k: "k < 2"
  shows "fits (Some (enc_poll_request (pp_body (request_of (fst (polling Inr sv AlwaysAllow defaultMuxConfig verify
     sink Map.empty (\<lambda>_. quiet_round) (start_poller queued_poller s) t k))))))"
proof -
  let ?st = "start_poller queued_poller s"
  let ?ex = "poll_exchange Inr (mux_routes sv (Some AlwaysAllow) defaultMuxConfig)"
  have st: "pl_poller ?st = queued_poller" "pl_ack ?st = None" "pl_set_errs ?st = None" "pl_sink ?st = s"
    by (simp_all add: start_poller_def)
  have body: "pp_body (request_of st) = \<lparr>pq_ack = pl_ack st, pq_set_errs = pl_set_errs st, pq_max_events = Some (po_max_events (pl_poller st)),
      pq_return_immediately = None\<rparr>" for st :: "'s poll_state"
    by (simp add: request_of_def buildRequest_def)
  have first: "fits (Some (enc_poll_request (pp_body (request_of ?st))))"
    by (simp add: body st queued_poller_facts fits_def small_requests maxBody_def)
  then have acc: "poll_accepts sv AlwaysAllow defaultMuxConfig ''s'' (request_of ?st)"
    using polling_accepts [OF at, of ?ex verify sink Map.empty "\<lambda>_. quiet_round" s t 0]
    by (simp add: queued_poller_facts int64_def)
  obtain outcome t1 where ex: "?ex (request_of ?st) t = (outcome, t1)" by (metis surj_pair)
  have "asked_for (request_of ?st) = 100" by (simp add: asked_for_def body st queued_poller_facts)
  with poll_served(1) [OF acc queue(2) ex] obtain ra raw resp sets where o: "outcome = Response 200 ra raw"
      "decode_stream dec_poll_response raw = Inr resp" "pr_sets resp = Some sets" "finite (Mapping.keys sets)"
    and look: "\<And>j v. Mapping.lookup sets j = Some v \<longleftrightarrow> (j, v) \<in> {(''a'', w)}"
    by (auto simp: queue)
  let ?e = "quiet_round\<lparr>re_outcome := outcome\<rparr>"
  have "distinct (map fst (sorted_entries sets))" "set (sorted_entries sets) = {(''a'', w)}"
    using sorted_enumerates o(4) look by (auto simp: enumerates_def)
  then have "sorted_entries sets = [(''a'', w)]"
    by (intro distinct_one) (simp_all add: distinct_map)
  moreover have "re_enum ?e = sorted_entries" by (simp add: quiet_round_def)
  ultimately obtain oc where run: "process verify sink (po_parallelism (pl_poller ?st)) (re_enum ?e) (re_landing ?e) resp (pl_sink ?st)
      = (oc, snd (sink payload s))" "pt_ack oc = Some [''a'']" "pt_set_errs oc = None"
    using process_single [OF o(3), of "re_enum ?e" "''a''" w verify payload sink s "re_landing ?e"] look [of "''a''" w] taken
    by (auto simp: st queued_poller_facts)
  have alive: "alive ?e" using quiet_round_quiet by (simp add: quiet_def alive_def)
  have out: "re_outcome ?e = Response 200 ra raw" by (simp add: o(1))
  note next_state = answered_round [OF alive out o(2) run(1) refl, of Map.empty]
  have "fits (Some (enc_poll_request (pp_body (request_of (snd (snd (poll_round verify sink Map.empty ?e ?st)))))))"
    using next_state run(2,3)
    by (simp add: body st same_setup_def queued_poller_facts fits_def small_requests maxBody_def)
  moreover have "k = 0 \<or> k = Suc 0" using k by linarith
  ultimately show ?thesis using first by (auto simp: polling_def ex)
qed

lemma queued_requests:
  "fits (Some (enc_poll_request (pp_body (request_of (fst (polling Inr store_service AlwaysAllow defaultMuxConfig toy_verifier
     list_sink Map.empty (\<lambda>_. quiet_round) (start_poller queued_poller []) queued k))))))" if "k < 2" for k
  by (rule single_requests [where verify = toy_verifier and sink = list_sink and s = "[]", OF queued_poller_facts(1) queued_facts(1,2) toy_verifies])
    (simp_all add: list_sink_def that)

theorem polled_sets_settle_witness:
  "case polling Inr store_service AlwaysAllow defaultMuxConfig toy_verifier list_sink Map.empty (\<lambda>_. quiet_round)
      (start_poller queued_poller []) queued 2 of
     (st', t') \<Rightarrow> poll_queue ''s'' t' = [] \<and> pl_sink st' = [''payload''] \<and> ''a'' \<notin> poll_outstanding ''s'' t'"
proof -
  obtain st' t' where run: "polling Inr store_service AlwaysAllow defaultMuxConfig toy_verifier list_sink Map.empty (\<lambda>_. quiet_round)
      (start_poller queued_poller []) queued 2 = (st', t')" by (metis surj_pair)
  note settled = polled_sets_settle [OF queued_poller_facts(1) _ queued_facts(2) _ _ _ _ _ run, of 1]
  have "verified toy_verifier [(''a'', ''.k.payload'')] = [''payload'']" by (simp add: verified_def toy_verifies)
  then show ?thesis
    using settled queued_requests
    by (auto simp: run queued_poller_facts queued_facts int64_def quiet_round_quiet answered_def toy_verifies list_sink_def)
qed

end
