(* ===== verification/Verification_Poll.thy ===== *)
theory Verification_Poll
  imports Challenge_Over_Http Poll_Over_Http
begin

text \<open>
  The verification handshake of a poll stream: the receiver challenges the transmitter over its mux, \<open>Verify\<close> of the
  transmitter queues a SET, and the receiver's poller, whose sink is the wrapped one, finds it there. The challenger, the
  mux, the poll queue, the verifier and the poller meet here.
\<close>

section \<open>SETs that reach the wrapped sink\<close>

text \<open>A payload in the sink is an arrival in the challenger's world.\<close>

lemma wrapped_arrival:
  assumes "snd (WrapSink downstream p (wo_ch w, d)) = (c, d')"
  shows "\<exists>w'. world_step w w' \<and> wo_ch w' = c \<and> wo_calls w' = wo_calls w"
proof -
  obtain hit c' where i: "intercept p (wo_ch w) = (hit, c')" by (metis surj_pair)
  with assms have "c = c'" by (auto simp: WrapSink_def split: bool.splits option.splits prod.splits)
  with world_step.arrives [OF i] show ?thesis by fastforce
qed

lemma wrapped_arrivals:
  "fold (\<lambda>p s. snd (WrapSink downstream p s)) ps (wo_ch w, d) = (c, d')
    \<Longrightarrow> \<exists>w'. world_step\<^sup>*\<^sup>* w w' \<and> wo_ch w' = c \<and> wo_calls w' = wo_calls w"
proof (induction ps arbitrary: w d)
  case (Cons p ps)
  obtain c1 d1 where one: "snd (WrapSink downstream p (wo_ch w, d)) = (c1, d1)" by (metis surj_pair)
  from wrapped_arrival [OF one] obtain w1 where w1: "world_step w w1" "wo_ch w1 = c1" "wo_calls w1 = wo_calls w" by blast
  with Cons.prems one have "fold (\<lambda>p s. snd (WrapSink downstream p s)) ps (wo_ch w1, d1) = (c, d')" by simp
  from Cons.IH [OF this] w1 show ?case by (metis converse_rtranclp_into_rtranclp)
qed auto

lemma other_payload_keeps:
  "extractVerificationState p \<noteq> Some state \<Longrightarrow>
    Mapping.lookup (ch_pending (fst (snd (WrapSink downstream p cs)))) state = Mapping.lookup (ch_pending (fst cs)) state"
  by (auto simp: WrapSink_def intercept_def mapping_simps split: option.splits prod.splits)

lemma other_payloads_keep:
  "\<forall>p \<in> set ps. extractVerificationState p \<noteq> Some state \<Longrightarrow>
    Mapping.lookup (ch_pending (fst (fold (\<lambda>p s. snd (WrapSink downstream p s)) ps cs))) state
      = Mapping.lookup (ch_pending (fst cs)) state"
  by (induction ps arbitrary: cs) (simp_all add: other_payload_keeps)

text \<open>A batch that holds the SET of a waiting call: the call returns it, whatever else is in the batch.\<close>

lemma batch_answers:
  assumes "wo_calls w i = Waiting state waiter" and "Mapping.lookup (ch_pending (wo_ch w)) state = Some waiter"
    and "payload \<in> set ps" and "extractVerificationState payload = Some state"
    and "\<forall>p \<in> set ps. extractVerificationState p = Some state \<longrightarrow> p = payload"
    and "fold (\<lambda>p s. snd (WrapSink downstream p s)) ps (wo_ch w, d) = (c, d')"
  shows "\<exists>w'. world_step\<^sup>*\<^sup>* w w' \<and> wo_ch w' = c \<and> wo_calls w' i = Returned state (Inr payload)
    \<and> (\<forall>j. j \<noteq> i \<longrightarrow> wo_calls w' j = wo_calls w j)"
proof -
  let ?f = "\<lambda>ps. fold (\<lambda>p s. snd (WrapSink downstream p s)) ps"
  from assms(3) obtain pre post where ps: "ps = pre @ payload # post" "payload \<notin> set pre"
    by (metis split_list_first)
  have before: "\<forall>p \<in> set pre. extractVerificationState p \<noteq> Some state" using assms(5) ps by auto
  obtain c1 d1 where f1: "?f pre (wo_ch w, d) = (c1, d1)" by (metis surj_pair)
  from wrapped_arrivals [OF f1] obtain w1 where w1: "world_step\<^sup>*\<^sup>* w w1" "wo_ch w1 = c1" "wo_calls w1 = wo_calls w" by blast
  have slot: "Mapping.lookup (ch_pending (wo_ch w1)) state = Some waiter"
    using other_payloads_keep [OF before, of downstream "(wo_ch w, d)"] f1 w1(2) assms(2) by simp
  obtain c2 w2 w3 where hit: "intercept payload (wo_ch w1) = (True, c2)" and run: "world_step w1 w2" "world_step w2 w3"
      "wo_ch w3 = c2" "wo_calls w3 i = Returned state (Inr payload)" "\<forall>j. j \<noteq> i \<longrightarrow> wo_calls w3 j = wo_calls w1 j"
    using set_arrives [OF _ slot assms(4), of i] assms(1) w1(3) by auto
  have "snd (WrapSink downstream payload (c1, d1)) = (wo_ch w3, d1)" using hit w1(2) run(3) by (simp add: WrapSink_def)
  then have "?f post (wo_ch w3, d1) = (c, d')" using assms(6) ps(1) f1 by simp
  from wrapped_arrivals [OF this] obtain w4 where w4: "world_step\<^sup>*\<^sup>* w3 w4" "wo_ch w4 = c" "wo_calls w4 = wo_calls w3" by blast
  have "world_step\<^sup>*\<^sup>* w w4" using w1(1) run(1,2) w4(1) by (meson rtranclp.rtrancl_into_rtrancl rtranclp_trans)
  with w4(2,3) run(4,5) w1(3) show ?thesis by (intro exI [of _ w4]) simp
qed

section \<open>The handshake by poll\<close>

lemma verified_mem: "(j, w) \<in> set es \<Longrightarrow> verify w = Inr p \<Longrightarrow> p \<in> set (verified verify es)"
  by (force simp: verified_def)

lemma verified_from: "p \<in> set (verified verify es) \<Longrightarrow> \<exists>j w. (j, w) \<in> set es \<and> verify w = Inr p"
  by (force simp: verified_def split: sum.splits)


section \<open>An example\<close>

text \<open>
  A transmitter over the in-memory store whose \<open>Verify\<close> signs the verification SET and enqueues it for polling, the receiver's
  poller of the stream, and a call that waits for the SET.
\<close>

definition answering_service :: "(unit, interop) service" where
  "answering_service = \<lparr>sv_registry = builtinDeliveryMethods, sv_sid_parse = (\<lambda>_. Inr ()),
     sv_transmitter = (MemstoreTransmitter (\<lambda>_. None))
       \<lparr>tm_Verify := (\<lambda>i r t. EnqueueForPoll i ''a'' (''.k.'' @ verification_payload (vr_state r)) t)\<rparr>\<rparr>"

definition answered_store :: interop where
  "answered_store = snd (EnqueueForPoll ''s'' ''a'' (''.k.'' @ verification_payload ''x'') (NewMemstoreTransmitter sample_store))"

lemma answered_store_facts: "poll_queue ''s'' answered_store = [(''a'', ''.k.'' @ verification_payload ''x'')]"
    "poll_ready ''s'' answered_store" "poll_reports ''s'' answered_store j = None"
    "EnqueueForPoll ''s'' ''a'' (''.k.'' @ verification_payload ''x'') (NewMemstoreTransmitter sample_store) = (Inr (), answered_store)"
  by (simp_all add: answered_store_def poll_queue_def poll_ready_def poll_reports_def EnqueueForPoll_def NewMemstoreTransmitter_def
      EnqueueSET_def sample_store_simps Let_def GetStream_def get_list_def get_map_def lookup_empty lookup_update')

definition poll_opts :: "challenge_option list" where
  "poll_opts = [WithEndpoint (plain_text ''https'' ''t.example'' [''streams'', ''verify''] []), WithStreamID ''s'', WithState ''x'']"

abbreviation poll_cfg :: challenge_options where
  "poll_cfg \<equiv> handshake_cfg\<lparr>co_stream_id := ''s''\<rparr>"

abbreviation one_waiting :: challenger where
  "one_waiting \<equiv> \<lparr>ch_pending = Mapping.update ''x'' 0 Mapping.empty, ch_next = 1, ch_buf = Mapping.empty\<rparr>"

lemma poll_handshake_facts:
  "challenges_at AlwaysAllow defaultMuxConfig poll_cfg ''x''"
  "challenge_start poll_opts (Inr []) NewVerificationChallenger = (Inr (poll_cfg, ''x'', 0), one_waiting)"
proof -
  show "challenges_at AlwaysAllow defaultMuxConfig poll_cfg ''x''"
    using handshake_facts(1) by (simp add: challenges_at_def)
  show "challenge_start poll_opts (Inr []) NewVerificationChallenger = (Inr (poll_cfg, ''x'', 0), one_waiting)"
    by (simp add: challenge_start_def poll_opts_def handshake_cfg_def WithEndpoint_def WithStreamID_def WithState_def
        register_state_def NewVerificationChallenger_def plain_text_def lookup_empty)
qed

lemma answering_polls: "polls_at answering_service AlwaysAllow defaultMuxConfig ''s'' (po_endpoint queued_poller)"
  using queued_poller_facts(1) by (simp add: polls_at_def answering_service_def MemstoreTransmitter_def)

lemma toy_verifies_challenge: "toy_verifier (''.k.'' @ verification_payload ''x'') = Inr (verification_payload ''x'')"
  by (rule signed_verifies [OF toy_signs, of "\<lambda>_. []" "''k''"])
    (simp_all add: NewJOSESetSigner_def Sign_def toy_jose_def toy_header_def cut_def allowedSETAlgorithms_def
      algNone_def lookup_update)


end
