(* ===== verification/Relay.thy ===== *)
theory Relay
  imports Loopback_Store
begin

text \<open>
  Chains of clients. A client is a \<open>Transmitter\<close> (\<open>client/client.go\<close>), so a mux can serve a client of another
  mux, as often as one likes. The theory says what such a relay is worth: every call goes through to the transmitter at the end,
  and only errors change on the way.
\<close>

section \<open>What a hop does not change\<close>

lemma norm_strs_twice [simp]: "norm_strs (norm_strs xs) = norm_strs xs"
  by (auto simp: norm_strs_def split: option.split list.split)

lemma norm_twice [simp]:
  "norm_config (norm_config g) = norm_config g" "norm_poll_request (norm_poll_request r) = norm_poll_request r"
  by (auto simp: norm_config_def norm_poll_request_def split: option.split)

lemma om_strs_norm [simp]: "om_strs k (norm_strs xs) = om_strs k xs"
  by (auto simp: om_strs_def norm_strs_def split: option.split list.split)

lemma enc_norm [simp]: "enc_config (norm_config g) = enc_config g" "enc_poll_request (norm_poll_request r) = enc_poll_request r"
  by (auto simp: enc_config_def norm_config_def enc_poll_request_def norm_poll_request_def om_set_errs_def split: option.split)

lemma poll_request_ok_norm [simp]: "poll_request_ok r \<Longrightarrow> poll_request_ok (norm_poll_request r)"
  by (auto simp: poll_request_ok_def norm_poll_request_def split: option.splits)

lemma sent_twice [simp]: "sent_call (sent_call k) = sent_call k" "sent_answer (sent_answer a) = sent_answer a"
  by (cases k; simp) (cases a; simp add: comp_def option.map_comp)

lemma call_ok_sent: "call_ok sv sm k \<Longrightarrow> call_ok sv sm (sent_call k)"
  by (cases k) (simp_all, simp add: norm_config_def)

lemma answer_ok_sent: "answer_ok reg a \<Longrightarrow> answer_ok reg (sent_answer a)"
  by (cases a) (auto simp: list.pred_map comp_def elim!: list.pred_mono_strong split: option.splits)

lemma call_ok_transmitter [simp]: "call_ok (sv\<lparr>sv_transmitter := t\<rparr>) sm k = call_ok sv sm k"
  by (cases k) simp_all

section \<open>What it makes of errors\<close>

text \<open>The client's error is a status with a sentinel for some; validation errors and their kind do not survive.\<close>

lemma client_error_class:
  "as_validation (client_error e) = None"
  "errors_is (client_error e) s \<longleftrightarrow> mapStatusToSentinel (problem_status e) = Some s"
proof -
  have st: "hr_status (reply_of (writeProblem e)) = problem_status e" "hr_body_err (reply_of (writeProblem e)) = None"
    using writeProblem_form [of e] by (auto simp: reply_of_def problem_response_def)
  have "\<not> (200 \<le> problem_status e \<and> problem_status e < 300)" using problem_status_cases [of e] by auto
  then have "\<exists>he. client_error e
      = (case mapStatusToSentinel (problem_status e) of Some s \<Rightarrow> Joined [HTTPErr he, Sentinel s] | None \<Rightarrow> HTTPErr he)"
    unfolding client_error_def ParseHTTPError_def st by (auto simp: Let_def split: option.split)
  then obtain he where "client_error e
      = (case mapStatusToSentinel (problem_status e) of Some s \<Rightarrow> Joined [HTTPErr he, Sentinel s] | None \<Rightarrow> HTTPErr he)" ..
  then show "as_validation (client_error e) = None"
    "errors_is (client_error e) s \<longleftrightarrow> mapStatusToSentinel (problem_status e) = Some s"
    by (auto simp: as_validation_def split: option.split)
qed

definition relayed_status :: "int \<Rightarrow> int" where
  "relayed_status status = (if status = 400 then 500 else status)"

lemma relayed_status_twice [simp]: "relayed_status (relayed_status n) = relayed_status n"
  by (simp add: relayed_status_def)

lemma client_error_status: "problem_status (client_error e) = relayed_status (problem_status e)"
  unfolding problem_status_def [of "client_error e"]
  using problem_status_cases [of e] by (auto simp: client_error_class mapStatusToSentinel_def relayed_status_def)

lemma hops_status: "problem_status ((client_error ^^ Suc n) e) = relayed_status (problem_status e)"
  by (induction n) (simp_all add: client_error_status)

section \<open>A chain\<close>

text \<open>The transmitter of a service, reached through \<open>n\<close> clients, each pointed at the mux of the one before.\<close>

fun relayed ::
  "(string \<Rightarrow> string + string) \<Rightarrow> ('sid, 's) service \<Rightarrow> ('sid \<Rightarrow> string option) \<Rightarrow> (nat \<Rightarrow> 's http_doer http_client)
     \<Rightarrow> nat \<Rightarrow> ('sid, 's) transmitter" where
  "relayed ip sv sm clients 0 = sv_transmitter sv"
| "relayed ip sv sm clients (Suc n) = client_Transmitter ip (sv_registry sv) sm (clients n)"

definition chained ::
  "(string \<Rightarrow> string + string) \<Rightarrow> ('sid, 's) service \<Rightarrow> ('sid \<Rightarrow> string option) \<Rightarrow> (nat \<Rightarrow> 's http_doer http_client) \<Rightarrow> nat \<Rightarrow> bool" where
  "chained ip sv sm clients n \<longleftrightarrow>
     (\<forall>i < n. \<exists>auth m. served_by (clients i) (sv\<lparr>sv_transmitter := relayed ip sv sm clients i\<rparr>) auth m)"

lemma relayed_call:
  assumes "chained ip sv sm clients (Suc n)" and "call_ok sv sm k"
    and "direct_call (sv_transmitter sv) (sent_call k) s = (r, s')" and "result_ok (sv_registry sv) r"
  shows "direct_call (relayed ip sv sm clients (Suc n)) k s = (map_sum (client_error ^^ Suc n) sent_answer r, s')"
  using assms(1,2,3)
proof (induction n arbitrary: k)
  case 0
  then obtain auth m where "served_by (clients 0) (sv\<lparr>sv_transmitter := sv_transmitter sv\<rparr>) auth m"
    by (auto simp: chained_def)
  then show ?case
    using remote_call_step [of "clients 0" sv auth m sm k s ip] 0 assms(4) by (simp add: transported_def)
next
  case (Suc n)
  let ?sv = "sv\<lparr>sv_transmitter := relayed ip sv sm clients (Suc n)\<rparr>"
  obtain auth m where c: "served_by (clients (Suc n)) ?sv auth m"
    using Suc.prems(1) unfolding chained_def by blast
  have "chained ip sv sm clients (Suc n)" using Suc.prems(1) by (simp add: chained_def)
  from Suc.IH [OF this call_ok_sent [OF Suc.prems(2)]] Suc.prems(3)
  have before: "direct_call (relayed ip sv sm clients (Suc n)) (sent_call k) s = (map_sum (client_error ^^ Suc n) sent_answer r, s')"
    by (simp add: comp_def)
  have "result_ok (sv_registry sv) (map_sum (client_error ^^ Suc n) sent_answer r)"
    using assms(4) by (cases r) (simp_all add: answer_ok_sent)
  then have "direct_call (relayed ip sv sm clients (Suc (Suc n))) k s
      = transported (map_sum (client_error ^^ Suc n) sent_answer r, s')"
    using remote_call_step [OF c, of sm k s ip] Suc.prems(2) before by simp
  then show ?case by (cases r) (simp_all add: transported_def comp_def)
qed

text \<open>
  Claim C3: A relay of any length is the transmitter at its end. Through \<open>n\<close> clients, each served by the mux of the
  one before, any sequence of calls leaves the transmitter in the state that the same calls made directly leave it in,
  with the same answers in the same order: values as after one hop, errors rewritten once per hop. A rewritten
  error keeps the status it would be reported with, however long the chain, but for one class: a request that was
  wrong (400) is a server error (500) from the second mux on, since the client keeps no validation error.
\<close>

theorem relay_is_transmitter:
  assumes "chained ip sv sm clients (Suc n)" and "\<forall>k \<in> set ks. call_ok sv sm k"
    and "\<forall>r \<in> set (fst (direct_session sv ks s)). result_ok (sv_registry sv) r"
  shows "session (direct_call (relayed ip sv sm clients (Suc n))) ks s
      = (map (map_sum (client_error ^^ Suc n) sent_answer) (fst (direct_session sv ks s)), snd (direct_session sv ks s))
    \<and> problem_status ((client_error ^^ Suc n) e) = (if problem_status e = 400 then 500 else problem_status e)"
proof
  show "session (direct_call (relayed ip sv sm clients (Suc n))) ks s
      = (map (map_sum (client_error ^^ Suc n) sent_answer) (fst (direct_session sv ks s)), snd (direct_session sv ks s))"
    using assms(2,3)
  proof (induction ks arbitrary: s)
    case Nil show ?case by (simp add: direct_session_def)
  next
    case (Cons k ks)
    obtain r s' where d: "direct_call (sv_transmitter sv) (sent_call k) s = (r, s')"
      by (cases "direct_call (sv_transmitter sv) (sent_call k) s")
    obtain rs s'' where ds: "direct_session sv ks s' = (rs, s'')" by (cases "direct_session sv ks s'")
    have dk: "direct_session sv (k # ks) s = (r # rs, s'')" using d ds by (simp add: direct_session_def)
    have "direct_call (relayed ip sv sm clients (Suc n)) k s = (map_sum (client_error ^^ Suc n) sent_answer r, s')"
      using relayed_call [OF assms(1) _ d] Cons.prems dk by simp
    then show ?case using Cons.IH [of s'] Cons.prems dk ds by (simp del: relayed.simps funpow.simps)
  qed
  show "problem_status ((client_error ^^ Suc n) e) = (if problem_status e = 400 then 500 else problem_status e)"
    using hops_status [of n e] by (simp add: relayed_status_def)
qed

section \<open>An example\<close>

text \<open>The in-memory transmitter behind two muxes.\<close>

theorem relay_is_transmitter_witness:
  "\<exists>clients. session (direct_call (relayed Inr store_service (\<lambda>_. None) clients 2)) [Get_Config ''s-1'']
      (NewMemstoreTransmitter (NewInMemoryStore ''00000000''))
    = ([Inl (client_error (client_error (not_found ''GetStream'' ''s-1'')))], NewMemstoreTransmitter (NewInMemoryStore ''00000000''))"
proof -
  let ?t = "NewMemstoreTransmitter (NewInMemoryStore ''00000000'')"
  have "plain_host ''t.example''" by code_simp
  then have conn: "\<exists>c. served_by c (sv :: (unit, interop) service) AlwaysAllow defaultMuxConfig" for sv
    using new_client_connected [of "''https''" "''t.example''" AlwaysAllow Inr "loopback []" sv]
    by (auto simp: AlwaysAllow_def plain_scheme_def)
  obtain c0 where c0: "served_by c0 store_service AlwaysAllow defaultMuxConfig" using conn by blast
  obtain c1 where c1: "served_by c1 (store_service\<lparr>sv_transmitter := client_Transmitter Inr (sv_registry store_service) (\<lambda>_. None) c0\<rparr>)
      AlwaysAllow defaultMuxConfig" using conn by blast
  define clients where "clients i = (if i = 0 then c0 else c1)" for i :: nat
  have "\<exists>auth m. served_by (clients i) (store_service\<lparr>sv_transmitter := relayed Inr store_service (\<lambda>_. None) clients i\<rparr>) auth m"
    if "i < 2" for i
  proof (cases "i = 0")
    case True
    then show ?thesis using c0 by (auto simp: clients_def)
  next
    case False
    with that have "i = Suc 0" by simp
    then show ?thesis using c1 by (auto simp: clients_def)
  qed
  then have chain: "chained Inr store_service (\<lambda>_. None) clients (Suc 1)" by (simp add: chained_def)
  have d: "direct_session store_service [Get_Config ''s-1''] ?t = ([Inl (not_found ''GetStream'' ''s-1'')], ?t)"
    by (simp add: direct_session_def store_service_def MemstoreTransmitter_def on_store_def GetStream_def
        NewMemstoreTransmitter_def NewInMemoryStore_def lookup_empty)
  have "session (direct_call (relayed Inr store_service (\<lambda>_. None) clients (Suc 1))) [Get_Config ''s-1''] ?t
      = (map (map_sum (client_error ^^ Suc 1) sent_answer) (fst (direct_session store_service [Get_Config ''s-1''] ?t)),
         snd (direct_session store_service [Get_Config ''s-1''] ?t))"
    by (rule conjunct1 [OF relay_is_transmitter [OF chain, of "[Get_Config ''s-1'']" ?t]]) (simp_all add: d)
  then show ?thesis unfolding d by (intro exI [of _ clients]) (simp add: numeral_2_eq_2)
qed

end
