(* ===== verification/Step_Bounds.thy ===== *)
theory Step_Bounds
  imports Problem_Details Go_Mime
begin

text \<open>
  The step counts of the parsers are large enough: from the length of the input on, a larger count changes nothing,
  so the count that \<open>parse_prefix\<close>, \<open>token_members\<close> and \<open>parse_media_type\<close> give is never what ends a parse.
\<close>

section \<open>The JSON parser\<close>

lemma length_skip_ws: "length (skip_ws s) \<le> length s"
  by (simp add: skip_ws_def length_dropWhile_le)

lemma scan_str_consumes: "scan_str s = Some (b, r) \<Longrightarrow> length r < length s"
proof (induction s arbitrary: b r rule: scan_str.induct)
  case (2 c s)
  show ?case
  proof (cases s)
    case Nil
    with "2.prems" show ?thesis by (simp add: scan_str.simps split: if_splits)
  next
    case (Cons e u)
    with "2.prems" "2.IH" show ?thesis
      by (auto simp: scan_str.simps split: if_splits dest: less_SucI less_imp_diff_less)
        (metis less_SucI)
  qed
qed (simp add: scan_str.simps)

text \<open>A result consumes input, and stays when as many steps are allowed as bytes were consumed.\<close>

definition settled :: "(nat \<Rightarrow> string \<Rightarrow> ('a \<times> string) option) \<Rightarrow> nat \<Rightarrow> string \<Rightarrow> bool" where
  "settled f n s \<longleftrightarrow> (\<forall>v r. f n s = Some (v, r) \<longrightarrow> length r < length s
     \<and> (\<forall>m. length s \<le> length r + m \<longrightarrow> f m s = Some (v, r)))"

lemma settledD:
  "settled f n s \<Longrightarrow> f n s = Some (v, r) \<Longrightarrow> length r < length s"
  "settled f n s \<Longrightarrow> f n s = Some (v, r) \<Longrightarrow> length s \<le> length r + m \<Longrightarrow> f m s = Some (v, r)"
  by (auto simp: settled_def)

lemma skip_ws_tail: "skip_ws r = c # u \<Longrightarrow> length u < length r"
  using length_skip_ws [of r] by simp

lemma elems_step:
  assumes "settled parse_value n s" and "\<And>u. settled parse_elems n (skip_ws u)"
  shows "settled parse_elems (Suc n) s"
  unfolding settled_def
proof (intro allI impI)
  fix v r assume "parse_elems (Suc n) s = Some (v, r)"
  then obtain x r1 c u where x: "parse_value n s = Some (x, r1)" and c: "skip_ws r1 = c # u"
    and k: "c = CHR '']'' \<and> v = [(taken s r1, x)] \<and> r = u
        \<or> c = CHR '','' \<and> (\<exists>xs. parse_elems n (skip_ws u) = Some (xs, r) \<and> v = (taken s r1, x) # xs)"
    by (auto split: option.splits list.splits if_splits)
  note l1 = settledD(1) [OF assms(1) x] and l2 = skip_ws_tail [OF c] and l3 = length_skip_ws [of u]
  show "length r < length s \<and> (\<forall>m. length s \<le> length r + m \<longrightarrow> parse_elems m s = Some (v, r))"
    using k
  proof (elim disjE conjE exE)
    assume "c = CHR '']''" "v = [(taken s r1, x)]" "r = u"
    moreover have "parse_elems m s = Some ([(taken s r1, x)], u)" if le: "length s \<le> length u + m" for m
    proof -
      obtain m' where m: "m = Suc m'" using le l1 l2 by (cases m) auto
      have "parse_value m' s = Some (x, r1)" using settledD(2) [OF assms(1) x] le l2 m by simp
      with c \<open>c = CHR '']''\<close> show ?thesis by (simp add: m)
    qed
    ultimately show ?thesis using l1 l2 by simp
  next
    fix xs assume h: "c = CHR '',''" "parse_elems n (skip_ws u) = Some (xs, r)" "v = (taken s r1, x) # xs"
    note l4 = settledD(1) [OF assms(2) h(2)]
    have "parse_elems m s = Some (v, r)" if le: "length s \<le> length r + m" for m
    proof -
      obtain m' where m: "m = Suc m'" using le l1 l2 l3 l4 by (cases m) auto
      have "parse_value m' s = Some (x, r1)" using settledD(2) [OF assms(1) x] le l2 l3 l4 m by simp
      moreover have "parse_elems m' (skip_ws u) = Some (xs, r)"
        using settledD(2) [OF assms(2) h(2)] le l1 l2 l3 m by simp
      ultimately show ?thesis using c h by (simp add: m)
    qed
    then show ?thesis using l1 l2 l3 l4 by simp
  qed
qed

lemma members_step:
  assumes "\<And>u. settled parse_value n (skip_ws u)" and "\<And>u. settled parse_members n (skip_ws u)"
  shows "settled parse_members (Suc n) s"
  unfolding settled_def
proof (intro allI impI)
  fix v r assume "parse_members (Suc n) s = Some (v, r)"
  then obtain t k r0 t1 x r1 c u where s: "s = dquote # t" and key: "scan_str t = Some (k, r0)"
    and colon: "skip_ws r0 = CHR '':'' # t1" and x: "parse_value n (skip_ws t1) = Some (x, r1)" and c: "skip_ws r1 = c # u"
    and d: "c = CHR ''}'' \<and> v = [(k, taken (skip_ws t1) r1, x)] \<and> r = u
        \<or> c = CHR '','' \<and> (\<exists>xs. parse_members n (skip_ws u) = Some (xs, r) \<and> v = (k, taken (skip_ws t1) r1, x) # xs)"
    by (auto split: option.splits list.splits if_splits)
  have l1: "length r1 < length s" "length (skip_ws t1) < length s"
    using settledD(1) [OF assms(1) x] length_skip_ws [of t1] skip_ws_tail [OF colon] scan_str_consumes [OF key] s by simp_all
  note l2 = skip_ws_tail [OF c] and l3 = length_skip_ws [of u]
  show "length r < length s \<and> (\<forall>m. length s \<le> length r + m \<longrightarrow> parse_members m s = Some (v, r))"
    using d
  proof (elim disjE conjE exE)
    assume h: "c = CHR ''}''" "v = [(k, taken (skip_ws t1) r1, x)]" "r = u"
    have "parse_members m s = Some (v, r)" if le: "length s \<le> length r + m" for m
    proof -
      obtain m' where m: "m = Suc m'" using le l1 l2 h by (cases m) auto
      have "parse_value m' (skip_ws t1) = Some (x, r1)" using settledD(2) [OF assms(1) x] le l1 l2 h m by simp
      with c h s key colon show ?thesis by (simp add: m)
    qed
    then show ?thesis using l1 l2 h by simp
  next
    fix xs assume h: "c = CHR '',''" "parse_members n (skip_ws u) = Some (xs, r)" "v = (k, taken (skip_ws t1) r1, x) # xs"
    note l4 = settledD(1) [OF assms(2) h(2)]
    have "parse_members m s = Some (v, r)" if le: "length s \<le> length r + m" for m
    proof -
      obtain m' where m: "m = Suc m'" using le l1 l2 l3 l4 by (cases m) auto
      have "parse_value m' (skip_ws t1) = Some (x, r1)" using settledD(2) [OF assms(1) x] le l1 l2 l3 l4 m by simp
      moreover have "parse_members m' (skip_ws u) = Some (xs, r)"
        using settledD(2) [OF assms(2) h(2)] le l1 l2 l3 m by simp
      ultimately show ?thesis using c h s key colon by (simp add: m)
    qed
    then show ?thesis using l1 l2 l3 l4 by simp
  qed
qed

lemma value_step:
  assumes "\<And>u. settled parse_elems n u" and "\<And>u. settled parse_members n u"
  shows "settled parse_value (Suc n) s"
  unfolding settled_def
proof (intro allI impI)
  fix v r assume p: "parse_value (Suc n) s = Some (v, r)"
  then obtain c t where s: "s = c # t" by (cases s) auto
  consider (elems) d u xs where "c = CHR ''[''" "skip_ws t = d # u" "d \<noteq> CHR '']''"
      "parse_elems n (d # u) = Some (xs, r)" "v = JArr xs"
    | (members) d u xs where "c = CHR ''{''" "skip_ws t = d # u" "d \<noteq> CHR ''}''"
      "parse_members n (d # u) = Some (xs, r)" "v = JObj xs"
    | (flat) "length r < length s" "\<And>m. parse_value (Suc m) s = Some (v, r)"
  proof -
    have "length (drop 4 s) < length s" "length (drop 5 s) < length s" by (simp_all add: s)
    moreover have "length (dropWhile num_char s) < length s" if "is_number (takeWhile num_char s)"
    proof -
      have "takeWhile num_char s \<noteq> []" using that by (auto simp: is_number_def Let_def)
      then have "num_char c" by (auto simp: s split: if_splits)
      then show ?thesis by (simp add: s length_dropWhile_le le_imp_less_Suc)
    qed
    ultimately show ?thesis
      using p that scan_str_consumes [of t] skip_ws_tail [of t]
      by (auto simp: s split: if_split_asm list.split_asm option.split_asm; fastforce)
  qed
  then show "length r < length s \<and> (\<forall>m. length s \<le> length r + m \<longrightarrow> parse_value m s = Some (v, r))"
  proof cases
    case elems
    note l = settledD(1) [OF assms(1) elems(4)] skip_ws_tail [OF elems(2)]
    have "parse_value m s = Some (v, r)" if le: "length s \<le> length r + m" for m
    proof -
      obtain m' where m: "m = Suc m'" using le l s by (cases m) auto
      have "parse_elems m' (d # u) = Some (xs, r)" using settledD(2) [OF assms(1) elems(4)] le l s m by simp
      with elems s show ?thesis by (simp add: m)
    qed
    then show ?thesis using l s by simp
  next
    case members
    note l = settledD(1) [OF assms(2) members(4)] skip_ws_tail [OF members(2)]
    have "parse_value m s = Some (v, r)" if le: "length s \<le> length r + m" for m
    proof -
      obtain m' where m: "m = Suc m'" using le l s by (cases m) auto
      have "parse_members m' (d # u) = Some (xs, r)" using settledD(2) [OF assms(2) members(4)] le l s m by simp
      with members s show ?thesis by (simp add: m)
    qed
    then show ?thesis using l s by simp
  next
    case flat
    have "parse_value m s = Some (v, r)" if le: "length s \<le> length r + m" for m
      using le flat by (cases m) auto
    then show ?thesis using flat by simp
  qed
qed

lemma parse_settled: "settled parse_value n s" "settled parse_elems n s" "settled parse_members n s"
proof (induction n arbitrary: s)
  case 0
  { case 1 show ?case by (simp add: settled_def) next
    case 2 show ?case by (simp add: settled_def) next
    case 3 show ?case by (simp add: settled_def) }
next
  case (Suc n)
  { case 1 show ?case using Suc by (intro value_step) next
    case 2 show ?case using Suc by (intro elems_step) next
    case 3 show ?case using Suc by (intro members_step) }
qed

lemma parse_value_enough:
  assumes "length s \<le> n" and "length s \<le> m"
  shows "parse_value n s = parse_value m s"
proof -
  have "parse_value k s = Some x \<Longrightarrow> length s \<le> l \<Longrightarrow> parse_value l s = Some x" for k l x
    using settledD(2) [OF parse_settled(1), of k s "fst x" "snd x" l] by simp
  then show ?thesis using assms by (metis option.exhaust)
qed

lemma parse_prefix_steps: "length s \<le> n \<Longrightarrow> parse_prefix s = parse_value n (skip_ws s)"
  unfolding parse_prefix_def by (rule parse_value_enough) (use length_skip_ws [of s] in linarith)+

lemma parse_prefix_consumes: "parse_prefix s = Some (v, r) \<Longrightarrow> length r < length s"
  unfolding parse_prefix_def using settledD(1) [OF parse_settled(1)] length_skip_ws [of s] by (meson less_le_trans)

section \<open>The loop over members\<close>

lemma token_loop_more:
  assumes "token_loop n later s = Some x" and "length s < m"
  shows "token_loop m later s = Some x"
  using assms
proof (induction n arbitrary: later s x m)
  case (Suc n)
  obtain m' where m: "m = Suc m'" using Suc.prems(2) by (cases m) auto
  have rest: "token_loop m' True w = Some y"
    if "token_loop n True w = Some y" "parse_prefix v = Some (j, w)" "skip_ws r = d # v" "scan_str u = Some (key, r)"
      "skip_ws s = q # u \<or> (\<exists>c t. skip_ws s = c # t \<and> skip_ws t = q # u)" for w y v j r d u key q
  proof -
    have "length u < length s" using that(5) skip_ws_tail by (metis less_trans)
    then have "length w < m'"
      using parse_prefix_consumes [OF that(2)] skip_ws_tail [OF that(3)] scan_str_consumes [OF that(4)] Suc.prems(2) m by simp
    with Suc.IH that(1) show ?thesis by blast
  qed
  show ?case using Suc.prems(1) unfolding m
    by (auto split: list.splits if_splits option.splits) (use rest in blast)+
qed simp

lemma token_loop_enough:
  assumes "length s < n" and "length s < m"
  shows "token_loop n later s = token_loop m later s"
  using token_loop_more assms by (metis option.exhaust)

lemma token_members_steps:
  "length s \<le> n \<Longrightarrow> token_members s =
     (case skip_ws s of [] \<Rightarrow> None | c # t \<Rightarrow> if c = CHR ''{'' then token_loop n False t else None)"
  unfolding token_members_def
  using skip_ws_tail [of s]
  by (auto simp del: token_loop.simps split: list.split intro!: token_loop_enough)

section \<open>Media type parameters\<close>

lemma length_trim_left: "length (trim_left s) \<le> length s"
  by (simp add: trim_left_def length_dropWhile_le)

lemma consume_quoted_length: "consume_quoted s = Some (v, r) \<Longrightarrow> length r < length s"
proof (induction s arbitrary: v r rule: consume_quoted.induct)
  case (2 c s)
  have "s \<noteq> [] \<Longrightarrow> length (tl s) < length s" by simp
  with 2 show ?case by (auto split: if_splits dest: less_SucI)
qed simp

lemma consume_value_length: "consume_value s = Some (v, r) \<Longrightarrow> length r \<le> length s"
  using consume_quoted_length [of "tl s" v r]
  by (auto simp: consume_value_def consume_token_def length_dropWhile_le le_SucI split: list.splits if_splits)

lemma consume_media_param_length:
  assumes "consume_media_param s = Some (k, v, r)"
  shows "length r < length s"
proof -
  obtain t u r' where t: "trim_left s = CHR '';'' # t" and u: "trim_left (dropWhile is_token_char (trim_left t)) = CHR ''='' # u"
    and v: "consume_value (trim_left u) = Some (v, r)"
    using assms by (auto simp: consume_media_param_def consume_token_def split: list.splits if_splits)
  have "length u < length (trim_left t)"
    using u length_trim_left [of "dropWhile is_token_char (trim_left t)"] length_dropWhile_le [of is_token_char "trim_left t"]
    by simp
  then show ?thesis
    using consume_value_length [OF v] length_trim_left [of u] length_trim_left [of t] length_trim_left [of s] t by simp
qed

lemma media_params_enough:
  assumes "length s \<le> n" and "length s \<le> m"
  shows "media_params_ok n s seen = media_params_ok m s seen"
  using assms
proof (induction n arbitrary: s m seen)
  case 0
  then show ?case by (cases m) (simp_all add: trim_left_def)
next
  case (Suc n)
  show ?case
  proof (cases m)
    case 0
    with Suc.prems show ?thesis by (simp add: trim_left_def)
  next
    case (Suc m')
    have "media_params_ok n r z = media_params_ok m' r z" if "consume_media_param s = Some (k, v, r)" for k v r z
      using Suc.IH [of r m' z] consume_media_param_length [OF that] Suc.prems Suc by simp
    then show ?thesis by (auto simp: Suc split: option.split)
  qed
qed

end
