(* ===== verification/Interleaving.thy ===== *)
theory Interleaving
  imports Prelude
begin

text \<open>
  What the concurrent parts of the library have in common. A part is a step relation between worlds, whose labels
  record what a step did; a run collects the labels, the latest first. A part whose scheduler is explicit is a partial
  function from moves and worlds to worlds. The locales are the contracts of invariants: what the start and each step must
  keep, and what every run then has.
\<close>

section \<open>Labelled steps\<close>

inductive trace_of :: "('w \<Rightarrow> bool) \<Rightarrow> ('w \<Rightarrow> 'e list \<Rightarrow> 'w \<Rightarrow> bool) \<Rightarrow> 'e list \<Rightarrow> 'w \<Rightarrow> bool"
  for start step where
  trace_start: "start w \<Longrightarrow> trace_of start step [] w"
| trace_step: "trace_of start step es w \<Longrightarrow> step w ev w' \<Longrightarrow> trace_of start step (ev @ es) w'"

text \<open>What is kept may speak of the run so far; a step may use that it extends a run.\<close>

locale interleaving =
  fixes start :: "'w \<Rightarrow> bool"
    and step :: "'w \<Rightarrow> 'e list \<Rightarrow> 'w \<Rightarrow> bool"
    and keeps :: "'e list \<Rightarrow> 'w \<Rightarrow> bool"
  assumes initially: "start w \<Longrightarrow> keeps [] w"
    and preserved: "trace_of start step es w \<Longrightarrow> keeps es w \<Longrightarrow> step w ev w' \<Longrightarrow> keeps (ev @ es) w'"
begin

lemma always: "trace_of start step es w \<Longrightarrow> keeps es w"
  by (induction rule: trace_of.induct) (simp_all add: initially preserved)

end

section \<open>Moves of a scheduler\<close>

fun run_moves :: "('m \<Rightarrow> 'w \<Rightarrow> 'w option) \<Rightarrow> 'm list \<Rightarrow> 'w \<Rightarrow> 'w option" where
  "run_moves move [] w = Some w"
| "run_moves move (m # ms) w = Option.bind (move m w) (run_moves move ms)"

lemma run_movesE:
  assumes "run_moves move (m # ms) w = Some w'"
  obtains w1 where "move m w = Some w1" and "run_moves move ms w1 = Some w'"
  using assms by (auto split: bind_splits)

locale moves_keep =
  fixes move :: "'m \<Rightarrow> 'w \<Rightarrow> 'w option"
    and keeps :: "'w \<Rightarrow> bool"
  assumes move_keeps: "keeps w \<Longrightarrow> move m w = Some w' \<Longrightarrow> keeps w'"
begin

lemma run_keeps: "keeps w \<Longrightarrow> run_moves move ms w = Some w' \<Longrightarrow> keeps w'"
proof (induction ms arbitrary: w)
  case (Cons m ms)
  from Cons.prems(2) obtain w1 where "move m w = Some w1" "run_moves move ms w1 = Some w'" by (rule run_movesE)
  with Cons.IH [of w1] Cons.prems(1) move_keeps show ?case by blast
qed simp

end

text \<open>Moves that each come one nearer to the end, which is where no move is left to make.\<close>

locale moves_end = moves_keep +
  fixes distance :: "'w \<Rightarrow> nat"
  assumes nearer: "keeps w \<Longrightarrow> move m w = Some w' \<Longrightarrow> Suc (distance w') = distance w"
    and never_stuck: "keeps w \<Longrightarrow> 0 < distance w \<Longrightarrow> \<exists>m w'. move m w = Some w'"
begin

lemma run_distance: "keeps w \<Longrightarrow> run_moves move ms w = Some w' \<Longrightarrow> length ms + distance w' = distance w"
proof (induction ms arbitrary: w)
  case (Cons m ms)
  from Cons.prems(2) obtain w1 where w1: "move m w = Some w1" "run_moves move ms w1 = Some w'" by (rule run_movesE)
  with Cons.IH [of w1] nearer [OF Cons.prems(1) w1(1)] move_keeps [OF Cons.prems(1) w1(1)] show ?case by simp
qed simp

lemma run_bounded: "keeps w \<Longrightarrow> run_moves move ms w = Some w' \<Longrightarrow> length ms \<le> distance w"
  using run_distance by fastforce

lemma run_ends: "keeps w \<Longrightarrow> run_moves move ms w = Some w' \<Longrightarrow> distance w' = 0 \<longleftrightarrow> length ms = distance w"
  using run_distance by fastforce

lemma run_goes_on: "keeps w \<Longrightarrow> run_moves move ms w = Some w' \<Longrightarrow> distance w' \<noteq> 0 \<Longrightarrow> \<exists>m w''. move m w' = Some w''"
  using never_stuck run_keeps by blast

text \<open>Every schedule can be completed.\<close>

lemma run_completes: "keeps w \<Longrightarrow> \<exists>ms w'. run_moves move ms w = Some w' \<and> distance w' = 0"
proof (induction "distance w" arbitrary: w)
  case 0
  then show ?case by (intro exI [of _ "[]"]) simp
next
  case (Suc n)
  then obtain m w1 where m: "move m w = Some w1" using never_stuck [of w] by auto
  have "n = distance w1" using nearer [OF Suc.prems m] Suc.hyps(2) by simp
  from Suc.hyps(1) [OF this move_keeps [OF Suc.prems m]] obtain ms w' where
    "run_moves move ms w1 = Some w'" "distance w' = 0" by blast
  with m show ?case by (intro exI [of _ "m # ms"]) simp
qed

end

end
