(* ===== verification/Discovery_Concurrent.thy ===== *)
theory Discovery_Concurrent
  imports Discovery Interleaving
begin

text \<open>
  Concurrent calls of \<open>ConfigCache.FetchTransmitterConfig\<close> (\<open>client/discovery.go\<close>). The cache's table is a
  \<open>sync.Map\<close>, so the lookup and the store of a call are each atomic, and other calls may run between them and
  while the request is out. A step relation interleaves the parts of any number of calls; its labels record what each
  part saw.
\<close>

section \<open>Calls in flight\<close>

datatype 's fetch_call =
    Not_Called
  | Requesting string "('s discovery_config \<Rightarrow> 's discovery_config) list"
  | Storing string fetch_result
  | Fetch_Returned string "transmitter_config result"

record 's cache_world =
  cw_cache :: config_cache
  cw_net :: 's
  cw_calls :: "nat \<Rightarrow> 's fetch_call"

datatype cache_event =
    Looked_Up nat string int "transmitter_config option"
  | Fetched nat string "fetch_result result"
  | Stored nat string int fetch_result

abbreviation goes :: "'s cache_world \<Rightarrow> nat \<Rightarrow> 's fetch_call \<Rightarrow> 's cache_world" where
  "goes w i st \<equiv> w\<lparr>cw_calls := (cw_calls w)(i := st)\<rparr>"

text \<open>A TTL that is not positive leaves the table alone. The rest of the network may move at any time.\<close>

inductive cache_step ::
  "(string \<Rightarrow> string + string) \<Rightarrow> 's http_doer \<Rightarrow> 's cache_world \<Rightarrow> cache_event list \<Rightarrow> 's cache_world \<Rightarrow> bool"
  for ip_literal default_doer where
  uncached: "cw_calls w i = Not_Called \<Longrightarrow> cc_ttl (cw_cache w) \<le> 0
    \<Longrightarrow> cache_step ip_literal default_doer w [] (goes w i (Requesting b opts))"
| hit: "cw_calls w i = Not_Called \<Longrightarrow> 0 < cc_ttl (cw_cache w) \<Longrightarrow> cache_lookup (cw_cache w) b t = Some cfg
    \<Longrightarrow> cache_step ip_literal default_doer w [Looked_Up i b t (Some cfg)] (goes w i (Fetch_Returned b (Inr cfg)))"
| miss: "cw_calls w i = Not_Called \<Longrightarrow> 0 < cc_ttl (cw_cache w) \<Longrightarrow> cache_lookup (cw_cache w) b t = None
    \<Longrightarrow> cache_step ip_literal default_doer w [Looked_Up i b t None] (goes w i (Requesting b opts))"
| fetch_fails: "cw_calls w i = Requesting b opts
    \<Longrightarrow> fetchOnce ip_literal (dc_doer (resolve_discovery default_doer opts)) b (cw_net w) = (Inl e, s')
    \<Longrightarrow> cache_step ip_literal default_doer w [Fetched i b (Inl e)]
          (goes (w\<lparr>cw_net := s'\<rparr>) i (Fetch_Returned b (Inl e)))"
| fetches: "cw_calls w i = Requesting b opts
    \<Longrightarrow> fetchOnce ip_literal (dc_doer (resolve_discovery default_doer opts)) b (cw_net w) = (Inr r, s')
    \<Longrightarrow> cache_step ip_literal default_doer w [Fetched i b (Inr r)]
          (goes (w\<lparr>cw_net := s'\<rparr>) i
             (if cc_ttl (cw_cache w) \<le> 0 then Fetch_Returned b (Inr (fr_config r)) else Storing b r))"
| stores: "cw_calls w i = Storing b r
    \<Longrightarrow> cache_step ip_literal default_doer w [Stored i b t r]
          (goes (w\<lparr>cw_cache := cache_store (cw_cache w) b r t\<rparr>) i (Fetch_Returned b (Inr (fr_config r))))"
| elsewhere: "cache_step ip_literal default_doer w [] (w\<lparr>cw_net := s'\<rparr>)"

text \<open>Runs from a new cache, the latest event first.\<close>

definition fresh_world :: "int \<Rightarrow> 's cache_world \<Rightarrow> bool" where
  "fresh_world ttl w \<longleftrightarrow> cw_cache w = NewConfigCache ttl \<and> cw_calls w = (\<lambda>_. Not_Called)"

abbreviation cache_trace ::
  "(string \<Rightarrow> string + string) \<Rightarrow> 's http_doer \<Rightarrow> int \<Rightarrow> cache_event list \<Rightarrow> 's cache_world \<Rightarrow> bool" where
  "cache_trace ip_literal default_doer ttl \<equiv> trace_of (fresh_world ttl) (cache_step ip_literal default_doer)"

inductive_cases cache_stepE: "cache_step ip_literal default_doer w ev w'"

section \<open>One call alone\<close>

text \<open>The steps of a call that nothing interrupts are the sequential function.\<close>

lemmas no_steps = trace_start [where start = "\<lambda>v. v = w" and step = "cache_step ip_literal doer" for w ip_literal doer, OF refl]
lemmas next_step = trace_step [where start = "\<lambda>v. v = w" and step = "cache_step ip_literal doer" for w ip_literal doer]
lemmas two_steps = next_step [OF next_step [OF no_steps]]
lemmas three_steps = next_step [OF two_steps]

lemma sequential_call:
  assumes "cw_calls w i = Not_Called"
    and "cache_Fetch ip_literal doer opts t t' b (cw_cache w, cw_net w) = (res, c', s')"
  shows "\<exists>es. trace_of (\<lambda>v. v = w) (cache_step ip_literal doer) es
    (goes (w\<lparr>cw_cache := c', cw_net := s'\<rparr>) i (Fetch_Returned b res))"
proof (cases "0 < cc_ttl (cw_cache w) \<and> cache_lookup (cw_cache w) b t \<noteq> None")
  case True
  then obtain cfg where cfg: "cache_lookup (cw_cache w) b t = Some cfg" by auto
  with True assms(2) have "res = Inr cfg" "c' = cw_cache w" "s' = cw_net w" by (simp_all add: cache_Fetch_def)
  moreover have "cache_step ip_literal doer w [Looked_Up i b t (Some cfg)] (goes w i (Fetch_Returned b (Inr cfg)))"
    using True by (intro cache_step.hit [OF assms(1)] cfg) simp
  ultimately show ?thesis using next_step [OF no_steps] by fastforce
next
  case False
  let ?w1 = "goes w i (Requesting b opts)"
  have first: "\<exists>ev. cache_step ip_literal doer w ev ?w1"
  proof (cases "0 < cc_ttl (cw_cache w)")
    case True
    then show ?thesis using cache_step.miss [OF assms(1) True] False by blast
  next
    case off: False
    then show ?thesis using cache_step.uncached [OF assms(1)] by force
  qed
  have at: "cw_calls ?w1 i = Requesting b opts" by simp
  let ?f = "fetchOnce ip_literal (dc_doer (resolve_discovery doer opts)) b (cw_net ?w1)"
  obtain r s1 where f: "?f = (r, s1)" by (cases ?f)
  show ?thesis
  proof (cases r)
    case (Inl e)
    with False f assms(2) have "res = Inl e" "c' = cw_cache w" "s' = s1"
      by (auto simp: cache_Fetch_def FetchTransmitterConfig_def split: if_splits)
    with first cache_step.fetch_fails [OF at f [unfolded Inl]] two_steps show ?thesis by fastforce
  next
    case (Inr x)
    note second = cache_step.fetches [OF at f [unfolded Inr]]
    show ?thesis
    proof (cases "cc_ttl (cw_cache w) \<le> 0")
      case True
      with Inr f assms(2) have "res = Inr (fr_config x)" "c' = cw_cache w" "s' = s1"
        by (auto simp: cache_Fetch_def FetchTransmitterConfig_def)
      with first second True two_steps show ?thesis by fastforce
    next
      case on: False
      with False Inr f assms(2) have eqs: "res = Inr (fr_config x)" "c' = cache_store (cw_cache w) b x t'" "s' = s1"
        by (auto simp: cache_Fetch_def split: if_splits)
      let ?w2 = "goes (?w1\<lparr>cw_net := s1\<rparr>) i (Storing b x)"
      have "cache_step ip_literal doer ?w1 [Fetched i b (Inr x)] ?w2" using second on by simp
      moreover have "cw_calls ?w2 i = Storing b x" by simp
      note third = cache_step.stores [OF this, of ip_literal doer t']
      from first obtain ev where "cache_step ip_literal doer w ev ?w1" ..
      note this calculation
      from three_steps [OF this third] show ?thesis by (cases w) (auto simp: eqs)
    qed
  qed
qed

section \<open>Every interleaving\<close>

text \<open>The history of \<open>Discovery\<close>: what was stored, in the order of the stores.\<close>

fun stores_of :: "cache_event list \<Rightarrow> fetch_log" where
  "stores_of [] = []"
| "stores_of (Stored i b t r # es) = (b, t, r) # stores_of es"
| "stores_of (Looked_Up i b t x # es) = stores_of es"
| "stores_of (Fetched i b x # es) = stores_of es"

lemma stores_of_append [simp]: "stores_of (xs @ ys) = stores_of xs @ stores_of ys"
  by (induction xs rule: stores_of.induct) simp_all

text \<open>While ages fit a duration, the table holds what the history says.\<close>

definition entries_kept :: "int \<Rightarrow> cache_event list \<Rightarrow> config_cache \<Rightarrow> bool" where
  "entries_kept ttl es c \<longleftrightarrow> cc_ttl c = ttl
     \<and> (0 < ttl \<longrightarrow> (\<forall>b. Mapping.lookup (cc_entries c) b = entry_of ttl (stores_of es) b))"

interpretation cache_entries: interleaving "fresh_world ttl" "cache_step ip_literal doer"
  "\<lambda>es w. ages_fit (stores_of es) \<longrightarrow> entries_kept ttl es (cw_cache w)" for ttl ip_literal doer
proof (unfold_locales, goal_cases)
  case (1 w)
  then show ?case by (simp add: fresh_world_def entries_kept_def NewConfigCache_def entry_of_def lookup_empty)
next
  case (2 es w ev w')
  from 2(3) show ?case
  proof (cases rule: cache_step.cases)
    case (stores i b r t)
    with 2(2) cache_store_entry [of r "cw_cache w" "stores_of es" b t] show ?thesis by (auto simp: entries_kept_def)
  qed (use 2(2) in \<open>simp_all add: entries_kept_def\<close>)
qed

text \<open>What a call in some state has done.\<close>

definition explained :: "cache_event list \<Rightarrow> nat \<Rightarrow> 's fetch_call \<Rightarrow> bool" where
  "explained es i call \<longleftrightarrow>
     (case call of
        Not_Called \<Rightarrow> True
      | Requesting b opts \<Rightarrow> True
      | Storing b r \<Rightarrow> Fetched i b (Inr r) \<in> set es
      | Fetch_Returned b (Inl e) \<Rightarrow> Fetched i b (Inl e) \<in> set es
      | Fetch_Returned b (Inr cfg) \<Rightarrow> (\<exists>t. Looked_Up i b t (Some cfg) \<in> set es)
          \<or> (\<exists>r. Fetched i b (Inr r) \<in> set es \<and> cfg = fr_config r))"

lemma explained_mono: "explained es i call \<Longrightarrow> set es \<subseteq> set es' \<Longrightarrow> explained es' i call"
  by (auto simp: explained_def split: fetch_call.split_asm sum.split_asm split del: if_split)

interpretation cache_calls: interleaving "fresh_world ttl" "cache_step ip_literal doer"
  "\<lambda>es w. explained es i (cw_calls w i)" for ttl ip_literal doer i
proof (unfold_locales, goal_cases)
  case (1 w)
  then show ?case by (simp add: fresh_world_def explained_def)
next
  case (2 es w ev w')
  note old = explained_mono [OF 2(2), of "ev @ es"]
  from 2(3) show ?case
  proof (cases rule: cache_step.cases)
    case (stores j b r t)
    have "explained es j (cw_calls w j) \<Longrightarrow> Fetched j b (Inr r) \<in> set es" using stores by (simp add: explained_def)
    with stores old 2(2) show ?thesis by (cases "i = j") (auto simp: explained_def)
  qed (use old in \<open>auto simp: explained_def\<close>)
qed

interpretation cache_stores: interleaving "fresh_world ttl" "cache_step ip_literal doer"
  "\<lambda>es w. \<forall>i b t r. Stored i b t r \<in> set es \<longrightarrow> Fetched i b (Inr r) \<in> set es" for ttl ip_literal doer
proof (unfold_locales, goal_cases)
  case (2 es w ev w')
  from 2(3) show ?case
  proof (cases rule: cache_step.cases)
    case (stores j b r t)
    have "Fetched j b (Inr r) \<in> set es" using cache_calls.always [OF 2(1), of j] stores by (simp add: explained_def)
    with stores 2(2) show ?thesis by auto
  qed (use 2(2) in auto)
qed simp

definition lookups_right :: "int \<Rightarrow> cache_event list \<Rightarrow> bool" where
  "lookups_right ttl es \<longleftrightarrow> (\<forall>later i b t x earlier. es = later @ Looked_Up i b t x # earlier
     \<longrightarrow> x = fresh_config ttl (stores_of earlier) b t)"

lemma lookups_right_Cons:
  "lookups_right ttl (e # es) \<longleftrightarrow> lookups_right ttl es
     \<and> (case e of Looked_Up i b t x \<Rightarrow> x = fresh_config ttl (stores_of es) b t | _ \<Rightarrow> True)"
  by (auto simp: lookups_right_def Cons_eq_append_conv split: cache_event.split)

interpretation cache_lookups: interleaving "fresh_world ttl" "cache_step ip_literal doer"
  "\<lambda>es w. ages_fit (stores_of es) \<longrightarrow> lookups_right ttl es" for ttl ip_literal doer
proof (unfold_locales, goal_cases)
  case (1 w)
  then show ?case by (simp add: lookups_right_def)
next
  case (2 es w ev w')
  have found: "cache_lookup (cw_cache w) b t = fresh_config ttl (stores_of es) b t"
    if "ages_fit (stores_of es)" and "0 < cc_ttl (cw_cache w)" for b t
    using that cache_entries.always [OF 2(1)]
    by (auto simp: entries_kept_def cache_lookup_def entry_of_def fresh_config_def split: option.split)
  from 2(3) show ?case
    by (cases rule: cache_step.cases) (use 2(2) found in \<open>auto simp: lookups_right_Cons\<close>)
qed

text \<open>The requests of a call.\<close>

definition requests_of :: "nat \<Rightarrow> cache_event list \<Rightarrow> cache_event list" where
  "requests_of i es = filter (\<lambda>e. case e of Fetched j _ _ \<Rightarrow> j = i | _ \<Rightarrow> False) es"

lemma requests_of_simps [simp]:
  "requests_of i [] = []" "requests_of i (Stored j b t r # es) = requests_of i es"
  "requests_of i (Looked_Up j b t x # es) = requests_of i es"
  "requests_of i (Fetched j b y # es) = (if j = i then [Fetched j b y] else []) @ requests_of i es"
  by (simp_all add: requests_of_def)

interpretation cache_requests: interleaving "fresh_world ttl" "cache_step ip_literal doer"
  "\<lambda>es w. case cw_calls w i of Not_Called \<Rightarrow> requests_of i es = [] | Requesting _ _ \<Rightarrow> requests_of i es = []
     | _ \<Rightarrow> length (requests_of i es) \<le> 1" for ttl ip_literal doer i
proof (unfold_locales, goal_cases)
  case (1 w)
  then show ?case by (simp add: fresh_world_def)
next
  case (2 es w ev w')
  from 2(3,2) show ?case
    by (cases rule: cache_step.cases) (auto split: fetch_call.split)
qed

text \<open>
  Claim C21: The cache is safe for concurrent calls. In every interleaving of any number of calls, with any doers and clock
  readings, a lookup answers what the stores before it say: the configuration of the latest one for its base URL that
  may be kept, if it is still fresh, and otherwise nothing. Only documents a call has fetched are stored, for the base
  URL it was asked for; a call makes at most one request, and what it returns is what its lookup found or what its own
  request brought, error or document.
\<close>

theorem cache_concurrent:
  assumes "cache_trace ip_literal doer ttl es w" and "ages_fit (stores_of es)"
  shows "(\<forall>later i b t x earlier. es = later @ Looked_Up i b t x # earlier \<longrightarrow> x = fresh_config ttl (stores_of earlier) b t)
    \<and> (\<forall>i b t r. Stored i b t r \<in> set es \<longrightarrow> Fetched i b (Inr r) \<in> set es)
    \<and> (\<forall>i. length (requests_of i es) \<le> 1)
    \<and> (\<forall>i b res. cw_calls w i = Fetch_Returned b res \<longrightarrow>
         (case res of
            Inl e \<Rightarrow> Fetched i b (Inl e) \<in> set es
          | Inr cfg \<Rightarrow> (\<exists>t. Looked_Up i b t (Some cfg) \<in> set es) \<or> (\<exists>r. Fetched i b (Inr r) \<in> set es \<and> cfg = fr_config r)))"
proof (intro conjI allI impI)
  fix later i b t x earlier assume "es = later @ Looked_Up i b t x # earlier"
  then show "x = fresh_config ttl (stores_of earlier) b t"
    using cache_lookups.always [OF assms(1)] assms(2) by (simp add: lookups_right_def)
next
  fix i b t r assume "Stored i b t r \<in> set es"
  then show "Fetched i b (Inr r) \<in> set es" using cache_stores.always [OF assms(1)] by blast
next
  fix i show "length (requests_of i es) \<le> 1"
    using cache_requests.always [OF assms(1), of i] by (cases "cw_calls w i") simp_all
next
  fix i b res assume "cw_calls w i = Fetch_Returned b res"
  then show "case res of Inl e \<Rightarrow> Fetched i b (Inl e) \<in> set es
      | Inr cfg \<Rightarrow> (\<exists>t. Looked_Up i b t (Some cfg) \<in> set es) \<or> (\<exists>r. Fetched i b (Inr r) \<in> set es \<and> cfg = fr_config r)"
    using cache_calls.always [OF assms(1), of i] by (simp add: explained_def)
qed

text \<open>Two calls miss, both fetch and store, and a third finds what the second store left.\<close>

abbreviation sample_reply :: fetch_result where
  "sample_reply \<equiv> \<lparr>fr_config = zero_transmitter_config, fr_max_age = 60, fr_no_store = False\<rparr>"

definition sample_events :: "cache_event list" where
  "sample_events = [Looked_Up 2 ''http://h'' second (Some zero_transmitter_config), Stored 1 ''http://h'' 0 sample_reply,
     Stored 0 ''http://h'' 0 sample_reply, Fetched 0 ''http://h'' (Inr sample_reply), Fetched 1 ''http://h'' (Inr sample_reply),
     Looked_Up 1 ''http://h'' 0 None, Looked_Up 0 ''http://h'' 0 None]"

lemma sample_trace: "\<exists>w. cache_trace Inr sample_doer minute sample_events (w :: unit cache_world)"
proof -
  let ?b = "''http://h''" and ?c0 = "NewConfigCache minute"
  let ?c1 = "cache_store ?c0 ?b sample_reply 0"
  let ?c2 = "cache_store ?c1 ?b sample_reply 0"
  have f: "fetchOnce Inr (dc_doer (resolve_discovery sample_doer [])) ?b () = (Inr sample_reply, ())"
    using sample_fetch by (simp add: resolve_discovery_def)
  have ttl: "cc_ttl ?c0 = minute" by (simp add: NewConfigCache_def)
  let ?w = "\<lambda>c f. \<lparr>cw_cache = c, cw_net = (), cw_calls = f\<rparr>"
  note run = trace_step [of "fresh_world minute" "cache_step Inr sample_doer"]
  have "cache_trace Inr sample_doer minute [] (?w ?c0 (\<lambda>_. Not_Called))" by (rule trace_start) (simp add: fresh_world_def)
  from run [OF this cache_step.miss [of _ 0 ?b 0 _ _ "[]"]]
  have "cache_trace Inr sample_doer minute [Looked_Up 0 ?b 0 None] (?w ?c0 ((\<lambda>_. Not_Called)(0 := Requesting ?b [])))"
    by (simp add: ttl cache_lookup_def NewConfigCache_def lookup_empty)
  from run [OF this cache_step.miss [of _ 1 ?b 0 _ _ "[]"]]
  have "cache_trace Inr sample_doer minute (drop 5 sample_events)
      (?w ?c0 ((\<lambda>_. Not_Called)(0 := Requesting ?b [], 1 := Requesting ?b [])))"
    by (simp add: ttl cache_lookup_def NewConfigCache_def lookup_empty sample_events_def)
  from run [OF this cache_step.fetches [of _ 1 ?b "[]"]]
  have "cache_trace Inr sample_doer minute (drop 4 sample_events)
      (?w ?c0 ((\<lambda>_. Not_Called)(0 := Requesting ?b [], 1 := Storing ?b sample_reply)))"
    by (simp add: ttl f sample_events_def)
  from run [OF this cache_step.fetches [of _ 0 ?b "[]"]]
  have "cache_trace Inr sample_doer minute (drop 3 sample_events)
      (?w ?c0 ((\<lambda>_. Not_Called)(0 := Storing ?b sample_reply, 1 := Storing ?b sample_reply)))"
    by (simp add: ttl f sample_events_def fun_upd_twist)
  from run [OF this cache_step.stores [of _ 0 ?b sample_reply _ _ 0]]
  have "cache_trace Inr sample_doer minute (drop 2 sample_events)
      (?w ?c1 ((\<lambda>_. Not_Called)(0 := Fetch_Returned ?b (Inr zero_transmitter_config), 1 := Storing ?b sample_reply)))"
    by (simp add: sample_events_def fun_upd_twist)
  from run [OF this cache_step.stores [of _ 1 ?b sample_reply _ _ 0]]
  have "cache_trace Inr sample_doer minute (drop 1 sample_events)
      (?w ?c2 ((\<lambda>_. Not_Called)(0 := Fetch_Returned ?b (Inr zero_transmitter_config),
         1 := Fetch_Returned ?b (Inr zero_transmitter_config))))"
    by (simp add: sample_events_def)
  from run [OF this cache_step.hit [of _ 2 ?b second zero_transmitter_config]]
  show ?thesis
    by (auto simp: sample_events_def ttl cache_store_def cache_lookup_def Let_def lookup_update' wrap64_def)
qed

theorem cache_concurrent_witness:
  "fresh_config minute [(''http://h'', 0, sample_reply), (''http://h'', 0, sample_reply)] ''http://h'' second
     = Some zero_transmitter_config"
proof -
  obtain w :: "unit cache_world" where w: "cache_trace Inr sample_doer minute sample_events w" using sample_trace ..
  have fit: "ages_fit (stores_of sample_events)" by (simp add: sample_events_def)
  have events: "sample_events = [] @ Looked_Up 2 ''http://h'' second (Some zero_transmitter_config) # drop 1 sample_events"
    by (simp add: sample_events_def)
  have "stores_of (drop 1 sample_events) = [(''http://h'', 0, sample_reply), (''http://h'', 0, sample_reply)]"
    by (simp add: sample_events_def)
  with cache_concurrent [OF w fit, THEN conjunct1, rule_format, OF events] show ?thesis by simp
qed

end
