(* ===== verification/Interop_Concurrent.thy ===== *)
theory Interop_Concurrent
  imports Interop Interleaving
begin

text \<open>
  Concurrent calls of \<open>MemstoreTransmitter\<close> (\<open>internal/interop/interop.go\<close>). Its methods hold two locks one after the
  other, the store's and their own, so enqueueing, polling and deleting are two atomic steps each, with other calls in
  between; everything else is one call of the store. A step relation interleaves any number of calls.
\<close>

section \<open>The two steps of a method\<close>

definition queue_push :: "string \<Rightarrow> string \<Rightarrow> string \<Rightarrow> interop \<Rightarrow> interop" where
  "queue_push stream jti jws t = t\<lparr>it_pending := Mapping.update stream
     (get_list (it_pending t) stream @ [\<lparr>qe_jti = jti, qe_jws = jws\<rparr>]) (it_pending t)\<rparr>"

definition queue_clear :: "string \<Rightarrow> interop \<Rightarrow> interop" where
  "queue_clear stream t = t\<lparr>it_pending := Mapping.delete stream (it_pending t),
     it_outstanding := Mapping.delete stream (it_outstanding t), it_set_errs := Mapping.delete stream (it_set_errs t)\<rparr>"

text \<open>Without interruption they make up the methods.\<close>

lemma methods_of_steps:
  "EnqueueSET i jws (it_store t) = (Inr (), st) \<Longrightarrow> EnqueueForPoll i jti jws t = (Inr (), queue_push i jti jws (t\<lparr>it_store := st\<rparr>))"
  "EnqueueSET i jws (it_store t) = (Inl e, st) \<Longrightarrow>
     EnqueueForPoll i jti jws t = (Inl (Wrapf ''interop: enqueue via store: '' e []), t\<lparr>it_store := st\<rparr>)"
  "GetStream i (it_store t) = Inr c \<Longrightarrow> PollEvents i req t = (case queue_poll i req t of (resp, t') \<Rightarrow> (Inr resp, t'))"
  "GetStream i (it_store t) = Inl e \<Longrightarrow> PollEvents i req t = (Inl e, t)"
  "DeleteConfig i t = (Inr (), (queue_clear i t)\<lparr>it_store := DeleteStream i (it_store (queue_clear i t))\<rparr>)"
  by (simp_all add: EnqueueForPoll_def queue_push_def PollEvents_def queue_poll_def DeleteConfig_def queue_clear_def)

section \<open>Interleavings\<close>

datatype queue_call =
    Not_Begun
  | Enqueueing string string string
  | Polling string poll_request
  | Deleting string
  | Over

datatype queue_event =
    Pushed string queue_entry
  | Polled string poll_request poll_response "queue_entry list"
  | Cleared string

record interop_world =
  iw_state :: interop
  iw_calls :: "nat \<Rightarrow> queue_call"

definition moves :: "interop_world \<Rightarrow> nat \<Rightarrow> queue_call \<Rightarrow> interop \<Rightarrow> interop_world" where
  "moves w k c t = w\<lparr>iw_state := t, iw_calls := (iw_calls w)(k := c)\<rparr>"

lemma moves_simps [simp]: "iw_state (moves w k c t) = t" "iw_calls (moves w k c t) = (iw_calls w)(k := c)"
  by (simp_all add: moves_def)

text \<open>The store is borrowed: its owner, and the other methods, may change it at any time.\<close>

inductive queue_step :: "interop_world \<Rightarrow> queue_event list \<Rightarrow> interop_world \<Rightarrow> bool" where
  enqueue_stored: "iw_calls w k = Not_Begun \<Longrightarrow> EnqueueSET i jws (it_store (iw_state w)) = (Inr (), st)
    \<Longrightarrow> queue_step w [] (moves w k (Enqueueing i jti jws) ((iw_state w)\<lparr>it_store := st\<rparr>))"
| enqueue_fails: "iw_calls w k = Not_Begun \<Longrightarrow> EnqueueSET i jws (it_store (iw_state w)) = (Inl e, st)
    \<Longrightarrow> queue_step w [] (moves w k Over ((iw_state w)\<lparr>it_store := st\<rparr>))"
| enqueue_queued: "iw_calls w k = Enqueueing i jti jws
    \<Longrightarrow> queue_step w [Pushed i \<lparr>qe_jti = jti, qe_jws = jws\<rparr>] (moves w k Over (queue_push i jti jws (iw_state w)))"
| poll_checked: "iw_calls w k = Not_Begun \<Longrightarrow> GetStream i (it_store (iw_state w)) = Inr c
    \<Longrightarrow> queue_step w [] (moves w k (Polling i req) (iw_state w))"
| poll_fails: "iw_calls w k = Not_Begun \<Longrightarrow> GetStream i (it_store (iw_state w)) = Inl e
    \<Longrightarrow> queue_step w [] (moves w k Over (iw_state w))"
| poll_taken: "iw_calls w k = Polling i req \<Longrightarrow> queue_poll i req (iw_state w) = (resp, t')
    \<Longrightarrow> get_list (it_pending (iw_state w)) i = batch @ get_list (it_pending t') i
    \<Longrightarrow> queue_step w [Polled i req resp batch] (moves w k Over t')"
| delete_cleared: "iw_calls w k = Not_Begun
    \<Longrightarrow> queue_step w [Cleared i] (moves w k (Deleting i) (queue_clear i (iw_state w)))"
| delete_stored: "iw_calls w k = Deleting i
    \<Longrightarrow> queue_step w [] (moves w k Over ((iw_state w)\<lparr>it_store := DeleteStream i (it_store (iw_state w))\<rparr>))"
| store_used: "queue_step w [] (w\<lparr>iw_state := (iw_state w)\<lparr>it_store := st\<rparr>\<rparr>)"

text \<open>Runs from a new transmitter, the latest event first.\<close>

definition new_transmitter :: "interop_world \<Rightarrow> bool" where
  "new_transmitter w \<longleftrightarrow> iw_calls w = (\<lambda>_. Not_Begun) \<and> (\<exists>store. iw_state w = NewMemstoreTransmitter store)"

abbreviation queue_trace :: "queue_event list \<Rightarrow> interop_world \<Rightarrow> bool" where
  "queue_trace \<equiv> trace_of new_transmitter queue_step"

lemmas queue_begins = trace_start [where start = new_transmitter and step = queue_step]
lemmas queue_goes_on = trace_step [where start = new_transmitter and step = queue_step]

inductive_cases queue_stepE: "queue_step w ev w'"

section \<open>Effects of the steps\<close>

lemma queue_push_effect:
  "get_list (it_pending (queue_push j jti jws t)) i
     = get_list (it_pending t) i @ (if i = j then [\<lparr>qe_jti = jti, qe_jws = jws\<rparr>] else [])"
  "it_outstanding (queue_push j jti jws t) = it_outstanding t"
  by (simp_all add: queue_push_def)

lemma queue_clear_effect:
  "get_list (it_pending (queue_clear j t)) i = (if i = j then [] else get_list (it_pending t) i)"
  "get_map (it_outstanding (queue_clear j t)) i = (if i = j then Mapping.empty else get_map (it_outstanding t) i)"
  "it_store (queue_clear j t) = it_store t"
  by (simp_all add: queue_clear_def get_list_def get_map_def mapping_simps)

section \<open>The ledger of a stream\<close>

text \<open>Since the stream was cleared last: what was enqueued, what was delivered, what was acknowledged.\<close>

fun ledger :: "string \<Rightarrow> queue_event list \<Rightarrow> queue_entry list \<times> queue_entry list \<times> string set" where
  "ledger i [] = ([], [], {})"
| "ledger i (Pushed j e # es) =
     (case ledger i es of (enq, del, acks) \<Rightarrow> if j = i then (enq @ [e], del, acks) else (enq, del, acks))"
| "ledger i (Polled j req resp batch # es) =
     (case ledger i es of (enq, del, acks) \<Rightarrow>
        if j = i then (enq, del @ batch, acks \<union> set (case pq_ack req of None \<Rightarrow> [] | Some js \<Rightarrow> js)) else (enq, del, acks))"
| "ledger i (Cleared j # es) = (if j = i then ([], [], {}) else ledger i es)"

definition balanced :: "string \<Rightarrow> queue_event list \<Rightarrow> interop \<Rightarrow> bool" where
  "balanced i es t \<longleftrightarrow> (case ledger i es of (enq, del, acks) \<Rightarrow> accounted i enq del acks t)"

lemma balanced_frame:
  "balanced i es t \<Longrightarrow> get_list (it_pending t') i = get_list (it_pending t) i
    \<Longrightarrow> get_map (it_outstanding t') i = get_map (it_outstanding t) i \<Longrightarrow> balanced i es t'"
  by (auto simp: balanced_def intro: accounted_frame)

lemma balanced_store [simp]: "balanced i es (t\<lparr>it_store := st\<rparr>) = balanced i es t"
  by (auto simp: balanced_def accounted_def)

lemma balanced_push:
  assumes "balanced i es t"
  shows "balanced i (Pushed j \<lparr>qe_jti = jti, qe_jws = jws\<rparr> # es) (queue_push j jti jws t)"
  using assms by (auto simp: balanced_def accounted_def queue_push_effect split: prod.splits)

lemma balanced_clear: "balanced i es t \<Longrightarrow> balanced i (Cleared j # es) (queue_clear j t)"
  by (auto simp: balanced_def accounted_def queue_clear_effect split: prod.splits)

lemma balanced_poll:
  assumes "balanced i es t" and "queue_poll j req t = (resp, t')"
    and "get_list (it_pending t) j = batch @ get_list (it_pending t') j"
  shows "balanced i (Polled j req resp batch # es) t'"
proof (cases "j = i")
  case True
  obtain enq del acks where l: "ledger i es = (enq, del, acks)" by (metis prod_cases3)
  with True assms accounted_poll [of i enq del acks t req resp t' batch] show ?thesis by (simp add: balanced_def)
next
  case False
  from assms(2) obtain "get_list (it_pending t') i = get_list (it_pending t) i"
    "get_map (it_outstanding t') i = get_map (it_outstanding t) i"
    using False by (auto elim!: queue_poll_effect)
  with False balanced_frame [OF assms(1)] show ?thesis by (auto simp: balanced_def split: prod.splits)
qed

interpretation queue_ledger: interleaving new_transmitter queue_step "\<lambda>es w. balanced i es (iw_state w)" for i
proof unfold_locales
  fix w assume "new_transmitter w"
  then show "balanced i [] (iw_state w)"
    by (auto simp: new_transmitter_def balanced_def accounted_def NewMemstoreTransmitter_def get_list_def lookup_empty)
next
  fix es w ev w' assume old: "balanced i es (iw_state w)" and "queue_step w ev w'"
  from this(2) show "balanced i (ev @ es) (iw_state w')"
    by (elim queue_stepE) (use old in \<open>simp_all add: balanced_push balanced_clear balanced_poll\<close>)
qed

text \<open>What a poll answers is what it took off the queue, and no more than it was asked for.\<close>

lemma taken_batch:
  assumes "queue_poll i req t = (resp, t')" and "get_list (it_pending t) i = batch @ get_list (it_pending t') i"
  shows "length batch \<le> nat (batch_cap req)" "pr_sets resp = Some (put_entries batch Mapping.empty)"
proof -
  from assms(1) obtain b where "get_list (it_pending t) i = b @ get_list (it_pending t') i" "length b = batch_size i req t"
      "pr_sets resp = Some (put_entries b Mapping.empty)"
    by (rule queue_poll_effect) blast
  with assms(2) show "length batch \<le> nat (batch_cap req)" "pr_sets resp = Some (put_entries batch Mapping.empty)"
    by (simp_all add: batch_size_def)
qed

definition polls_answered :: "queue_event list \<Rightarrow> bool" where
  "polls_answered es \<longleftrightarrow> (\<forall>i req resp batch. Polled i req resp batch \<in> set es \<longrightarrow>
     length batch \<le> nat (batch_cap req) \<and> pr_sets resp = Some (put_entries batch Mapping.empty))"

interpretation queue_answers: interleaving new_transmitter queue_step "\<lambda>es w. polls_answered es"
proof unfold_locales
  fix es w ev w' assume old: "polls_answered es" and "queue_step w ev w'"
  from this(2) show "polls_answered (ev @ es)"
    by (elim queue_stepE) (use old taken_batch in \<open>auto simp: polls_answered_def\<close>)
qed (simp add: polls_answered_def)


section \<open>A deletion in between\<close>

lemma poll_single:
  assumes "queue_poll i req t = (resp, t')" and "get_list (it_pending t) i = [e]" and "0 < batch_cap req"
  shows "pr_sets resp = Some (Mapping.update (qe_jti e) (qe_jws e) Mapping.empty)"
proof -
  from assms(1) obtain b where b: "get_list (it_pending t) i = b @ get_list (it_pending t') i" "length b = batch_size i req t"
      "pr_sets resp = Some (put_entries b Mapping.empty)"
    by (rule queue_poll_effect) blast
  moreover have "length b = 1" using b(2) assms(2,3) by (simp add: batch_size_def)
  ultimately have "b = [e]" using assms(2) by (cases b) auto
  with b(3) show ?thesis by (simp add: put_entries_def)
qed

text \<open>
  Claim C39: A SET can outlive its stream. When a deletion runs between the two steps of an enqueue, the enqueue puts
  its SET into the queue that the deletion has just cleared: both calls have succeeded, the stream is gone, and the SET is pending
  for it. If a stream is created under the same id, the first poll for SETs of the new stream delivers the SET of the old one.
\<close>

theorem set_outlives_stream:
  assumes "iw_calls w a = Enqueueing i jti jws" and "iw_calls w b = Not_Begun" and "a \<noteq> b"
    and "sc_stream_id cfg = i" and "i \<noteq> []" and "0 < batch_cap req"
  shows "\<exists>w1 w2 w3. queue_step w [Cleared i] w1 \<and> queue_step w1 [] w2
    \<and> queue_step w2 [Pushed i \<lparr>qe_jti = jti, qe_jws = jws\<rparr>] w3
    \<and> iw_calls w3 a = Over \<and> iw_calls w3 b = Over
    \<and> (\<exists>e. GetStream i (it_store (iw_state w3)) = Inl e)
    \<and> get_list (it_pending (iw_state w3)) i = [\<lparr>qe_jti = jti, qe_jws = jws\<rparr>]
    \<and> (\<exists>got st resp t'. CreateStream (Some cfg) (it_store (iw_state w3)) = (Inr got, st) \<and> sc_stream_id got = i
         \<and> PollEvents i req ((iw_state w3)\<lparr>it_store := st\<rparr>) = (Inr resp, t')
         \<and> pr_sets resp = Some (Mapping.update jti jws Mapping.empty))"
proof -
  let ?w1 = "moves w b (Deleting i) (queue_clear i (iw_state w))"
  let ?w2 = "moves ?w1 b Over ((iw_state ?w1)\<lparr>it_store := DeleteStream i (it_store (iw_state ?w1))\<rparr>)"
  let ?w3 = "moves ?w2 a Over (queue_push i jti jws (iw_state ?w2))"
  let ?t = "iw_state ?w3"
  have steps: "queue_step w [Cleared i] ?w1" "queue_step ?w1 [] ?w2"
    "queue_step ?w2 [Pushed i \<lparr>qe_jti = jti, qe_jws = jws\<rparr>] ?w3"
    by (rule queue_step.delete_cleared [OF assms(2)], rule queue_step.delete_stored, simp,
        rule queue_step.enqueue_queued, use assms(1,3) in simp)
  have gone: "Mapping.lookup (ms_streams (it_store ?t)) i = None"
    by (simp add: queue_push_def DeleteStream_def lookup_delete')
  have left: "get_list (it_pending ?t) i = [\<lparr>qe_jti = jti, qe_jws = jws\<rparr>]"
    by (simp add: queue_push_effect queue_clear_effect)
  obtain got st where made: "CreateStream (Some cfg) (it_store ?t) = (Inr got, st)" "sc_stream_id got = i"
      "GetStream i st = Inr got"
    using gone assms(4,5) by (auto simp: CreateStream_def Let_def GetStream_def lookup_update' cloneStreamConfig_def)
  let ?t' = "?t\<lparr>it_store := st\<rparr>"
  obtain resp t' where poll: "queue_poll i req ?t' = (resp, t')" by (metis surj_pair)
  have "get_list (it_pending ?t') i = [\<lparr>qe_jti = jti, qe_jws = jws\<rparr>]" using left by simp
  from poll_single [OF poll this assms(6)] have "pr_sets resp = Some (Mapping.update jti jws Mapping.empty)" by simp
  moreover have "PollEvents i req ?t' = (Inr resp, t')" using poll made(3) by (simp add: PollEvents_Inr)
  moreover have "\<exists>e. GetStream i (it_store ?t) = Inl e" using gone by (simp add: GetStream_def)
  ultimately show ?thesis using steps left made(1,2) assms(3)
    by (intro exI [of _ ?w1] exI [of _ ?w2] exI [of _ ?w3] conjI) auto
qed

section \<open>Examples\<close>

definition enq_world :: interop_world where
  "enq_world = \<lparr>iw_state = (NewMemstoreTransmitter sample_store)\<lparr>it_store := snd (EnqueueSET ''s'' ''A'' sample_store)\<rparr>,
     iw_calls = (\<lambda>_. Not_Begun)(0 := Enqueueing ''s'' ''a'' ''A'')\<rparr>"

lemma enq_world_reached: "queue_trace [] enq_world"
proof -
  let ?w = "\<lparr>iw_state = NewMemstoreTransmitter sample_store, iw_calls = (\<lambda>_. Not_Begun)\<rparr>"
  have "EnqueueSET ''s'' ''A'' (it_store (iw_state ?w)) = (Inr (), snd (EnqueueSET ''s'' ''A'' sample_store))"
    by (simp add: NewMemstoreTransmitter_def EnqueueSET_def sample_store_simps Let_def)
  from queue_step.enqueue_stored [OF _ this, of 0 "''a''"]
  have "queue_step ?w [] enq_world" by (simp add: enq_world_def moves_def)
  moreover have "new_transmitter ?w" by (auto simp: new_transmitter_def)
  ultimately show ?thesis using queue_goes_on [OF queue_begins, of ?w "[]" enq_world] by simp
qed

lemma enq_world_calls: "iw_calls enq_world 0 = Enqueueing ''s'' ''a'' ''A''" "iw_calls enq_world 1 = Not_Begun"
  by (simp_all add: enq_world_def)


theorem set_outlives_stream_witness:
  "\<exists>w got st resp t'. queue_trace [Pushed ''s'' \<lparr>qe_jti = ''a'', qe_jws = ''A''\<rparr>, Cleared ''s''] w
     \<and> CreateStream (Some (zero_config\<lparr>sc_stream_id := ''s''\<rparr>)) (it_store (iw_state w)) = (Inr got, st)
     \<and> PollEvents ''s'' poll_one ((iw_state w)\<lparr>it_store := st\<rparr>) = (Inr resp, t')
     \<and> pr_sets resp = Some (Mapping.update ''a'' ''A'' Mapping.empty)"
proof -
  have cfg: "sc_stream_id (zero_config\<lparr>sc_stream_id := ''s''\<rparr>) = ''s''" "0 < batch_cap poll_one"
    by (simp_all add: poll_one_def batch_cap_def)
  obtain w1 w2 w3 got st resp t' where
      "queue_step enq_world [Cleared ''s''] w1" "queue_step w1 [] w2"
      "queue_step w2 [Pushed ''s'' \<lparr>qe_jti = ''a'', qe_jws = ''A''\<rparr>] w3"
    and made: "CreateStream (Some (zero_config\<lparr>sc_stream_id := ''s''\<rparr>)) (it_store (iw_state w3)) = (Inr got, st)"
      "PollEvents ''s'' poll_one ((iw_state w3)\<lparr>it_store := st\<rparr>) = (Inr resp, t')"
      "pr_sets resp = Some (Mapping.update ''a'' ''A'' Mapping.empty)"
    using set_outlives_stream [OF enq_world_calls _ cfg(1) _ cfg(2)] by auto
  note steps = this(1-3)
  have "queue_trace [Pushed ''s'' \<lparr>qe_jti = ''a'', qe_jws = ''A''\<rparr>, Cleared ''s''] w3"
    using queue_goes_on [OF queue_goes_on [OF queue_goes_on [OF enq_world_reached steps(1)] steps(2)] steps(3)]
    by simp
  with made show ?thesis by blast
qed

end
