(* ===== verification/Store_Aliasing.thy ===== *)
theory Store_Aliasing
  imports Mem_Store Interleaving
begin

text \<open>
  What the in-memory store shares with its callers (\<open>memstore/memstore.go\<close>: \<open>cloneStreamConfig\<close>, \<open>cloneRaw\<close>,
  \<open>cloneStrings\<close>). A configuration holds slices and a pointer, so the theory has an explicit heap: a
  \<open>json.RawMessage\<close>, a \<open>[]string\<close> and an \<open>*UnknownDelivery\<close> are addresses, nil is \<open>None\<close>. The configurations of
  \<open>Mem_Store\<close> are what these structures hold.
\<close>

section \<open>Heap\<close>

datatype cell =
    Bytes string
  | Strings "string list"
  | Unknown_Cell string "nat option"

record heap =
  hp_next :: nat
  hp_cell :: "nat \<Rightarrow> cell option"

definition heap_alloc :: "cell \<Rightarrow> heap \<Rightarrow> nat option \<times> heap" where
  "heap_alloc c h = (Some (hp_next h), h\<lparr>hp_next := Suc (hp_next h), hp_cell := (hp_cell h)(hp_next h := Some c)\<rparr>)"

definition heap_write :: "nat \<Rightarrow> cell \<Rightarrow> heap \<Rightarrow> heap" where
  "heap_write a c h = h\<lparr>hp_cell := (hp_cell h)(a := Some c)\<rparr>"

record delivery_ref =
  dr_method :: string
  dr_endpoint_url :: string
  dr_authorization_header :: string
  dr_unknown :: "nat option"

record config_ref =
  cr_stream_id :: string
  cr_iss :: string
  cr_aud :: "nat option"
  cr_events_supported :: "nat option"
  cr_events_requested :: "nat option"
  cr_events_delivered :: "nat option"
  cr_delivery :: delivery_ref
  cr_min_verification_interval :: int
  cr_format :: string

section \<open>Values\<close>

definition raw_value :: "heap \<Rightarrow> nat option \<Rightarrow> string" where
  "raw_value h r = (case r of None \<Rightarrow> [] | Some a \<Rightarrow> (case hp_cell h a of Some (Bytes b) \<Rightarrow> b | _ \<Rightarrow> []))"

definition strings_value :: "heap \<Rightarrow> nat option \<Rightarrow> string list option" where
  "strings_value h r =
     (case r of None \<Rightarrow> None | Some a \<Rightarrow> (case hp_cell h a of Some (Strings xs) \<Rightarrow> Some xs | _ \<Rightarrow> None))"

definition unknown_value :: "heap \<Rightarrow> nat option \<Rightarrow> unknown_delivery option" where
  "unknown_value h r =
     (case r of
        None \<Rightarrow> None
      | Some p \<Rightarrow> (case hp_cell h p of
          Some (Unknown_Cell m raw) \<Rightarrow> Some \<lparr>ud_method = m, ud_raw = raw_value h raw\<rparr> | _ \<Rightarrow> None))"

definition config_value :: "heap \<Rightarrow> config_ref \<Rightarrow> stream_config" where
  "config_value h c =
     \<lparr>sc_stream_id = cr_stream_id c, sc_iss = cr_iss c, sc_aud = raw_value h (cr_aud c),
      sc_events_supported = strings_value h (cr_events_supported c),
      sc_events_requested = strings_value h (cr_events_requested c),
      sc_events_delivered = strings_value h (cr_events_delivered c),
      sc_delivery = \<lparr>dl_method = dr_method (cr_delivery c), dl_endpoint_url = dr_endpoint_url (cr_delivery c),
        dl_authorization_header = dr_authorization_header (cr_delivery c),
        dl_unknown = unknown_value h (dr_unknown (cr_delivery c))\<rparr>,
      sc_min_verification_interval = cr_min_verification_interval c, sc_format = cr_format c\<rparr>"

section \<open>Copying\<close>

definition heap_cloneRaw :: "nat option \<Rightarrow> heap \<Rightarrow> nat option \<times> heap" where
  "heap_cloneRaw raw h =
     (if length (raw_value h raw) = 0 then (None, h) else heap_alloc (Bytes (raw_value h raw)) h)"

definition heap_cloneStrings :: "nat option \<Rightarrow> heap \<Rightarrow> nat option \<times> heap" where
  "heap_cloneStrings xs h = (case strings_value h xs of None \<Rightarrow> (None, h) | Some ys \<Rightarrow> heap_alloc (Strings ys) h)"

text \<open>\<open>out := *cfg\<close>, and then four fields get copies. \<open>Delivery\<close> is copied as it is, with its pointer.\<close>

definition heap_cloneStreamConfig :: "config_ref \<Rightarrow> heap \<Rightarrow> config_ref \<times> heap" where
  "heap_cloneStreamConfig cfg h =
     (case heap_cloneRaw (cr_aud cfg) h of (aud, h1) \<Rightarrow>
      case heap_cloneStrings (cr_events_supported cfg) h1 of (supported, h2) \<Rightarrow>
      case heap_cloneStrings (cr_events_requested cfg) h2 of (requested, h3) \<Rightarrow>
      case heap_cloneStrings (cr_events_delivered cfg) h3 of (delivered, h4) \<Rightarrow>
        (cfg\<lparr>cr_aud := aud, cr_events_supported := supported, cr_events_requested := requested,
           cr_events_delivered := delivered\<rparr>, h4))"

text \<open>What of a configuration lies in slices of its own, and the bytes behind its pointer.\<close>

definition slices :: "config_ref \<Rightarrow> nat set" where
  "slices c = set_option (cr_aud c) \<union> set_option (cr_events_supported c) \<union> set_option (cr_events_requested c)
     \<union> set_option (cr_events_delivered c)"

definition well_placed :: "heap \<Rightarrow> bool" where
  "well_placed h \<longleftrightarrow> (\<forall>a. hp_cell h a \<noteq> None \<longrightarrow> a < hp_next h)"

text \<open>A heap that has grown: nothing that was there has changed.\<close>

definition grown :: "heap \<Rightarrow> heap \<Rightarrow> bool" where
  "grown h h' \<longleftrightarrow> hp_next h \<le> hp_next h' \<and> (\<forall>a < hp_next h. hp_cell h' a = hp_cell h a) \<and> well_placed h'"

lemma grown_refl: "well_placed h \<Longrightarrow> grown h h" by (simp add: grown_def)

lemma grown_trans: "grown h1 h2 \<Longrightarrow> grown h2 h3 \<Longrightarrow> grown h1 h3"
  by (auto simp: grown_def)

lemma grown_cell: "grown h h' \<Longrightarrow> well_placed h \<Longrightarrow> hp_cell h a = Some c \<Longrightarrow> hp_cell h' a = Some c"
  by (auto simp: grown_def well_placed_def)

lemma alloc_grown:
  assumes "well_placed h" and "heap_alloc c h = (r, h')"
  shows "grown h h'" "r = Some (hp_next h)" "hp_cell h' (hp_next h) = Some c" "hp_next h' = Suc (hp_next h)"
  using assms by (auto simp: heap_alloc_def grown_def well_placed_def less_Suc_eq)

section \<open>A copy has the same value and slices of its own\<close>

definition bytes_at :: "heap \<Rightarrow> nat option \<Rightarrow> bool" where
  "bytes_at h r \<longleftrightarrow> (\<forall>a. r = Some a \<longrightarrow> (\<exists>b. hp_cell h a = Some (Bytes b)))"

definition strings_at :: "heap \<Rightarrow> nat option \<Rightarrow> bool" where
  "strings_at h r \<longleftrightarrow> (\<forall>a. r = Some a \<longrightarrow> (\<exists>xs. hp_cell h a = Some (Strings xs)))"

definition unknown_at :: "heap \<Rightarrow> nat option \<Rightarrow> bool" where
  "unknown_at h r \<longleftrightarrow> (\<forall>p. r = Some p \<longrightarrow> (\<exists>m raw. hp_cell h p = Some (Unknown_Cell m raw) \<and> bytes_at h raw))"

definition valid_config :: "heap \<Rightarrow> config_ref \<Rightarrow> bool" where
  "valid_config h c \<longleftrightarrow> bytes_at h (cr_aud c) \<and> strings_at h (cr_events_supported c) \<and> strings_at h (cr_events_requested c)
     \<and> strings_at h (cr_events_delivered c) \<and> unknown_at h (dr_unknown (cr_delivery c))"

lemma raw_kept:
  assumes "well_placed h" and "grown h h'" and "bytes_at h r"
  shows "raw_value h' r = raw_value h r" "bytes_at h' r"
  using assms(3) grown_cell [OF assms(2,1)] by (auto simp: bytes_at_def raw_value_def split: option.split)

lemma strings_kept:
  assumes "well_placed h" and "grown h h'" and "strings_at h r"
  shows "strings_value h' r = strings_value h r" "strings_at h' r"
  using assms(3) grown_cell [OF assms(2,1)] by (auto simp: strings_at_def strings_value_def split: option.split)

lemma unknown_kept:
  assumes "well_placed h" and "grown h h'" and "unknown_at h r"
  shows "unknown_value h' r = unknown_value h r" "unknown_at h' r"
proof -
  have "unknown_value h' r = unknown_value h r \<and> unknown_at h' r"
  proof (cases r)
    case (Some p)
    with assms(3) obtain m raw where c: "hp_cell h p = Some (Unknown_Cell m raw)" "bytes_at h raw" by (auto simp: unknown_at_def)
    with grown_cell [OF assms(2,1) c(1)] raw_kept [OF assms(1,2) c(2)] Some show ?thesis
      by (simp add: unknown_value_def unknown_at_def)
  qed (simp add: unknown_value_def unknown_at_def)
  then show "unknown_value h' r = unknown_value h r" "unknown_at h' r" by simp_all
qed

lemma config_kept:
  assumes "well_placed h" and "grown h h'" and "valid_config h c"
  shows "config_value h' c = config_value h c" "valid_config h' c"
  using assms(3) raw_kept [OF assms(1,2)] strings_kept [OF assms(1,2)] unknown_kept [OF assms(1,2)]
  by (simp_all add: valid_config_def config_value_def)

lemma cloneRaw_fresh:
  assumes "well_placed h" and "heap_cloneRaw r h = (r', h')"
  shows "grown h h'" "bytes_at h' r'" "raw_value h' r' = raw_value h r" "set_option r' \<subseteq> {hp_next h..<hp_next h'}"
proof -
  have "grown h h' \<and> bytes_at h' r' \<and> raw_value h' r' = raw_value h r \<and> set_option r' \<subseteq> {hp_next h..<hp_next h'}"
  proof (cases "raw_value h r = []")
    case True
    with assms(2) have "r' = None" "h' = h" by (simp_all add: heap_cloneRaw_def)
    with True show ?thesis by (simp add: grown_refl [OF assms(1)] bytes_at_def raw_value_def)
  next
    case False
    with assms(2) have "heap_alloc (Bytes (raw_value h r)) h = (r', h')" by (simp add: heap_cloneRaw_def)
    note new = alloc_grown [OF assms(1) this]
    then show ?thesis by (simp add: bytes_at_def raw_value_def [of h'])
  qed
  then show "grown h h'" "bytes_at h' r'" "raw_value h' r' = raw_value h r" "set_option r' \<subseteq> {hp_next h..<hp_next h'}"
    by simp_all
qed

lemma cloneStrings_fresh:
  assumes "well_placed h" and "heap_cloneStrings r h = (r', h')"
  shows "grown h h'" "strings_at h' r'" "strings_value h' r' = strings_value h r" "set_option r' \<subseteq> {hp_next h..<hp_next h'}"
proof -
  have "grown h h' \<and> strings_at h' r' \<and> strings_value h' r' = strings_value h r \<and> set_option r' \<subseteq> {hp_next h..<hp_next h'}"
  proof (cases "strings_value h r")
    case None
    with assms(2) have "r' = None" "h' = h" by (simp_all add: heap_cloneStrings_def)
    with None show ?thesis by (simp add: grown_refl [OF assms(1)] strings_at_def strings_value_def)
  next
    case (Some ys)
    with assms(2) have "heap_alloc (Strings ys) h = (r', h')" by (simp add: heap_cloneStrings_def)
    note new = alloc_grown [OF assms(1) this]
    then show ?thesis by (simp add: Some strings_at_def strings_value_def [of h'])
  qed
  then show "grown h h'" "strings_at h' r'" "strings_value h' r' = strings_value h r" "set_option r' \<subseteq> {hp_next h..<hp_next h'}"
    by simp_all
qed

lemma grown_placed: "grown h h' \<Longrightarrow> well_placed h'" by (simp add: grown_def)

lemma clone_fresh:
  assumes "well_placed h" and "valid_config h c" and "heap_cloneStreamConfig c h = (c', h')"
  shows "grown h h'" "valid_config h' c'" "config_value h' c' = config_value h c"
    "slices c' \<subseteq> {hp_next h..<hp_next h'}" "cr_delivery c' = cr_delivery c" "cr_stream_id c' = cr_stream_id c"
proof -
  obtain aud h1 where 1: "heap_cloneRaw (cr_aud c) h = (aud, h1)" by (metis surj_pair)
  obtain es h2 where 2: "heap_cloneStrings (cr_events_supported c) h1 = (es, h2)" by (metis surj_pair)
  obtain er h3 where 3: "heap_cloneStrings (cr_events_requested c) h2 = (er, h3)" by (metis surj_pair)
  obtain ed h4 where 4: "heap_cloneStrings (cr_events_delivered c) h3 = (ed, h4)" by (metis surj_pair)
  have c': "c' = c\<lparr>cr_aud := aud, cr_events_supported := es, cr_events_requested := er, cr_events_delivered := ed\<rparr>" "h' = h4"
    using assms(3) by (simp_all add: heap_cloneStreamConfig_def 1 2 3 4)
  note a = cloneRaw_fresh [OF assms(1) 1]
  note wp1 = grown_placed [OF a(1)]
  note b = cloneStrings_fresh [OF wp1 2]
  note wp2 = grown_placed [OF b(1)]
  note d = cloneStrings_fresh [OF wp2 3]
  note wp3 = grown_placed [OF d(1)]
  note e = cloneStrings_fresh [OF wp3 4]
  have g2: "grown h h2" and g3: "grown h h3" and g: "grown h h4"
    using a(1) b(1) d(1) e(1) grown_trans by blast+
  have g14: "grown h1 h4" and g24: "grown h2 h4" using b(1) d(1) e(1) grown_trans by blast+
  have v: "bytes_at h (cr_aud c)" "strings_at h (cr_events_supported c)" "strings_at h (cr_events_requested c)"
      "strings_at h (cr_events_delivered c)" "unknown_at h (dr_unknown (cr_delivery c))"
    using assms(2) by (simp_all add: valid_config_def)
  note k = raw_kept [OF wp1 g14 a(2)] strings_kept [OF wp2 g24 b(2)] strings_kept [OF wp3 e(1) d(2)]
    unknown_kept [OF assms(1) g v(5)] strings_kept [OF assms(1) a(1) v(2)] strings_kept [OF assms(1) g2 v(3)]
    strings_kept [OF assms(1) g3 v(4)]
  show "grown h h'" using g c'(2) by simp
  show "valid_config h' c'" using k e(2) by (simp add: c' valid_config_def)
  show "config_value h' c' = config_value h c" using k a(3) b(3) d(3) e(3) by (simp add: c' config_value_def)
  have "hp_next h \<le> hp_next h1" "hp_next h1 \<le> hp_next h2" "hp_next h2 \<le> hp_next h3" "hp_next h3 \<le> hp_next h4"
    using a(1) b(1) d(1) e(1) by (simp_all add: grown_def)
  then show "slices c' \<subseteq> {hp_next h..<hp_next h'}"
    using a(4) b(4) d(4) e(4) by (auto simp: c' slices_def)
  show "cr_delivery c' = cr_delivery c" "cr_stream_id c' = cr_stream_id c" by (simp_all add: c')
qed

section \<open>The store's operations on the heap\<close>

type_synonym config_refs = "(string, config_ref) mapping"

text \<open>\<open>CreateStream\<close> (under an id that is free) and \<open>UpdateStream\<close> (of one that exists): a copy is kept, and a copy of it returned.\<close>

definition heap_put :: "string \<Rightarrow> config_ref \<Rightarrow> heap \<times> config_refs \<Rightarrow> config_ref \<times> heap \<times> config_refs" where
  "heap_put i cfg st =
     (case heap_cloneStreamConfig cfg (fst st) of
        (stored, h1) \<Rightarrow>
          (case heap_cloneStreamConfig (stored\<lparr>cr_stream_id := i\<rparr>) h1 of
             (out, h2) \<Rightarrow> (out, h2, Mapping.update i (stored\<lparr>cr_stream_id := i\<rparr>) (snd st))))"

definition heap_GetStream :: "string \<Rightarrow> heap \<times> config_refs \<Rightarrow> (config_ref \<times> heap) option" where
  "heap_GetStream i st = map_option (\<lambda>c. heap_cloneStreamConfig c (fst st)) (Mapping.lookup (snd st) i)"

lemma valid_id [simp]: "valid_config h (c\<lparr>cr_stream_id := i\<rparr>) = valid_config h c" "slices (c\<lparr>cr_stream_id := i\<rparr>) = slices c"
  "config_value h (c\<lparr>cr_stream_id := i\<rparr>) = (config_value h c)\<lparr>sc_stream_id := i\<rparr>"
  by (simp_all add: valid_config_def slices_def config_value_def)

lemma heap_put_fresh:
  assumes "well_placed h" and "valid_config h cfg" and "heap_put i cfg (h, m) = (out, h', m')"
  obtains stored where "m' = Mapping.update i stored m" "grown h h'"
    "valid_config h' stored" "config_value h' stored = (config_value h cfg)\<lparr>sc_stream_id := i\<rparr>"
    "valid_config h' out" "config_value h' out = (config_value h cfg)\<lparr>sc_stream_id := i\<rparr>"
    "slices stored \<inter> {..<hp_next h} = {}" "slices out \<inter> {..<hp_next h} = {}" "slices stored \<inter> slices out = {}"
    "slices out \<subseteq> {..<hp_next h'}" "slices stored \<subseteq> {..<hp_next h'}" "cr_delivery stored = cr_delivery cfg" "cr_delivery out = cr_delivery cfg"
proof -
  obtain s1 h1 where 1: "heap_cloneStreamConfig cfg h = (s1, h1)" by (metis surj_pair)
  obtain o2 h2 where 2: "heap_cloneStreamConfig (s1\<lparr>cr_stream_id := i\<rparr>) h1 = (o2, h2)" by (metis surj_pair)
  have eqs: "out = o2" "h' = h2" "m' = Mapping.update i (s1\<lparr>cr_stream_id := i\<rparr>) m"
    using assms(3) by (simp_all add: heap_put_def 1 2)
  note a = clone_fresh [OF assms(1,2) 1]
  note wp1 = grown_placed [OF a(1)]
  have "valid_config h1 (s1\<lparr>cr_stream_id := i\<rparr>)" using a(2) by simp
  note b = clone_fresh [OF wp1 this 2]
  note k = config_kept [OF wp1 b(1) a(2)]
  have le: "hp_next h \<le> hp_next h1" "hp_next h1 \<le> hp_next h2" using a(1) b(1) by (simp_all add: grown_def)
  have s1: "slices s1 \<inter> {..<hp_next h} = {}" using a(4) by fastforce
  have o2: "slices o2 \<inter> {..<hp_next h} = {}" using b(4) le(1) by fastforce
  have so: "slices s1 \<inter> slices o2 = {}" using a(4) b(4) by fastforce
  have sub: "slices o2 \<subseteq> {..<hp_next h2}" "slices s1 \<subseteq> {..<hp_next h2}" using a(4) b(4) le by fastforce+
  show thesis
    by (rule that [of "s1\<lparr>cr_stream_id := i\<rparr>"])
      (use eqs a(2,3,5) b(2,3,5) k grown_trans [OF a(1) b(1)] s1 o2 so sub in simp_all)
qed

text \<open>The store of \<open>Mem_Store\<close> is what the structures hold: the operations agree.\<close>

definition represents :: "heap \<times> config_refs \<Rightarrow> mem_store \<Rightarrow> bool" where
  "represents st s \<longleftrightarrow> (\<forall>i. Mapping.lookup (ms_streams s) i = map_option (config_value (fst st)) (Mapping.lookup (snd st) i))"

lemma heap_put_refines:
  assumes "well_placed h" and "valid_config h cfg" and "\<And>j c. Mapping.lookup m j = Some c \<Longrightarrow> valid_config h c"
    and "represents (h, m) s" and "heap_put i cfg (h, m) = (out, h', m')" and "i \<noteq> []" and "cr_stream_id cfg = i"
  shows "Mapping.lookup (ms_streams s) i = None \<Longrightarrow> \<exists>s'. CreateStream (Some (config_value h cfg)) s = (Inr (config_value h' out), s')
      \<and> represents (h', m') s'"
    "Mapping.lookup (ms_streams s) i \<noteq> None \<Longrightarrow> \<exists>s'. UpdateStream (Some (config_value h cfg)) s = (Inr (config_value h' out), s')
      \<and> represents (h', m') s'"
proof -
  from assms(1,2,5) obtain stored where m': "m' = Mapping.update i stored m" "grown h h'"
    and v: "config_value h' stored = (config_value h cfg)\<lparr>sc_stream_id := i\<rparr>"
      "config_value h' out = (config_value h cfg)\<lparr>sc_stream_id := i\<rparr>"
    by (rule heap_put_fresh)
  have i: "sc_stream_id (config_value h cfg) = i" using assms(7) by (simp add: config_value_def)
  then have same: "(config_value h cfg)\<lparr>sc_stream_id := i\<rparr> = config_value h cfg" by simp
  have rep: "map_option (config_value h') (Mapping.lookup m' j)
      = (if j = i then Some (config_value h cfg) else Mapping.lookup (ms_streams s) j)" for j
    using assms(4) config_kept(1) [OF assms(1) m'(2) assms(3)] v(1)
    by (cases "Mapping.lookup m j") (auto simp: represents_def m' lookup_update' same)
  show "\<exists>s'. CreateStream (Some (config_value h cfg)) s = (Inr (config_value h' out), s') \<and> represents (h', m') s'"
    if "Mapping.lookup (ms_streams s) i = None"
    using that assms(6) rep v(2) by (auto simp: CreateStream_def Let_def i same represents_def lookup_update')
  show "\<exists>s'. UpdateStream (Some (config_value h cfg)) s = (Inr (config_value h' out), s') \<and> represents (h', m') s'"
    if "Mapping.lookup (ms_streams s) i \<noteq> None"
    using that rep v(2) by (auto simp: UpdateStream_def Let_def i same represents_def lookup_update')
qed

lemma heap_get_refines:
  assumes "well_placed h" and "\<And>j c. Mapping.lookup m j = Some c \<Longrightarrow> valid_config h c" and "represents (h, m) s"
  shows "(case heap_GetStream i (h, m) of
      None \<Rightarrow> GetStream i s = Inl (not_found ''GetStream'' i)
    | Some (out, h') \<Rightarrow> GetStream i s = Inr (config_value h' out) \<and> represents (h', m) s)"
proof (cases "Mapping.lookup m i")
  case None
  then show ?thesis using assms(3) by (simp add: heap_GetStream_def represents_def GetStream_def)
next
  case (Some c)
  obtain out h' where cl: "heap_cloneStreamConfig c h = (out, h')" by (metis surj_pair)
  note f = clone_fresh [OF assms(1) assms(2) [OF Some] cl]
  have "map_option (config_value h') (Mapping.lookup m j) = map_option (config_value h) (Mapping.lookup m j)" for j
    using config_kept(1) [OF assms(1) f(1) assms(2)] by (cases "Mapping.lookup m j") auto
  then show ?thesis using assms(3) Some f(3) by (simp add: heap_GetStream_def represents_def GetStream_def cl)
qed

section \<open>Callers that share a heap with the store\<close>

text \<open>
  The addresses a caller has a slice of, and the pointers in deliveries it has decoded. The pointer itself is
  unexported: what a caller gets of it is the \<open>Raw\<close> slice that \<open>Delivery.Unknown\<close> returns.
\<close>

record sharing =
  sh_heap :: heap
  sh_store :: config_refs
  sh_held :: "nat set"
  sh_pointers :: "nat set"

definition NewInMemoryStore_shared :: sharing where
  "NewInMemoryStore_shared =
     \<lparr>sh_heap = \<lparr>hp_next = 0, hp_cell = \<lambda>_. None\<rparr>, sh_store = Mapping.empty, sh_held = {}, sh_pointers = {}\<rparr>"

datatype caller_op =
    Make_Raw string
  | Make_Strings "string list"
  | Decode_Unknown string string
  | Write_Byte nat nat char
  | Write_String nat nat string
  | Call_Create string config_ref
  | Call_Update config_ref
  | Call_Get string
  | Call_Delete string

text \<open>A caller passes what it has.\<close>

definition callers_own :: "sharing \<Rightarrow> config_ref \<Rightarrow> bool" where
  "callers_own w cfg \<longleftrightarrow> valid_config (sh_heap w) cfg \<and> slices cfg \<subseteq> sh_held w
     \<and> set_option (dr_unknown (cr_delivery cfg)) \<subseteq> sh_pointers w"

definition caller_put :: "string \<Rightarrow> config_ref \<Rightarrow> sharing \<Rightarrow> sharing" where
  "caller_put i cfg w =
     (case heap_put i cfg (sh_heap w, sh_store w) of
        (out, h, m) \<Rightarrow> w\<lparr>sh_heap := h, sh_store := m, sh_held := slices out \<union> sh_held w\<rparr>)"

text \<open>\<open>None\<close> is an operation the caller cannot perform, or one that fails and changes nothing.\<close>

fun caller_step :: "caller_op \<Rightarrow> sharing \<Rightarrow> sharing option" where
  "caller_step (Make_Raw b) w =
     (case heap_alloc (Bytes b) (sh_heap w) of (r, h) \<Rightarrow> Some (w\<lparr>sh_heap := h, sh_held := set_option r \<union> sh_held w\<rparr>))"
| "caller_step (Make_Strings xs) w =
     (case heap_alloc (Strings xs) (sh_heap w) of (r, h) \<Rightarrow> Some (w\<lparr>sh_heap := h, sh_held := set_option r \<union> sh_held w\<rparr>))"
| "caller_step (Decode_Unknown m data) w =
     (case heap_alloc (Bytes data) (sh_heap w) of (r, h1) \<Rightarrow>
      case heap_alloc (Unknown_Cell m r) h1 of (p, h2) \<Rightarrow>
        Some (w\<lparr>sh_heap := h2, sh_held := set_option r \<union> sh_held w, sh_pointers := set_option p \<union> sh_pointers w\<rparr>))"
| "caller_step (Write_Byte a k c) w =
     (case hp_cell (sh_heap w) a of
        Some (Bytes b) \<Rightarrow>
          if a \<in> sh_held w \<and> k < length b then Some (w\<lparr>sh_heap := heap_write a (Bytes (b[k := c])) (sh_heap w)\<rparr>) else None
      | _ \<Rightarrow> None)"
| "caller_step (Write_String a k x) w =
     (case hp_cell (sh_heap w) a of
        Some (Strings xs) \<Rightarrow>
          if a \<in> sh_held w \<and> k < length xs then Some (w\<lparr>sh_heap := heap_write a (Strings (xs[k := x])) (sh_heap w)\<rparr>) else None
      | _ \<Rightarrow> None)"
| "caller_step (Call_Create i cfg) w =
     (if callers_own w cfg \<and> i \<noteq> [] \<and> cr_stream_id cfg \<in> {[], i} \<and> Mapping.lookup (sh_store w) i = None
      then Some (caller_put i cfg w) else None)"
| "caller_step (Call_Update cfg) w =
     (if callers_own w cfg \<and> Mapping.lookup (sh_store w) (cr_stream_id cfg) \<noteq> None
      then Some (caller_put (cr_stream_id cfg) cfg w) else None)"
| "caller_step (Call_Get i) w =
     map_option (\<lambda>(out, h). w\<lparr>sh_heap := h, sh_held := slices out \<union> sh_held w\<rparr>) (heap_GetStream i (sh_heap w, sh_store w))"
| "caller_step (Call_Delete i) w = Some (w\<lparr>sh_store := Mapping.delete i (sh_store w)\<rparr>)"

abbreviation caller_steps :: "caller_op list \<Rightarrow> sharing \<Rightarrow> sharing option" where
  "caller_steps \<equiv> run_moves caller_step"

text \<open>What \<open>GetStream\<close> shows, and the slice \<open>Delivery.Unknown\<close> gives of a configuration.\<close>

definition shown :: "sharing \<Rightarrow> string \<Rightarrow> stream_config option" where
  "shown w i = map_option (\<lambda>(out, h). config_value h out) (heap_GetStream i (sh_heap w, sh_store w))"

definition carrier_raw :: "heap \<Rightarrow> config_ref \<Rightarrow> nat option" where
  "carrier_raw h c =
     Option.bind (dr_unknown (cr_delivery c)) (\<lambda>p. case hp_cell h p of Some (Unknown_Cell m raw) \<Rightarrow> raw | _ \<Rightarrow> None)"

section \<open>Invariant\<close>

definition carriers_held :: "sharing \<Rightarrow> bool" where
  "carriers_held w \<longleftrightarrow>
     (\<forall>p \<in> sh_pointers w. \<exists>m a b. hp_cell (sh_heap w) p = Some (Unknown_Cell m (Some a)) \<and> a \<in> sh_held w
        \<and> hp_cell (sh_heap w) a = Some (Bytes b))"

definition stored_apart :: "sharing \<Rightarrow> config_ref \<Rightarrow> bool" where
  "stored_apart w c \<longleftrightarrow> valid_config (sh_heap w) c \<and> slices c \<inter> sh_held w = {} \<and> slices c \<subseteq> {..<hp_next (sh_heap w)}
     \<and> set_option (dr_unknown (cr_delivery c)) \<subseteq> sh_pointers w"

definition sharing_ok :: "sharing \<Rightarrow> bool" where
  "sharing_ok w \<longleftrightarrow> well_placed (sh_heap w) \<and> sh_held w \<subseteq> {..<hp_next (sh_heap w)} \<and> carriers_held w
     \<and> (\<forall>i c. Mapping.lookup (sh_store w) i = Some c \<longrightarrow> stored_apart w c)"

lemma sharing_okD:
  assumes "sharing_ok w"
  shows "well_placed (sh_heap w)" "sh_held w \<subseteq> {..<hp_next (sh_heap w)}" "carriers_held w"
    "Mapping.lookup (sh_store w) i = Some c \<Longrightarrow> stored_apart w c"
  using assms by (simp_all add: sharing_ok_def)

lemma shared_new: "sharing_ok NewInMemoryStore_shared"
  by (simp add: sharing_ok_def NewInMemoryStore_shared_def well_placed_def carriers_held_def)

text \<open>Growing the heap keeps it, when what the callers gain is new and not in what the store holds.\<close>

lemma grown_apart:
  assumes "sharing_ok w" and "grown (sh_heap w) h" and "stored_apart w c" and "new \<inter> {..<hp_next (sh_heap w)} = {}"
  shows "stored_apart (w\<lparr>sh_heap := h, sh_held := new \<union> sh_held w\<rparr>) c"
proof -
  note c = assms(3) [unfolded stored_apart_def]
  have "hp_next (sh_heap w) \<le> hp_next h" using assms(2) by (simp add: grown_def)
  moreover have "slices c \<inter> (new \<union> sh_held w) = {}" using c assms(4) by blast
  ultimately show ?thesis
    using c config_kept(2) [OF sharing_okD(1) [OF assms(1)] assms(2)] by (fastforce simp: stored_apart_def)
qed

lemma grown_carriers:
  assumes "sharing_ok w" and "grown (sh_heap w) h"
  shows "carriers_held (w\<lparr>sh_heap := h, sh_held := new \<union> sh_held w\<rparr>)"
proof -
  have "hp_cell h a = Some c" if "hp_cell (sh_heap w) a = Some c" for a c
    using grown_cell [OF assms(2) sharing_okD(1) [OF assms(1)] that] .
  then show ?thesis using sharing_okD(3) [OF assms(1)] by (fastforce simp: carriers_held_def)
qed

lemma grown_ok:
  assumes "sharing_ok w" and "grown (sh_heap w) h" and "new \<subseteq> {hp_next (sh_heap w)..<hp_next h}"
    and "\<And>i c. Mapping.lookup m i = Some c
      \<Longrightarrow> Mapping.lookup (sh_store w) i = Some c \<or> stored_apart (w\<lparr>sh_heap := h, sh_held := new \<union> sh_held w\<rparr>) c"
  shows "sharing_ok (w\<lparr>sh_heap := h, sh_store := m, sh_held := new \<union> sh_held w\<rparr>)"
proof -
  let ?w = "w\<lparr>sh_heap := h, sh_held := new \<union> sh_held w\<rparr>"
  have fresh: "new \<inter> {..<hp_next (sh_heap w)} = {}" using assms(3) by fastforce
  have le: "hp_next (sh_heap w) \<le> hp_next h" using assms(2) by (simp add: grown_def)
  have held: "new \<union> sh_held w \<subseteq> {..<hp_next h}" using assms(3) sharing_okD(2) [OF assms(1)] le by fastforce
  have st: "stored_apart ?w c" if "Mapping.lookup m i = Some c" for i c
    using assms(4) [OF that] grown_apart [OF assms(1,2) sharing_okD(4) [OF assms(1)] fresh] by blast
  let ?w' = "w\<lparr>sh_heap := h, sh_store := m, sh_held := new \<union> sh_held w\<rparr>"
  have "stored_apart ?w' c = stored_apart ?w c" for c by (simp add: stored_apart_def)
  moreover have "carriers_held ?w' = carriers_held ?w" by (simp add: carriers_held_def)
  ultimately show ?thesis
    using held st grown_carriers [OF assms(1,2)] grown_placed [OF assms(2)] by (simp add: sharing_ok_def)
qed

lemma shown_value:
  assumes "sharing_ok w"
  shows "shown w i = map_option (config_value (sh_heap w)) (Mapping.lookup (sh_store w) i)"
proof (cases "Mapping.lookup (sh_store w) i")
  case (Some c)
  obtain out h where cl: "heap_cloneStreamConfig c (sh_heap w) = (out, h)" by (metis surj_pair)
  have "valid_config (sh_heap w) c" using sharing_okD(4) [OF assms Some] by (simp add: stored_apart_def)
  then show ?thesis using clone_fresh(3) [OF sharing_okD(1) [OF assms] _ cl] Some by (simp add: shown_def heap_GetStream_def cl)
qed (simp add: shown_def heap_GetStream_def)

text \<open>Writing through a slice the callers have.\<close>

definition same_kind :: "cell \<Rightarrow> cell \<Rightarrow> bool" where
  "same_kind c c' \<longleftrightarrow> (\<exists>b b'. c = Bytes b \<and> c' = Bytes b') \<or> (\<exists>xs xs'. c = Strings xs \<and> c' = Strings xs')"

lemma write_reads:
  assumes "hp_cell h a = Some old" and "same_kind old new" and "r \<noteq> Some a"
  shows "raw_value (heap_write a new h) r = raw_value h r" "strings_value (heap_write a new h) r = strings_value h r"
  using assms(3) by (auto simp: raw_value_def strings_value_def heap_write_def split: option.split)

lemma write_valid:
  assumes "hp_cell h a = Some old" and "same_kind old new"
  shows "bytes_at (heap_write a new h) r = bytes_at h r" "strings_at (heap_write a new h) r = strings_at h r"
    "unknown_at (heap_write a new h) r = unknown_at h r" "valid_config (heap_write a new h) c = valid_config h c"
proof -
  show b: "bytes_at (heap_write a new h) r = bytes_at h r" for r
    using assms by (auto simp: bytes_at_def heap_write_def same_kind_def)
  show s: "strings_at (heap_write a new h) r = strings_at h r" for r
    using assms by (auto simp: strings_at_def heap_write_def same_kind_def)
  have "hp_cell (heap_write a new h) p = Some (Unknown_Cell m raw) \<longleftrightarrow> hp_cell h p = Some (Unknown_Cell m raw)" for p m raw
    using assms by (auto simp: heap_write_def same_kind_def)
  then show u: "unknown_at (heap_write a new h) r = unknown_at h r" for r by (simp add: unknown_at_def b)
  show "valid_config (heap_write a new h) c = valid_config h c" by (simp add: valid_config_def b s u)
qed

text \<open>A configuration without what is behind its delivery's pointer.\<close>

definition off_pointer :: "stream_config \<Rightarrow> stream_config" where
  "off_pointer v = v\<lparr>sc_delivery := (sc_delivery v)\<lparr>dl_unknown := None\<rparr>\<rparr>"

lemma off_pointer_eq:
  assumes "off_pointer v' = off_pointer v" and "dl_unknown (sc_delivery v') = z"
  shows "v' = v\<lparr>sc_delivery := (sc_delivery v)\<lparr>dl_unknown := z\<rparr>\<rparr>"
  using assms by (cases v; cases v'; cases "sc_delivery v"; cases "sc_delivery v'") (simp add: off_pointer_def)

lemma write_ok:
  assumes ok: "sharing_ok w" and a: "a \<in> sh_held w" "hp_cell (sh_heap w) a = Some old" "same_kind old new"
  shows "sharing_ok (w\<lparr>sh_heap := heap_write a new (sh_heap w)\<rparr>)"
    "Mapping.lookup (sh_store w) i = Some c
      \<Longrightarrow> off_pointer (config_value (heap_write a new (sh_heap w)) c) = off_pointer (config_value (sh_heap w) c)"
proof -
  let ?h = "heap_write a new (sh_heap w)"
  note v = write_valid [OF a(2,3)]
  have "stored_apart (w\<lparr>sh_heap := ?h\<rparr>) c = stored_apart w c" for c
    by (simp add: stored_apart_def v) (simp add: heap_write_def)
  moreover have "well_placed ?h" using sharing_okD(1) [OF ok] a(2) by (auto simp: well_placed_def heap_write_def)
  moreover have "carriers_held (w\<lparr>sh_heap := ?h\<rparr>)"
    unfolding carriers_held_def
  proof
    fix p assume "p \<in> sh_pointers (w\<lparr>sh_heap := ?h\<rparr>)"
    with sharing_okD(3) [OF ok] obtain m r b where
      "hp_cell (sh_heap w) p = Some (Unknown_Cell m (Some r))" "r \<in> sh_held w" "hp_cell (sh_heap w) r = Some (Bytes b)"
      by (auto simp: carriers_held_def)
    with a(2,3) show "\<exists>m r b. hp_cell (sh_heap (w\<lparr>sh_heap := ?h\<rparr>)) p = Some (Unknown_Cell m (Some r))
        \<and> r \<in> sh_held (w\<lparr>sh_heap := ?h\<rparr>) \<and> hp_cell (sh_heap (w\<lparr>sh_heap := ?h\<rparr>)) r = Some (Bytes b)"
      by (auto simp: heap_write_def same_kind_def)
  qed
  ultimately show "sharing_ok (w\<lparr>sh_heap := ?h\<rparr>)" using sharing_okD(2,4) [OF ok] by (simp add: sharing_ok_def) (simp add: heap_write_def)
  show "off_pointer (config_value ?h c) = off_pointer (config_value (sh_heap w) c)" if "Mapping.lookup (sh_store w) i = Some c"
  proof -
    have "a \<notin> slices c" using sharing_okD(4) [OF ok that] a(1) by (auto simp: stored_apart_def)
    then have "cr_aud c \<noteq> Some a" "cr_events_supported c \<noteq> Some a" "cr_events_requested c \<noteq> Some a" "cr_events_delivered c \<noteq> Some a"
      by (auto simp: slices_def)
    then show ?thesis by (simp add: off_pointer_def config_value_def write_reads [OF a(2,3)])
  qed
qed

lemma grown_same:
  assumes "sharing_ok w" and "grown (sh_heap w) h" and "new \<subseteq> {hp_next (sh_heap w)..<hp_next h}"
  shows "sharing_ok (w\<lparr>sh_heap := h, sh_held := new \<union> sh_held w\<rparr>)"
  using grown_ok [OF assms, of "sh_store w"] by (cases w) simp

lemma alloc_ok:
  assumes "sharing_ok w" and "heap_alloc c (sh_heap w) = (r, h)"
  shows "sharing_ok (w\<lparr>sh_heap := h, sh_held := set_option r \<union> sh_held w\<rparr>)"
  using grown_same [OF assms(1) alloc_grown(1) [OF sharing_okD(1) [OF assms(1)] assms(2)], of "set_option r"]
    alloc_grown(2,4) [OF sharing_okD(1) [OF assms(1)] assms(2)] by simp

lemma pointer_ok:
  assumes ok: "sharing_ok w" and "heap_alloc (Unknown_Cell m (Some a)) (sh_heap w) = (p, h)"
    and "a \<in> sh_held w" "hp_cell (sh_heap w) a = Some (Bytes b)"
  shows "sharing_ok (w\<lparr>sh_heap := h, sh_pointers := set_option p \<union> sh_pointers w\<rparr>)"
proof -
  note new = alloc_grown [OF sharing_okD(1) [OF ok] assms(2)]
  have "{} \<subseteq> {hp_next (sh_heap w)..<hp_next h}" by simp
  from grown_same [OF ok new(1) this] have w1: "sharing_ok (w\<lparr>sh_heap := h\<rparr>)" by (cases w) simp
  have "hp_cell h a = Some (Bytes b)" using grown_cell [OF new(1) sharing_okD(1) [OF ok] assms(4)] .
  with new(2,3) assms(3) sharing_okD(3) [OF w1]
  have "carriers_held (w\<lparr>sh_heap := h, sh_pointers := set_option p \<union> sh_pointers w\<rparr>)" by (auto simp: carriers_held_def)
  moreover have "stored_apart (w\<lparr>sh_heap := h, sh_pointers := set_option p \<union> sh_pointers w\<rparr>) c"
    if "stored_apart (w\<lparr>sh_heap := h\<rparr>) c" for c
    using that by (auto simp: stored_apart_def)
  ultimately show ?thesis using sharing_okD [OF w1] by (simp add: sharing_ok_def)
qed

lemma put_ok:
  assumes ok: "sharing_ok w" and own: "callers_own w cfg"
  shows "sharing_ok (caller_put i cfg w)" "grown (sh_heap w) (sh_heap (caller_put i cfg w))"
    "j \<noteq> i \<Longrightarrow> Mapping.lookup (sh_store (caller_put i cfg w)) j = Mapping.lookup (sh_store w) j"
proof -
  obtain out h m where put: "heap_put i cfg (sh_heap w, sh_store w) = (out, h, m)" by (metis surj_pair)
  have "valid_config (sh_heap w) cfg" using own by (simp add: callers_own_def)
  from sharing_okD(1) [OF ok] this put obtain stored where
    st: "m = Mapping.update i stored (sh_store w)" "grown (sh_heap w) h" "valid_config h stored"
      "slices stored \<inter> {..<hp_next (sh_heap w)} = {}" "slices out \<inter> {..<hp_next (sh_heap w)} = {}"
      "slices stored \<inter> slices out = {}" "slices out \<subseteq> {..<hp_next h}" "slices stored \<subseteq> {..<hp_next h}"
      "cr_delivery stored = cr_delivery cfg"
    by (rule heap_put_fresh)
  have res: "caller_put i cfg w = w\<lparr>sh_heap := h, sh_store := m, sh_held := slices out \<union> sh_held w\<rparr>"
    by (simp add: caller_put_def put)
  have new: "slices out \<subseteq> {hp_next (sh_heap w)..<hp_next h}" using st(5,7) by (fastforce simp: not_less)
  have "slices stored \<inter> (slices out \<union> sh_held w) = {}" using st(4,6) sharing_okD(2) [OF ok] by blast
  then have "stored_apart (w\<lparr>sh_heap := h, sh_held := slices out \<union> sh_held w\<rparr>) stored"
    using st(3,8,9) own by (simp add: stored_apart_def callers_own_def)
  then show "sharing_ok (caller_put i cfg w)"
    unfolding res by (intro grown_ok [OF ok st(2) new]) (auto simp: st(1) lookup_update' split: if_splits)
  show "grown (sh_heap w) (sh_heap (caller_put i cfg w))" by (simp add: res st(2))
  show "Mapping.lookup (sh_store (caller_put i cfg w)) j = Mapping.lookup (sh_store w) j" if "j \<noteq> i"
    using that by (simp add: res st(1) lookup_update')
qed

text \<open>The stream an operation of the store is about, when it changes one.\<close>

fun changes_stream :: "caller_op \<Rightarrow> string option" where
  "changes_stream (Call_Create i cfg) = Some i"
| "changes_stream (Call_Update cfg) = Some (cr_stream_id cfg)"
| "changes_stream (Call_Delete i) = Some i"
| "changes_stream _ = None"

definition undisturbed :: "sharing \<Rightarrow> sharing \<Rightarrow> string \<Rightarrow> bool" where
  "undisturbed w w' i \<longleftrightarrow> Mapping.lookup (sh_store w') i = Mapping.lookup (sh_store w) i
     \<and> (\<forall>c. Mapping.lookup (sh_store w) i = Some c
        \<longrightarrow> off_pointer (config_value (sh_heap w') c) = off_pointer (config_value (sh_heap w) c))"

lemma grown_undisturbed:
  assumes "sharing_ok w" and "grown (sh_heap w) (sh_heap w')" and "Mapping.lookup (sh_store w') i = Mapping.lookup (sh_store w) i"
  shows "undisturbed w w' i"
  using assms(3) config_kept(1) [OF sharing_okD(1) [OF assms(1)] assms(2)] sharing_okD(4) [OF assms(1)]
  by (auto simp: undisturbed_def stored_apart_def)

lemma get_ok:
  assumes ok: "sharing_ok w" and get: "heap_GetStream i (sh_heap w, sh_store w) = Some (out, h)"
  shows "sharing_ok (w\<lparr>sh_heap := h, sh_held := slices out \<union> sh_held w\<rparr>)" "grown (sh_heap w) h"
    "\<exists>c. Mapping.lookup (sh_store w) i = Some c \<and> cr_delivery out = cr_delivery c"
proof -
  from get obtain c where c: "Mapping.lookup (sh_store w) i = Some c" "heap_cloneStreamConfig c (sh_heap w) = (out, h)"
    by (auto simp: heap_GetStream_def)
  have "valid_config (sh_heap w) c" using sharing_okD(4) [OF ok c(1)] by (simp add: stored_apart_def)
  note f = clone_fresh [OF sharing_okD(1) [OF ok] this c(2)]
  show "sharing_ok (w\<lparr>sh_heap := h, sh_held := slices out \<union> sh_held w\<rparr>)" by (rule grown_same [OF ok f(1,4)])
  show "grown (sh_heap w) h" by (rule f(1))
  show "\<exists>c. Mapping.lookup (sh_store w) i = Some c \<and> cr_delivery out = cr_delivery c" using c(1) f(5) by blast
qed

lemma decode_ok:
  assumes ok: "sharing_ok w" and "caller_step (Decode_Unknown m data) w = Some w'"
  shows "sharing_ok w'" "grown (sh_heap w) (sh_heap w')" "sh_store w' = sh_store w"
proof -
  let ?a = "hp_next (sh_heap w)"
  obtain r h1 where 1: "heap_alloc (Bytes data) (sh_heap w) = (r, h1)" by (metis surj_pair)
  note n1 = alloc_grown [OF sharing_okD(1) [OF ok] 1]
  let ?w1 = "w\<lparr>sh_heap := h1, sh_held := set_option r \<union> sh_held w\<rparr>"
  have ok1: "sharing_ok ?w1" by (rule alloc_ok [OF ok 1])
  obtain p h2 where 2: "heap_alloc (Unknown_Cell m (Some ?a)) (sh_heap ?w1) = (p, h2)" by (metis surj_pair)
  have w': "w' = ?w1\<lparr>sh_heap := h2, sh_pointers := set_option p \<union> sh_pointers ?w1\<rparr>"
    using assms(2) 1 2 n1(2) by (cases w) auto
  show "sharing_ok w'" unfolding w' by (rule pointer_ok [OF ok1 2]) (simp_all add: n1)
  have "grown h1 h2" using alloc_grown(1) [OF sharing_okD(1) [OF ok1] 2] by simp
  then show "grown (sh_heap w) (sh_heap w')" "sh_store w' = sh_store w" using grown_trans [OF n1(1)] by (simp_all add: w')
qed

lemma write_undisturbed:
  assumes "sharing_ok w" and "a \<in> sh_held w" "hp_cell (sh_heap w) a = Some old" "same_kind old new"
    and "w' = w\<lparr>sh_heap := heap_write a new (sh_heap w)\<rparr>"
  shows "sharing_ok w' \<and> undisturbed w w' i"
  using write_ok [OF assms(1-4)] by (simp add: assms(5) undisturbed_def)

lemma caller_step_ok:
  assumes ok: "sharing_ok w" and st: "caller_step p w = Some w'"
  shows "sharing_ok w' \<and> (changes_stream p \<noteq> Some i \<longrightarrow> undisturbed w w' i)"
proof (cases p)
  case (Make_Raw b)
  obtain r h where al: "heap_alloc (Bytes b) (sh_heap w) = (r, h)" by (metis surj_pair)
  with st Make_Raw have "w' = w\<lparr>sh_heap := h, sh_held := set_option r \<union> sh_held w\<rparr>" by simp
  with alloc_ok [OF ok al] grown_undisturbed [OF ok, of w' i] alloc_grown(1) [OF sharing_okD(1) [OF ok] al] show ?thesis by simp
next
  case (Make_Strings xs)
  obtain r h where al: "heap_alloc (Strings xs) (sh_heap w) = (r, h)" by (metis surj_pair)
  with st Make_Strings have "w' = w\<lparr>sh_heap := h, sh_held := set_option r \<union> sh_held w\<rparr>" by simp
  with alloc_ok [OF ok al] grown_undisturbed [OF ok, of w' i] alloc_grown(1) [OF sharing_okD(1) [OF ok] al] show ?thesis by simp
next
  case (Decode_Unknown m data)
  with decode_ok [OF ok] st grown_undisturbed [OF ok, of w' i] show ?thesis by metis
next
  case (Write_Byte a k c)
  with st obtain b where "hp_cell (sh_heap w) a = Some (Bytes b)" "a \<in> sh_held w"
    "w' = w\<lparr>sh_heap := heap_write a (Bytes (b[k := c])) (sh_heap w)\<rparr>"
    by (auto split: option.splits cell.splits if_splits)
  with write_undisturbed [OF ok] show ?thesis by (simp add: same_kind_def)
next
  case (Write_String a k x)
  with st obtain xs where "hp_cell (sh_heap w) a = Some (Strings xs)" "a \<in> sh_held w"
    "w' = w\<lparr>sh_heap := heap_write a (Strings (xs[k := x])) (sh_heap w)\<rparr>"
    by (auto split: option.splits cell.splits if_splits)
  with write_undisturbed [OF ok] show ?thesis by (simp add: same_kind_def)
next
  case (Call_Create j cfg)
  with st have "callers_own w cfg" "w' = caller_put j cfg w" by (simp_all split: if_splits)
  with put_ok [OF ok] grown_undisturbed [OF ok, of w' i] Call_Create show ?thesis by simp
next
  case (Call_Update cfg)
  with st have "callers_own w cfg" "w' = caller_put (cr_stream_id cfg) cfg w" by (simp_all split: if_splits)
  with put_ok [OF ok] grown_undisturbed [OF ok, of w' i] Call_Update show ?thesis by simp
next
  case (Call_Get j)
  with st obtain out h where "heap_GetStream j (sh_heap w, sh_store w) = Some (out, h)"
    "w' = w\<lparr>sh_heap := h, sh_held := slices out \<union> sh_held w\<rparr>" by auto
  with get_ok [OF ok] grown_undisturbed [OF ok, of w' i] show ?thesis by simp
next
  case (Call_Delete j)
  with st have w': "w' = w\<lparr>sh_store := Mapping.delete j (sh_store w)\<rparr>" by simp
  have "stored_apart w' c = stored_apart w c" for c by (simp add: w' stored_apart_def)
  then have "sharing_ok w'" using ok
    by (auto simp: w' sharing_ok_def carriers_held_def lookup_delete' split: if_splits)
  then show ?thesis using Call_Delete by (auto simp: w' undisturbed_def lookup_delete')
qed

lemma caller_steps_ok:
  assumes "sharing_ok w" and "caller_steps ps w = Some w'" and "\<forall>p \<in> set ps. changes_stream p \<noteq> Some i"
  shows "sharing_ok w' \<and> undisturbed w w' i"
  using assms
proof (induction ps arbitrary: w)
  case (Cons p ps)
  from Cons.prems(2) obtain w1 where 1: "caller_step p w = Some w1" "caller_steps ps w1 = Some w'" by (rule run_movesE)
  have s1: "sharing_ok w1" "undisturbed w w1 i" using caller_step_ok [OF Cons.prems(1) 1(1)] Cons.prems(3) by auto
  moreover have "sharing_ok w' \<and> undisturbed w1 w' i" using Cons.IH [OF s1(1) 1(2)] Cons.prems(3) by simp
  ultimately show ?case by (simp add: undisturbed_def)
qed (simp add: undisturbed_def)

interpretation callers: moves_keep caller_step sharing_ok
  using caller_step_ok by unfold_locales blast

section \<open>What holds of the store, and what does not\<close>


text \<open>
  Claim C40: Behind the pointer of an unknown delivery the store and its callers do share. Whoever calls \<open>GetStream\<close> on
  a stream whose delivery has an unregistered method gets, through \<open>Delivery.Unknown\<close>, the very bytes the store holds.
  Writing one of them changes what the next \<open>GetStream\<close> shows, with no call of \<open>UpdateStream\<close>.
\<close>

theorem store_leaks_unknown_delivery:
  assumes "caller_steps earlier NewInMemoryStore_shared = Some w" and "shown w i = Some v"
    and "dl_unknown (sc_delivery v) = Some u" and "k < length (ud_raw u)"
  shows "\<exists>out h a w1 w2. heap_GetStream i (sh_heap w, sh_store w) = Some (out, h) \<and> caller_step (Call_Get i) w = Some w1
    \<and> carrier_raw h out = Some a \<and> caller_step (Write_Byte a k x) w1 = Some w2
    \<and> shown w2 i = Some (v\<lparr>sc_delivery := (sc_delivery v)\<lparr>dl_unknown := Some (u\<lparr>ud_raw := (ud_raw u)[k := x]\<rparr>)\<rparr>\<rparr>)"
proof -
  have ok: "sharing_ok w" by (rule callers.run_keeps [OF shared_new assms(1)])
  from assms(2) obtain out h where get: "heap_GetStream i (sh_heap w, sh_store w) = Some (out, h)" by (auto simp: shown_def)
  note g = get_ok [OF ok get]
  let ?w1 = "w\<lparr>sh_heap := h, sh_held := slices out \<union> sh_held w\<rparr>"
  from g(3) obtain c where c: "Mapping.lookup (sh_store w) i = Some c" "cr_delivery out = cr_delivery c" by blast
  have v: "v = config_value (sh_heap w) c" using assms(2) c(1) by (simp add: shown_value ok)
  have ap: "stored_apart w c" by (rule sharing_okD(4) [OF ok c(1)])
  from assms(3) obtain p where p: "dr_unknown (cr_delivery c) = Some p"
    by (auto simp: v config_value_def unknown_value_def split: option.splits)
  with ap have "p \<in> sh_pointers w" by (simp add: stored_apart_def)
  with sharing_okD(3) [OF ok] obtain m a b where
    cell: "hp_cell (sh_heap w) p = Some (Unknown_Cell m (Some a))" "a \<in> sh_held w" "hp_cell (sh_heap w) a = Some (Bytes b)"
    by (auto simp: carriers_held_def)
  have u: "u = \<lparr>ud_method = m, ud_raw = b\<rparr>"
    using assms(3) by (simp add: v config_value_def unknown_value_def p cell raw_value_def)
  note cell1 = grown_cell [OF g(2) sharing_okD(1) [OF ok] cell(1)] grown_cell [OF g(2) sharing_okD(1) [OF ok] cell(3)]
  let ?w2 = "?w1\<lparr>sh_heap := heap_write a (Bytes (b[k := x])) h\<rparr>"
  have w2: "caller_step (Write_Byte a k x) ?w1 = Some ?w2" using cell1 cell(2) assms(4) by (simp add: u)
  have kind: "same_kind (Bytes b) (Bytes (b[k := x]))" by (simp add: same_kind_def)
  have held: "a \<in> sh_held ?w1" "hp_cell (sh_heap ?w1) a = Some (Bytes b)" using cell(2) cell1(2) by simp_all
  note wr = write_ok [OF g(1) held kind]
  have lk: "Mapping.lookup (sh_store ?w1) i = Some c" using c(1) by simp
  have "off_pointer (config_value (sh_heap ?w2) c) = off_pointer (config_value h c)" using wr(2) [OF lk] by simp
  moreover have "config_value h c = v"
    using config_kept(1) [OF sharing_okD(1) [OF ok] g(2)] ap by (simp add: v stored_apart_def)
  moreover have "unknown_value (sh_heap ?w2) (Some p) = Some (u\<lparr>ud_raw := (ud_raw u)[k := x]\<rparr>)"
    using cell1 by (auto simp: unknown_value_def heap_write_def raw_value_def u)
  ultimately have "config_value (sh_heap ?w2) c
      = v\<lparr>sc_delivery := (sc_delivery v)\<lparr>dl_unknown := Some (u\<lparr>ud_raw := (ud_raw u)[k := x]\<rparr>)\<rparr>\<rparr>"
    by (intro off_pointer_eq) (simp_all add: config_value_def p)
  then have "shown ?w2 i = Some (v\<lparr>sc_delivery := (sc_delivery v)\<lparr>dl_unknown := Some (u\<lparr>ud_raw := (ud_raw u)[k := x]\<rparr>)\<rparr>\<rparr>)"
    using wr(1) c(1) by (simp add: shown_value)
  moreover have "caller_step (Call_Get i) w = Some ?w1" by (simp add: get)
  moreover have "carrier_raw h out = Some a" by (simp add: carrier_raw_def c(2) p cell1(1))
  ultimately show ?thesis using get w2 by blast
qed

section \<open>Witnesses\<close>

definition shared_config :: config_ref where
  "shared_config = \<lparr>cr_stream_id = ''s'', cr_iss = ''i'', cr_aud = Some 2, cr_events_supported = None,
     cr_events_requested = None, cr_events_delivered = None,
     cr_delivery = \<lparr>dr_method = ''m'', dr_endpoint_url = [], dr_authorization_header = [], dr_unknown = Some 1\<rparr>,
     cr_min_verification_interval = 0, cr_format = []\<rparr>"

definition shared_world :: sharing where
  "shared_world =
     \<lparr>sh_heap = \<lparr>hp_next = 5, hp_cell = [0 \<mapsto> Bytes ''{}'', 1 \<mapsto> Unknown_Cell ''m'' (Some 0), 2 \<mapsto> Bytes ''a'',
        3 \<mapsto> Bytes ''a'', 4 \<mapsto> Bytes ''a'']\<rparr>,
      sh_store = Mapping.update ''s'' (shared_config\<lparr>cr_aud := Some 3\<rparr>) Mapping.empty,
      sh_held = {0, 2, 4}, sh_pointers = {1}\<rparr>"

lemma shared_session:
  "caller_steps [Decode_Unknown ''m'' ''{}'', Make_Raw ''a'', Call_Create ''s'' shared_config] NewInMemoryStore_shared
    = Some shared_world"
  unfolding shared_world_def
  by (simp add: NewInMemoryStore_shared_def heap_alloc_def caller_put_def heap_put_def heap_cloneStreamConfig_def
      heap_cloneRaw_def heap_cloneStrings_def shared_config_def callers_own_def valid_config_def bytes_at_def strings_at_def
      unknown_at_def raw_value_def strings_value_def slices_def lookup_empty insert_commute numeral_eq_Suc)

lemma shared_shown:
  "map_option (\<lambda>v. (sc_aud v, dl_unknown (sc_delivery v))) (shown shared_world ''s'')
    = Some (''a'', Some \<lparr>ud_method = ''m'', ud_raw = ''{}''\<rparr>)"
  by (simp add: shared_world_def shown_def heap_GetStream_def heap_cloneStreamConfig_def heap_cloneRaw_def heap_cloneStrings_def
      heap_alloc_def raw_value_def strings_value_def unknown_value_def config_value_def shared_config_def lookup_update')


theorem store_leaks_unknown_delivery_witness:
  "\<exists>out h a w1 w2 v. heap_GetStream ''s'' (sh_heap shared_world, sh_store shared_world) = Some (out, h)
    \<and> carrier_raw h out = Some a \<and> caller_step (Call_Get ''s'') shared_world = Some w1
    \<and> caller_step (Write_Byte a 1 CHR ''!'') w1 = Some w2 \<and> shown w2 ''s'' = Some v
    \<and> dl_unknown (sc_delivery v) = Some \<lparr>ud_method = ''m'', ud_raw = ''{!''\<rparr>"
proof -
  obtain v where v: "shown shared_world ''s'' = Some v" "dl_unknown (sc_delivery v) = Some \<lparr>ud_method = ''m'', ud_raw = ''{}''\<rparr>"
    using shared_shown by auto
  have "1 < length (ud_raw \<lparr>ud_method = ''m'', ud_raw = ''{}''\<rparr>)" by simp
  from store_leaks_unknown_delivery [OF shared_session v this, of "CHR ''!''"] show ?thesis
    by (elim exE conjE, intro exI conjI) (assumption+, simp)
qed

end
