(* ===== verification/Worker_Pool.thy ===== *)
theory Worker_Pool
  imports Poller Interleaving
begin

text \<open>
  Parallel delivery of a poll response (\<open>receiver/poller.go\<close>, the second half of \<open>process\<close>): a dispatcher sends the SETs
  over an unbuffered channel to a pool of workers, each delivers what it receives and lands its result in a shared
  accumulator under a mutex; the dispatcher closes the channel and waits for the workers. The theory has the pool step by
  step and shows that it is \<open>process\<close> of \<open>Poller\<close>, which knows of no workers. A call of the sink is one step: a sink
  that may be called concurrently takes each call as if it came alone.
\<close>

section \<open>The pool\<close>

datatype pool_worker =
    Receiving
  | Working string string
  | Landing set_result
  | Gone

record 's pool =
  pool_jobs :: "(string \<times> string) list"
  pool_closed :: bool
  pool_workers :: "pool_worker list"
  pool_ack :: "string list option"
  pool_errs :: "(string, set_err) mapping option"
  pool_sink :: 's

definition pool_start :: "int \<Rightarrow> (string \<times> string) list \<Rightarrow> 's \<Rightarrow> 's pool" where
  "pool_start parallelism entries s =
     \<lparr>pool_jobs = entries, pool_closed = False,
      pool_workers = replicate (nat (if int (length entries) < parallelism then int (length entries) else parallelism)) Receiving,
      pool_ack = None, pool_errs = None, pool_sink = s\<rparr>"

definition land_result :: "set_result \<Rightarrow> 's pool \<Rightarrow> 's pool" where
  "land_result r p =
     p\<lparr>pool_ack := (if st_ack r then Some (acked (pool_ack p) @ [st_jti r]) else pool_ack p),
       pool_errs := err_step r (pool_errs p)\<rparr>"

text \<open>
  The moves. Sending needs a worker that receives; a worker leaves its loop when the channel is closed and drained, which
  it is as soon as it is closed. \<open>None\<close> is a move that is not possible.
\<close>

datatype pool_move = Send nat | Deliver_One nat | Land nat | Close | Leave nat

definition worker_at :: "nat \<Rightarrow> 's pool \<Rightarrow> pool_worker option" where
  "worker_at k p = (if k < length (pool_workers p) then Some (pool_workers p ! k) else None)"

abbreviation set_worker :: "nat \<Rightarrow> pool_worker \<Rightarrow> 's pool \<Rightarrow> 's pool" where
  "set_worker k w p \<equiv> p\<lparr>pool_workers := (pool_workers p)[k := w]\<rparr>"

fun pool_do :: "(string \<Rightarrow> string result) \<Rightarrow> 's sink \<Rightarrow> pool_move \<Rightarrow> 's pool \<Rightarrow> 's pool option" where
  "pool_do verify sink (Send k) p =
     (case (pool_jobs p, worker_at k p) of
        ((jti, jws) # es, Some Receiving) \<Rightarrow> Some (set_worker k (Working jti jws) (p\<lparr>pool_jobs := es\<rparr>))
      | _ \<Rightarrow> None)"
| "pool_do verify sink (Deliver_One k) p =
     (case worker_at k p of
        Some (Working jti jws) \<Rightarrow>
          (case deliverOne verify sink jws (pool_sink p) of
             ((ok, code, desc), s) \<Rightarrow>
               Some (set_worker k (Landing \<lparr>st_jti = jti, st_ack = ok, st_code = code, st_desc = desc\<rparr>) (p\<lparr>pool_sink := s\<rparr>)))
      | _ \<Rightarrow> None)"
| "pool_do verify sink (Land k) p =
     (case worker_at k p of
        Some (Landing r) \<Rightarrow> Some (set_worker k Receiving (land_result r p))
      | _ \<Rightarrow> None)"
| "pool_do verify sink Close p =
     (if pool_jobs p = [] \<and> \<not> pool_closed p then Some (p\<lparr>pool_closed := True\<rparr>) else None)"
| "pool_do verify sink (Leave k) p =
     (case worker_at k p of
        Some Receiving \<Rightarrow> if pool_closed p then Some (set_worker k Gone p) else None
      | _ \<Rightarrow> None)"

abbreviation pool_run :: "(string \<Rightarrow> string result) \<Rightarrow> 's sink \<Rightarrow> pool_move list \<Rightarrow> 's pool \<Rightarrow> 's pool option" where
  "pool_run verify sink \<equiv> run_moves (pool_do verify sink)"

text \<open>\<open>wg.Wait\<close> returns.\<close>

definition pool_finished :: "'s pool \<Rightarrow> bool" where
  "pool_finished p \<longleftrightarrow> pool_closed p \<and> list_all (\<lambda>w. w = Gone) (pool_workers p)"

section \<open>Sums over the workers\<close>

lemma sum_update:
  fixes f :: "'a \<Rightarrow> 'b :: comm_monoid_add"
  assumes "k < length ws"
  shows "sum_list (map f (ws[k := x])) + f (ws ! k) = sum_list (map f ws) + f x"
  using assms by (induction ws arbitrary: k) (auto simp: less_Suc_eq_0_disj ac_simps split: nat.split)

fun in_hand :: "pool_worker \<Rightarrow> (string \<times> string) multiset" where
  "in_hand (Working jti jws) = {#(jti, jws)#}"
| "in_hand _ = {#}"

fun to_land :: "pool_worker \<Rightarrow> set_result multiset" where
  "to_land (Landing r) = {#r#}"
| "to_land _ = {#}"

fun work_left :: "pool_worker \<Rightarrow> nat" where
  "work_left Receiving = 1"
| "work_left (Working jti jws) = 3"
| "work_left (Landing r) = 2"
| "work_left Gone = 0"

definition pool_measure :: "'s pool \<Rightarrow> nat" where
  "pool_measure p = 3 * length (pool_jobs p) + sum_list (map work_left (pool_workers p)) + (if pool_closed p then 0 else 1)"

lemma worker_atD:
  assumes "worker_at k p = Some w"
  shows "k < length (pool_workers p)" "pool_workers p ! k = w"
  using assms by (simp_all add: worker_at_def split: if_splits)

lemma sum_worker:
  fixes f :: "pool_worker \<Rightarrow> 'b :: comm_monoid_add"
  assumes "worker_at k p = Some w"
  shows "sum_list (map f ((pool_workers p)[k := x])) + f w = sum_list (map f (pool_workers p)) + f x"
  using sum_update [of k "pool_workers p" f x] worker_atD [OF assms] by simp

section \<open>Every move is one step nearer to the end\<close>

lemma pool_doE:
  assumes "pool_do verify sink m p = Some p'"
  obtains (send) k jti jws es where "m = Send k" "pool_jobs p = (jti, jws) # es" "worker_at k p = Some Receiving"
      "p' = set_worker k (Working jti jws) (p\<lparr>pool_jobs := es\<rparr>)"
  | (deliver) k jti jws ok code desc s where "m = Deliver_One k" "worker_at k p = Some (Working jti jws)"
      "deliverOne verify sink jws (pool_sink p) = ((ok, code, desc), s)"
      "p' = set_worker k (Landing \<lparr>st_jti = jti, st_ack = ok, st_code = code, st_desc = desc\<rparr>) (p\<lparr>pool_sink := s\<rparr>)"
  | (land) k r where "m = Land k" "worker_at k p = Some (Landing r)" "p' = set_worker k Receiving (land_result r p)"
  | (close) "m = Close" "pool_jobs p = []" "\<not> pool_closed p" "p' = p\<lparr>pool_closed := True\<rparr>"
  | (leave) k where "m = Leave k" "worker_at k p = Some Receiving" "pool_closed p" "p' = set_worker k Gone p"
proof (cases m)
  case (Send k)
  with assms that(1) show thesis by (auto split: list.splits option.splits pool_worker.splits)
next
  case (Deliver_One k)
  with assms that(2) show thesis by (auto split: option.splits pool_worker.splits prod.splits)
next
  case (Land k)
  with assms that(3) show thesis by (auto split: option.splits pool_worker.splits)
next
  case Close
  with assms that(4) show thesis by (auto split: if_splits)
next
  case (Leave k)
  with assms that(5) show thesis by (auto split: option.splits pool_worker.splits if_splits)
qed

lemma pool_do_measure:
  assumes "pool_do verify sink m p = Some p'"
  shows "Suc (pool_measure p') = pool_measure p \<and> length (pool_workers p') = length (pool_workers p)"
  using assms
proof (cases rule: pool_doE)
  case (send k jti jws es)
  with sum_worker [OF send(3), of work_left "Working jti jws"] show ?thesis by (simp add: pool_measure_def)
next
  case (deliver k jti jws ok code desc s)
  with sum_worker [OF deliver(2), of work_left "Landing \<lparr>st_jti = jti, st_ack = ok, st_code = code, st_desc = desc\<rparr>"]
  show ?thesis by (simp add: pool_measure_def)
next
  case (land k r)
  with sum_worker [OF land(2), of work_left Receiving] show ?thesis by (simp add: pool_measure_def land_result_def)
next
  case close
  then show ?thesis by (simp add: pool_measure_def)
next
  case (leave k)
  with sum_worker [OF leave(2), of work_left Gone] show ?thesis by (simp add: pool_measure_def)
qed

section \<open>What the pool has done so far\<close>

text \<open>
  The SETs \<open>ds\<close> were delivered in this order, with the results \<open>rs\<close>; the results \<open>ls\<close> have landed in this order.
\<close>

definition pool_view ::
  "(string \<Rightarrow> string result) \<Rightarrow> 's sink \<Rightarrow> (string \<times> string) list \<Rightarrow> 's \<Rightarrow> 's pool \<Rightarrow> (string \<times> string) list
     \<Rightarrow> set_result list \<Rightarrow> set_result list \<Rightarrow> bool" where
  "pool_view verify sink entries s0 p ds rs ls \<longleftrightarrow>
     deliver_each verify sink ds s0 = (rs, pool_sink p)
     \<and> mset entries = mset (pool_jobs p) + sum_list (map in_hand (pool_workers p)) + mset ds
     \<and> mset rs = mset ls + sum_list (map to_land (pool_workers p))
     \<and> pool_ack p = (if collect_acks ls = [] then None else Some (collect_acks ls))
     \<and> pool_errs p = collect_errs ls"

definition pool_order :: "'s pool \<Rightarrow> bool" where
  "pool_order p \<longleftrightarrow> (if pool_closed p then pool_jobs p = [] else Gone \<notin> set (pool_workers p))"

lemma deliver_each_snoc:
  assumes "deliver_each verify sink ds s = (rs, s1)" and "deliverOne verify sink jws s1 = ((ok, code, desc), s2)"
  shows "deliver_each verify sink (ds @ [(jti, jws)]) s
    = (rs @ [\<lparr>st_jti = jti, st_ack = ok, st_code = code, st_desc = desc\<rparr>], s2)"
  using assms
proof (induction ds arbitrary: s rs)
  case (Cons d ds)
  obtain j w where d: "d = (j, w)" by (cases d)
  obtain ok1 code1 desc1 s' where one: "deliverOne verify sink w s = ((ok1, code1, desc1), s')" by (metis surj_pair)
  obtain rs1 where "deliver_each verify sink ds s' = (rs1, s1)"
      "rs = \<lparr>st_jti = j, st_ack = ok1, st_code = code1, st_desc = desc1\<rparr> # rs1"
    using Cons.prems(1) by (auto simp: d one split: prod.split_asm)
  with Cons.IH [OF _ Cons.prems(2)] show ?case by (simp add: d one)
qed simp

lemma collect_snoc:
  "collect_acks (ls @ [r]) = collect_acks ls @ (if st_ack r then [st_jti r] else [])"
  "collect_errs (ls @ [r]) = err_step r (collect_errs ls)"
  by (simp_all add: collect_acks_def collect_errs_fold)

lemma pool_do_view:
  assumes "pool_do verify sink m p = Some p'" and "pool_view verify sink entries s0 p ds rs ls"
  shows "\<exists>ds' rs' ls'. pool_view verify sink entries s0 p' ds' rs' ls'"
  using assms(1)
proof (cases rule: pool_doE)
  case (send k jti jws es)
  with assms(2) sum_worker [OF send(3), of in_hand "Working jti jws"] sum_worker [OF send(3), of to_land "Working jti jws"]
  have "pool_view verify sink entries s0 p' ds rs ls" by (simp add: pool_view_def)
  then show ?thesis by blast
next
  case (deliver k jti jws ok code desc s)
  let ?r = "\<lparr>st_jti = jti, st_ack = ok, st_code = code, st_desc = desc\<rparr>"
  have "deliver_each verify sink ds s0 = (rs, pool_sink p)" using assms(2) by (simp add: pool_view_def)
  note delivered = deliver_each_snoc [OF this deliver(3), of jti]
  have "mset (ds @ [(jti, jws)]) + sum_list (map in_hand ((pool_workers p)[k := Landing ?r]))
      = mset ds + sum_list (map in_hand (pool_workers p))"
    using sum_worker [OF deliver(2), of in_hand "Landing ?r"] by simp
  moreover have "mset (rs @ [?r]) = mset ls + sum_list (map to_land ((pool_workers p)[k := Landing ?r]))"
    using assms(2) sum_worker [OF deliver(2), of to_land "Landing ?r"] by (simp add: pool_view_def)
  ultimately have "pool_view verify sink entries s0 p' (ds @ [(jti, jws)]) (rs @ [?r]) ls"
    using assms(2) deliver(4) delivered by (simp add: pool_view_def ac_simps)
  then show ?thesis by blast
next
  case (land k r)
  with assms(2) sum_worker [OF land(2), of in_hand Receiving] sum_worker [OF land(2), of to_land Receiving]
  have "pool_view verify sink entries s0 p' ds rs (ls @ [r])"
    by (auto simp: pool_view_def land_result_def collect_snoc acked_def)
  then show ?thesis by blast
next
  case close
  with assms(2) show ?thesis by (auto simp: pool_view_def)
next
  case (leave k)
  with assms(2) sum_worker [OF leave(2), of in_hand Gone] sum_worker [OF leave(2), of to_land Gone]
  have "pool_view verify sink entries s0 p' ds rs ls" by (simp add: pool_view_def)
  then show ?thesis by blast
qed

lemma pool_do_order:
  assumes "pool_do verify sink m p = Some p'" and "pool_order p"
  shows "pool_order p'"
  using assms(1)
proof (cases rule: pool_doE)
  case close
  with assms(2) show ?thesis by (simp add: pool_order_def)
qed (use assms(2) set_update_subset_insert [of "pool_workers p"] in
    \<open>fastforce simp: pool_order_def land_result_def split: if_splits\<close>)+

interpretation pool_orders: moves_keep "pool_do verify sink" pool_order for verify sink
  by unfold_locales (rule pool_do_order)

interpretation pool_history: moves_keep "pool_do verify sink" "\<lambda>p. \<exists>ds rs ls. pool_view verify sink entries s p ds rs ls"
  for verify sink entries s
  by unfold_locales (elim exE, rule pool_do_view)

lemma sum_replicate_empty: "sum_list (replicate n {#}) = {#}"
  by (induction n) simp_all

lemma pool_size:
  "length (pool_workers (pool_start parallelism entries s)) = min (length entries) (nat parallelism)"
proof (cases "int (length entries) < parallelism")
  case True
  then have "length entries \<le> nat parallelism" by linarith
  with True show ?thesis by (simp add: pool_start_def min.absorb1)
next
  case False
  then have "nat parallelism \<le> length entries" by linarith
  with False show ?thesis by (simp add: pool_start_def min.absorb2)
qed

lemma pool_start_ok:
  "pool_view verify sink entries s (pool_start parallelism entries s) [] [] []" "pool_order (pool_start parallelism entries s)"
  by (simp_all add: pool_view_def pool_order_def pool_start_def sum_replicate_empty collect_acks_def collect_errs_def)

section \<open>The pool never blocks\<close>

lemma pool_progress:
  assumes "pool_order p" and "pool_workers p \<noteq> []" and "\<not> pool_finished p"
  shows "\<exists>m p'. pool_do verify sink m p = Some p'"
proof -
  obtain k where k: "k < length (pool_workers p)" "pool_closed p \<Longrightarrow> pool_workers p ! k \<noteq> Gone"
  proof (cases "pool_closed p")
    case True
    with assms(3) that show thesis by (auto simp: pool_finished_def list_all_length)
  next
    case False
    with assms(2) that [of 0] show thesis by simp
  qed
  have at: "worker_at k p = Some (pool_workers p ! k)" using k(1) by (simp add: worker_at_def)
  have "pool_workers p ! k \<noteq> Gone"
  proof (cases "pool_closed p")
    case False
    with assms(1) have "Gone \<notin> set (pool_workers p)" by (simp add: pool_order_def)
    with k(1) show ?thesis by (metis nth_mem)
  qed (rule k(2))
  then consider (w) jti jws where "pool_workers p ! k = Working jti jws" | (l) r where "pool_workers p ! k = Landing r"
    | (r) "pool_workers p ! k = Receiving" by (cases "pool_workers p ! k") auto
  then show ?thesis
  proof cases
    case w
    then show ?thesis by (intro exI [of _ "Deliver_One k"]) (simp add: at split: prod.split)
  next
    case l
    then show ?thesis by (intro exI [of _ "Land k"]) (simp add: at)
  next
    case r
    show ?thesis
    proof (cases "pool_closed p")
      case True
      with r show ?thesis by (intro exI [of _ "Leave k"]) (simp add: at)
    next
      case False
      with r show ?thesis
        by (cases "pool_jobs p") (auto simp: at intro!: exI [of _ "if pool_jobs p = [] then Close else Send k"])
    qed
  qed
qed

lemma finished_measure:
  assumes "pool_order p"
  shows "pool_finished p \<longleftrightarrow> pool_measure p = 0"
proof -
  have "work_left w = 0 \<longleftrightarrow> w = Gone" for w by (cases w) simp_all
  then show ?thesis
    using assms by (auto simp: pool_finished_def pool_measure_def pool_order_def list_all_iff)
qed

text \<open>The contract of a scheduler, for a pool of \<open>n\<close> workers.\<close>

definition pool_ok :: "nat \<Rightarrow> 's pool \<Rightarrow> bool" where
  "pool_ok n p \<longleftrightarrow> pool_order p \<and> length (pool_workers p) = n \<and> n \<noteq> 0"

interpretation pool: moves_end "pool_do verify sink" "pool_ok n" pool_measure for verify sink n
proof unfold_locales
  fix m and p p' :: "'a pool" assume ok: "pool_ok n p" and m: "pool_do verify sink m p = Some p'"
  show "pool_ok n p'" using ok pool_do_order [OF m] pool_do_measure [OF m] by (simp add: pool_ok_def)
  show "Suc (pool_measure p') = pool_measure p" using pool_do_measure [OF m] by simp
next
  fix p :: "'a pool" assume "pool_ok n p" and "0 < pool_measure p"
  then show "\<exists>m p'. pool_do verify sink m p = Some p'"
    using pool_progress [of p verify sink] finished_measure [of p] by (auto simp: pool_ok_def)
qed

lemma pool_start_measure:
  "pool_measure (pool_start parallelism entries s) = 3 * length entries + min (length entries) (nat parallelism) + 1"
  using pool_size [of parallelism entries s] by (simp add: pool_measure_def pool_start_def sum_list_replicate)

lemma pool_start_size_ok:
  "1 < parallelism \<Longrightarrow> entries \<noteq> [] \<Longrightarrow> pool_ok (min (length entries) (nat parallelism)) (pool_start parallelism entries s)"
  using pool_start_ok(2) pool_size [of parallelism entries s] by (simp add: pool_ok_def min_def)

text \<open>
  Claim C32: Parallel delivery always ends, whatever the scheduler does. With at least one SET and a parallelism above one, no
  schedule has more than \<open>3 n + w + 1\<close> moves, for \<open>n\<close> SETs and \<open>w\<close> workers, \<open>w\<close> being the smaller of the two numbers; the
  wait for the workers returns after exactly so many; before that some move is possible, so that the channel, its
  closing and the wait never block for ever; and no more deliveries run at a time than were configured.
\<close>

theorem pool_ends:
  assumes "pool_run verify sink ms (pool_start parallelism entries s) = Some p" and "1 < parallelism" and "entries \<noteq> []"
  shows "length ms \<le> 3 * length entries + min (length entries) (nat parallelism) + 1
    \<and> (pool_finished p \<longleftrightarrow> length ms = 3 * length entries + min (length entries) (nat parallelism) + 1)
    \<and> (\<not> pool_finished p \<longrightarrow> (\<exists>m p'. pool_do verify sink m p = Some p'))
    \<and> length (filter (\<lambda>w. \<exists>jti jws. w = Working jti jws) (pool_workers p)) \<le> nat parallelism"
proof -
  note start = pool_start_size_ok [OF assms(2,3), of s]
  note facts = pool.run_bounded [OF start assms(1)] pool.run_ends [OF start assms(1)] pool.run_goes_on [OF start assms(1)]
  from pool.run_keeps [OF start assms(1)] have ok: "pool_order p" "length (pool_workers p) \<le> nat parallelism"
    by (simp_all add: pool_ok_def)
  have "length (filter (\<lambda>w. \<exists>jti jws. w = Working jti jws) (pool_workers p)) \<le> nat parallelism"
    by (rule order.trans [OF length_filter_le ok(2)])
  with facts show ?thesis unfolding pool_start_measure finished_measure [OF ok(1)] by (intro conjI impI) assumption+
qed

section \<open>The pool is \<open>process\<close>\<close>

lemma sum_gone: "\<forall>w \<in> set ws. w = Gone \<Longrightarrow> f Gone = {#} \<Longrightarrow> sum_list (map f ws) = {#}"
  by (induction ws) simp_all

lemma finished_idle:
  assumes "pool_finished p"
  shows "sum_list (map in_hand (pool_workers p)) = {#}" "sum_list (map to_land (pool_workers p)) = {#}"
  using assms sum_gone [of "pool_workers p" in_hand] sum_gone [of "pool_workers p" to_land]
  by (simp_all add: pool_finished_def list_all_iff)

text \<open>
  Claim C31: When parallel delivery has ended, its acknowledgements, its error reports and the state it left the sink in
  are those of \<open>process\<close> for some order of the SETs and some order in which the results landed, whatever the schedule was. What is
  shown of \<open>process\<close> for all orders, that every SET is delivered once and acknowledged or reported as it should, is
  thereby shown of the workers.
\<close>

theorem pool_refines_process:
  assumes "pool_run verify sink ms (pool_start parallelism entries s) = Some p" and "pool_finished p"
    and "1 < parallelism" and "pr_sets pr = Some sets" and "\<not> Mapping.is_empty sets"
  shows "\<exists>order landing. mset order = mset entries \<and> (\<forall>rs. mset (landing rs) = mset rs)
    \<and> process verify sink parallelism (\<lambda>_. order) landing pr s
      = (\<lparr>pt_ack = pool_ack p, pt_set_errs = pool_errs p, pt_empty = False,
          pt_more_available = (pr_more_available pr = Some True), pt_retry_after = 0\<rparr>, pool_sink p)"
proof -
  have "\<exists>ds rs ls. pool_view verify sink entries s (pool_start parallelism entries s) ds rs ls"
    by (intro exI) (rule pool_start_ok(1))
  from pool_history.run_keeps [OF this assms(1)] obtain ds rs ls where
    view: "pool_view verify sink entries s p ds rs ls" by blast
  have "pool_order p" by (rule pool_orders.run_keeps [OF pool_start_ok(2) assms(1)])
  then have "pool_jobs p = []" using assms(2) by (simp add: pool_order_def pool_finished_def)
  with view finished_idle [OF assms(2)]
  have all: "mset ds = mset entries" "mset rs = mset ls" "deliver_each verify sink ds s = (rs, pool_sink p)"
    "pool_ack p = (if collect_acks ls = [] then None else Some (collect_acks ls))" "pool_errs p = collect_errs ls"
    by (simp_all add: pool_view_def)
  let ?landing = "\<lambda>xs. if xs = rs then ls else xs"
  have "process verify sink parallelism (\<lambda>_. ds) ?landing pr s
      = (\<lparr>pt_ack = pool_ack p, pt_set_errs = pool_errs p, pt_empty = False,
          pt_more_available = (pr_more_available pr = Some True), pt_retry_after = 0\<rparr>, pool_sink p)"
    using assms(3-5) by (simp add: process_def all(3-5) zero_outcome_def Let_def)
  moreover have "\<forall>xs. mset (?landing xs) = mset xs" using all(2) by simp
  ultimately show ?thesis using all(1) by (intro exI [of _ ds] exI [of _ ?landing] conjI) simp_all
qed

section \<open>An example\<close>

text \<open>Two workers, two SETs: the second is delivered first, and the first lands first.\<close>

definition sample_pool_moves :: "pool_move list" where
  "sample_pool_moves = [Send 0, Send 1, Deliver_One 1, Close, Deliver_One 0, Land 0, Leave 0, Land 1, Leave 1]"

definition sample_batch :: "(string \<times> string) list" where
  "sample_batch = [(''a'', ''A''), (''b'', ''B'')]"

lemma sample_pool:
  obtains p where "pool_run Inr list_sink sample_pool_moves (pool_start 3 sample_batch []) = Some p" "pool_finished p"
    "pool_ack p = Some [''a'', ''b'']" "pool_sink p = [''B'', ''A'']"
  by (simp add: sample_pool_moves_def sample_batch_def pool_start_def worker_at_def deliverOne_def list_sink_def
      land_result_def err_step_def acked_def pool_finished_def numeral_2_eq_2)

theorem pool_ends_witness:
  "\<exists>p. pool_run Inr list_sink sample_pool_moves (pool_start 3 sample_batch []) = Some p
    \<and> length sample_pool_moves = 9 \<and> pool_finished p"
proof -
  obtain p where run: "pool_run Inr list_sink sample_pool_moves (pool_start 3 sample_batch []) = Some p"
    by (rule sample_pool)
  have "(1 :: int) < 3" "sample_batch \<noteq> []" by (simp_all add: sample_batch_def)
  moreover have "length sample_pool_moves = 9" "length sample_batch = 2"
    by (simp_all add: sample_pool_moves_def sample_batch_def)
  ultimately have "pool_finished p" using pool_ends [OF run] by simp
  then show ?thesis using run \<open>length sample_pool_moves = 9\<close> by blast
qed

theorem pool_refines_process_witness:
  "\<exists>order landing oc. mset order = mset sample_batch
    \<and> process Inr list_sink 3 (\<lambda>_. order) landing
        \<lparr>pr_sets = Some (Mapping.update ''a'' ''A'' (Mapping.update ''b'' ''B'' Mapping.empty)), pr_more_available = None\<rparr> []
      = (oc, [''B'', ''A'']) \<and> pt_ack oc = Some [''a'', ''b'']"
proof -
  obtain p where p: "pool_run Inr list_sink sample_pool_moves (pool_start 3 sample_batch []) = Some p" "pool_finished p"
    "pool_ack p = Some [''a'', ''b'']" "pool_sink p = [''B'', ''A'']" by (rule sample_pool)
  let ?sets = "Mapping.update ''a'' ''A'' (Mapping.update ''b'' ''B'' Mapping.empty)"
  have "\<not> Mapping.is_empty ?sets" by (simp add: Mapping.is_empty_def)
  with pool_refines_process [OF p(1,2), of "\<lparr>pr_sets = Some ?sets, pr_more_available = None\<rparr>" ?sets] p(3,4)
  show ?thesis by fastforce
qed

end
